(* ===== verification/Dali_Prelude.thy ===== *)
theory Dali_Prelude
  imports Main "HOL-Library.Word"
begin

text \<open>
  Shared vocabulary of the development: the machine integers of the firmware
  (\<open>std::uint8_t\<close> and its kin are words, so that \<open>+\<close> wraps as in C++), fixed-capacity
  arrays as lists of constant length, ring buffers over such arrays, and the lemma
  collections the component theories use.
\<close>

unbundle bit_operations_syntax

type_synonym u8 = "8 word"
type_synonym u16 = "16 word"
type_synonym u32 = "32 word"
type_synonym u64 = "64 word"

text \<open>
  \<open>keeps\<close> collects the preservation lemmas of the component invariants,
  \<open>frames\<close> the equations saying which part of a state an operation leaves alone.
\<close>

named_theorems keeps
named_theorems frames

section \<open>Words\<close>

lemma unat_inc_less [simp]:
  fixes w v :: "'a::len word"
  assumes "w < v"
  shows "unat (w + 1) = Suc (unat w)"
proof -
  have "unat w < unat v" using assms by (simp add: word_less_nat_alt)
  moreover have "unat v < 2 ^ LENGTH('a)" by (rule unsigned_less)
  ultimately have "Suc (unat w) < 2 ^ LENGTH('a)" by linarith
  then show ?thesis by (simp add: unat_word_ariths)
qed

lemma inc_le_of_less:
  fixes w v :: "'a::len word"
  assumes "w < v"
  shows "w + 1 \<le> v"
  using assms by (simp add: word_le_nat_alt word_less_nat_alt)

text \<open>Counters that stop at the largest value of their type.\<close>

definition sat_inc :: "'a::len word \<Rightarrow> 'a word" where
  "sat_inc w = (if w \<noteq> - 1 then w + 1 else w)"

lemma sat_inc_ge: "w \<le> sat_inc w"
proof (cases "w = - 1")
  case False
  then have "w < - 1" using word_order.extremum_strict word_order.not_eq_extremum by blast
  then show ?thesis
    by (simp add: sat_inc_def word_le_nat_alt)
qed (simp add: sat_inc_def)

lemma unat_sat_inc: "w \<noteq> - 1 \<Longrightarrow> unat (sat_inc w) = Suc (unat w)"
  by (metis sat_inc_def unat_inc_less word_order.not_eq_extremum)

lemma sat_inc_mono: "v \<le> w \<Longrightarrow> sat_inc v \<le> sat_inc w"
  by (metis (no_types) inc_le_of_less order.trans sat_inc_def sat_inc_ge word_order.not_eq_extremum
      word_le_less_eq)

section \<open>Arrays as lists of constant length\<close>

lemma take_Suc_update_last [simp]:
  "n < length xs \<Longrightarrow> take (Suc n) (xs[n := x]) = take n xs @ [x]"
  by (simp add: take_Suc_conv_app_nth)

lemma list_all_update:
  "list_all P xs \<Longrightarrow> P x \<Longrightarrow> list_all P (xs[i := x])"
  using set_update_subset_insert [of xs i x] by (auto simp: list_all_iff)

lemma length_filter_update:
  "i < length xs \<Longrightarrow> length (filter P (xs[i := y])) + (if P (xs ! i) then 1 else 0) =
     length (filter P xs) + (if P y then 1 else 0)"
proof (induction xs arbitrary: i)
  case (Cons x xs)
  show ?case
  proof (cases i)
    case (Suc j)
    then show ?thesis using Cons.IH [of j] Cons.prems by (cases "P x") simp_all
  qed simp
qed simp

section \<open>Ring buffers\<close>

text \<open>
  The live elements of a ring buffer over the array \<open>xs\<close>, with head \<open>h\<close> and
  \<open>n\<close> elements, oldest first.
\<close>

definition ring_list :: "'a list \<Rightarrow> nat \<Rightarrow> nat \<Rightarrow> 'a list" where
  "ring_list xs h n = map (\<lambda>i. xs ! ((h + i) mod length xs)) [0..<n]"

lemma length_ring_list [simp]: "length (ring_list xs h n) = n"
  by (simp add: ring_list_def)

lemma ring_list_0 [simp]: "ring_list xs h 0 = []"
  by (simp add: ring_list_def)

lemma nth_ring_list: "i < n \<Longrightarrow> ring_list xs h n ! i = xs ! ((h + i) mod length xs)"
  by (simp add: ring_list_def)

text \<open>Distinct logical positions below the capacity occupy distinct slots.\<close>

lemma ring_slot_inj:
  fixes c :: nat
  assumes "(h + i) mod c = (h + j) mod c" "i < c" "j < c"
  shows "i = j"
proof (rule ccontr)
  assume "i \<noteq> j"
  then consider "i < j" | "j < i" by linarith
  then show False
  proof cases
    case 1
    then have "c dvd (h + j) - (h + i)" using assms(1) by (metis mod_eq_dvd_iff_nat add_left_mono less_imp_le)
    with 1 assms(3) show False using dvd_imp_le [of c "j - i"] by simp
  next
    case 2
    then have "c dvd (h + i) - (h + j)" using assms(1) by (metis mod_eq_dvd_iff_nat add_left_mono less_imp_le)
    with 2 assms(2) show False using dvd_imp_le [of c "i - j"] by simp
  qed
qed

lemma ring_list_push:
  assumes "n < length xs"
  shows "ring_list (xs[(h + n) mod length xs := x]) h (Suc n) = ring_list xs h n @ [x]"
proof -
  have "xs[(h + n) mod length xs := x] ! ((h + i) mod length xs) = xs ! ((h + i) mod length xs)"
    if "i < n" for i
    using ring_slot_inj [of h i "length xs" n] that assms by (intro nth_list_update_neq) auto
  then show ?thesis
    using assms by (auto simp: ring_list_def intro!: nth_list_update_eq mod_less_divisor)
qed

lemma ring_list_pop:
  "ring_list xs h (Suc n) = xs ! (h mod length xs) # ring_list xs (Suc h mod length xs) n"
  by (simp add: ring_list_def upt_conv_Cons map_Suc_upt [symmetric] mod_Suc_eq mod_add_left_eq del: upt_Suc)

lemma ring_list_overwrite:
  assumes "h < length xs"
  shows "ring_list (xs[h := x]) (Suc h mod length xs) (length xs)
    = tl (ring_list xs h (length xs)) @ [x]"
proof -
  let ?c = "length xs"
  obtain m where m: "?c = Suc m" using assms by (cases "?c") auto
  have slot: "(Suc h mod ?c + m) mod ?c = h"
  proof -
    have "(Suc h mod ?c + m) mod ?c = (h + Suc m) mod ?c" by (simp add: mod_add_left_eq)
    also have "\<dots> = h" using assms m by (metis mod_add_self2 mod_less)
    finally show ?thesis .
  qed
  have "ring_list (xs[(Suc h mod ?c + m) mod ?c := x]) (Suc h mod ?c) (Suc m)
      = ring_list xs (Suc h mod ?c) m @ [x]"
    by (rule ring_list_push) (simp add: m)
  moreover have "tl (ring_list xs h ?c) = ring_list xs (Suc h mod ?c) m"
    using assms ring_list_pop [of xs h m] m by simp
  ultimately show ?thesis by (simp add: slot m [symmetric])
qed

end
