(* ===== verification/Binary32.thy ===== *)
theory Binary32
  imports Complex_Main "HOL-Library.Log_Nat" Dali_Prelude
begin

text \<open>
  C++ \<open>float\<close> as IEEE 754 binary32 data, under round-to-nearest, ties-to-even, each
  operation rounding once (no fused multiply-add and no wider intermediates). A datum is
  the single NaN, an infinity, a signed zero or a nonzero rational that binary32 represents:
  the datum is its value, so comparisons are comparisons of rationals. \<open>True\<close> is the
  negative sign. NaN payloads and exception flags are not modelled: no source file reads them.
\<close>

datatype f32 = F_NaN | F_Inf bool | F_Zero bool | F_Num rat

section \<open>Rounding\<close>

text \<open>
  \<open>expo x\<close> is the binary exponent of a positive rational (\<open>2 ^ expo x \<le> x < 2 ^ (expo x + 1)\<close>);
  \<open>ulp_expo x\<close> the exponent of the last place binary32 keeps of it, 24 significant bits
  and never below the subnormal spacing \<open>2 ^ -149\<close>.
\<close>

definition expo :: "rat \<Rightarrow> int" where
  "expo x = (let (a, b) = quotient_of x;
                 k = int (floorlog 2 (nat a)) - int (floorlog 2 (nat b))
             in if 2 powi k \<le> x then k else k - 1)"

definition ulp_expo :: "rat \<Rightarrow> int" where
  "ulp_expo x = max (expo x - 23) (- 149)"

definition rne :: "rat \<Rightarrow> int" where
  "rne y = (let f = \<lfloor>y\<rfloor>; r = y - of_int f
            in if r < 1 / 2 then f else if 1 / 2 < r then f + 1 else if even f then f else f + 1)"

definition round_mag :: "rat \<Rightarrow> rat" where
  "round_mag x = (let u = 2 powi ulp_expo x in of_int (rne (x / u)) * u)"

definition f32_round :: "rat \<Rightarrow> f32" where
  "f32_round x =
     (if x = 0 then F_Zero False
      else let r = round_mag \<bar>x\<bar>
           in if 2 ^ 128 \<le> r then F_Inf (x < 0)
              else if r = 0 then F_Zero (x < 0)
              else F_Num (if x < 0 then - r else r))"

section \<open>Operations\<close>

fun f32_val :: "f32 \<Rightarrow> rat" where
  "f32_val (F_Num q) = q"
| "f32_val _ = 0"

fun f32_finite :: "f32 \<Rightarrow> bool" where
  "f32_finite (F_Num _) = True"
| "f32_finite (F_Zero _) = True"
| "f32_finite _ = False"

fun f32_neg :: "f32 \<Rightarrow> f32" where
  "f32_neg F_NaN = F_NaN"
| "f32_neg (F_Inf s) = F_Inf (\<not> s)"
| "f32_neg (F_Zero s) = F_Zero (\<not> s)"
| "f32_neg (F_Num q) = F_Num (- q)"

fun f32_add :: "f32 \<Rightarrow> f32 \<Rightarrow> f32" where
  "f32_add F_NaN _ = F_NaN"
| "f32_add _ F_NaN = F_NaN"
| "f32_add (F_Inf s) (F_Inf t) = (if s = t then F_Inf s else F_NaN)"
| "f32_add (F_Inf s) _ = F_Inf s"
| "f32_add _ (F_Inf t) = F_Inf t"
| "f32_add (F_Zero s) (F_Zero t) = F_Zero (s \<and> t)"
| "f32_add a b = f32_round (f32_val a + f32_val b)"

definition f32_sub :: "f32 \<Rightarrow> f32 \<Rightarrow> f32" where
  "f32_sub a b = f32_add a (f32_neg b)"

fun f32_sign :: "f32 \<Rightarrow> bool" where
  "f32_sign F_NaN = False"
| "f32_sign (F_Inf s) = s"
| "f32_sign (F_Zero s) = s"
| "f32_sign (F_Num q) = (q < 0)"

fun f32_mul :: "f32 \<Rightarrow> f32 \<Rightarrow> f32" where
  "f32_mul F_NaN _ = F_NaN"
| "f32_mul _ F_NaN = F_NaN"
| "f32_mul (F_Inf _) (F_Zero _) = F_NaN"
| "f32_mul (F_Zero _) (F_Inf _) = F_NaN"
| "f32_mul (F_Inf s) b = F_Inf (s \<noteq> f32_sign b)"
| "f32_mul a (F_Inf t) = F_Inf (f32_sign a \<noteq> t)"
| "f32_mul (F_Zero s) b = F_Zero (s \<noteq> f32_sign b)"
| "f32_mul a (F_Zero t) = F_Zero (f32_sign a \<noteq> t)"
| "f32_mul (F_Num p) (F_Num q) = f32_round (p * q)"

fun f32_div :: "f32 \<Rightarrow> f32 \<Rightarrow> f32" where
  "f32_div F_NaN _ = F_NaN"
| "f32_div _ F_NaN = F_NaN"
| "f32_div (F_Inf _) (F_Inf _) = F_NaN"
| "f32_div (F_Zero _) (F_Zero _) = F_NaN"
| "f32_div (F_Inf s) b = F_Inf (s \<noteq> f32_sign b)"
| "f32_div a (F_Inf t) = F_Zero (f32_sign a \<noteq> t)"
| "f32_div (F_Zero s) b = F_Zero (s \<noteq> f32_sign b)"
| "f32_div a (F_Zero t) = F_Inf (f32_sign a \<noteq> t)"
| "f32_div (F_Num p) (F_Num q) = f32_round (p / q)"

text \<open>
  The C++ comparisons: false on NaN, blind to the sign of zero. \<open>std::max\<close> and
  \<open>std::min\<close> are written as the standard library defines them, by one \<open><\<close>.
\<close>

definition f32_le :: "f32 \<Rightarrow> f32 \<Rightarrow> bool" where
  "f32_le a b \<longleftrightarrow> a \<noteq> F_NaN \<and> b \<noteq> F_NaN \<and>
     (a = F_Inf True \<or> b = F_Inf False \<or> f32_finite a \<and> f32_finite b \<and> f32_val a \<le> f32_val b)"

definition f32_lt :: "f32 \<Rightarrow> f32 \<Rightarrow> bool" where
  "f32_lt a b \<longleftrightarrow> f32_le a b \<and> \<not> f32_le b a"

definition f32_eq :: "f32 \<Rightarrow> f32 \<Rightarrow> bool" where
  "f32_eq a b \<longleftrightarrow> f32_le a b \<and> f32_le b a"

definition f32_max :: "f32 \<Rightarrow> f32 \<Rightarrow> f32" where
  "f32_max a b = (if f32_lt a b then b else a)"

definition f32_min :: "f32 \<Rightarrow> f32 \<Rightarrow> f32" where
  "f32_min a b = (if f32_lt b a then b else a)"

fun f32_abs :: "f32 \<Rightarrow> f32" where
  "f32_abs F_NaN = F_NaN"
| "f32_abs (F_Inf _) = F_Inf False"
| "f32_abs (F_Zero _) = F_Zero False"
| "f32_abs (F_Num q) = F_Num \<bar>q\<bar>"

text \<open>Conversion of unsigned integers, and the decimal literals of the source.\<close>

definition f32_of_word :: "'a::len word \<Rightarrow> f32" where
  "f32_of_word w = f32_round (of_nat (unat w))"

abbreviation f32_lit :: "rat \<Rightarrow> f32" where
  "f32_lit q \<equiv> f32_round q"

section \<open>Facts about rounding\<close>

text \<open>
  \<open>expo_bounds\<close> says that \<open>expo\<close> is the binary exponent, \<open>round_mag_error\<close> that rounding is to
  a nearest multiple of the last place, \<open>round_mag_mono\<close> and \<open>round_mag_idem\<close> that it is
  monotone and a projection.
\<close>

lemma floorlog_powi:
  assumes "0 < (a::int)"
  shows "(2::rat) powi (int (floorlog 2 (nat a)) - 1) \<le> of_int a"
    and "of_int a < (2::rat) powi int (floorlog 2 (nat a))"
proof -
  define n where "n = floorlog 2 (nat a)"
  have n: "2 ^ (n - 1) \<le> nat a" "nat a < 2 ^ n"
    using floorlog_bounds [of "nat a" 2] assms by (simp_all add: n_def)
  have "n \<noteq> 0" using n(2) assms by (intro notI) simp
  then obtain m where m: "n = Suc m" by (cases n) auto
  have "of_nat (2 ^ m) \<le> (of_nat (nat a) :: rat)" "of_nat (nat a) < (of_nat (2 ^ n) :: rat)"
    using n m by (simp_all only: of_nat_le_iff of_nat_less_iff diff_Suc_1)
  then show "(2::rat) powi (int (floorlog 2 (nat a)) - 1) \<le> of_int a"
    "of_int a < (2::rat) powi int (floorlog 2 (nat a))"
    using assms by (simp_all add: n_def [symmetric] m power_int_add)
qed

lemma expo_bounds:
  assumes "0 < x"
  shows "2 powi expo x \<le> x \<and> x < 2 powi (expo x + 1)"
proof -
  obtain a b where ab: "quotient_of x = (a, b)" by (cases "quotient_of x")
  have b: "0 < b" using quotient_of_denom_pos [OF ab] .
  have x: "x = of_int a / of_int b" using quotient_of_div [OF ab] .
  have a: "0 < a" using assms x b by (simp add: zero_less_divide_iff)
  define k where "k = int (floorlog 2 (nat a)) - int (floorlog 2 (nat b))"
  have "2 powi (k - 1) \<le> x"
  proof -
    have "(2::rat) powi (k - 1) * of_int b
        \<le> 2 powi (k - 1) * 2 powi int (floorlog 2 (nat b))"
      using floorlog_powi(2) [OF b] by (intro mult_left_mono) auto
    also have "\<dots> = (2::rat) powi (k - 1 + int (floorlog 2 (nat b)))"
      by (rule power_int_add [symmetric]) simp
    also have "\<dots> = (2::rat) powi (int (floorlog 2 (nat a)) - 1)"
      by (simp add: k_def)
    also have "\<dots> \<le> of_int a" by (rule floorlog_powi(1) [OF a])
    finally show ?thesis using b by (simp add: x field_simps)
  qed
  moreover have "x < 2 powi (k + 1)"
  proof -
    have "of_int a < (2::rat) powi int (floorlog 2 (nat a))" by (rule floorlog_powi(2) [OF a])
    also have "\<dots> = 2 powi (k + 1) * 2 powi (int (floorlog 2 (nat b)) - 1)"
      by (simp add: power_int_add [symmetric] k_def)
    also have "\<dots> \<le> 2 powi (k + 1) * of_int b"
      using floorlog_powi(1) [OF b] by simp
    finally show ?thesis using b by (simp add: x field_simps)
  qed
  ultimately show ?thesis
    by (auto simp: expo_def ab Let_def k_def [symmetric])
qed

lemma expo_less_iff: "0 < x \<Longrightarrow> expo x < n \<longleftrightarrow> x < 2 powi n"
proof
  assume x: "0 < x" and "expo x < n"
  then have "2 powi (expo x + 1) \<le> (2::rat) powi n" by (intro power_int_increasing) auto
  with expo_bounds [OF x] show "x < 2 powi n" by linarith
next
  assume x: "0 < x" and lt: "x < 2 powi n"
  show "expo x < n"
  proof (rule ccontr)
    assume "\<not> expo x < n"
    then have "(2::rat) powi n \<le> 2 powi expo x" by (intro power_int_increasing) auto
    with expo_bounds [OF x] lt show False by linarith
  qed
qed

lemma expo_ge_iff: "0 < x \<Longrightarrow> n \<le> expo x \<longleftrightarrow> 2 powi n \<le> x"
  using expo_less_iff [of x n] by linarith

lemma expo_mono: "0 < x \<Longrightarrow> x \<le> y \<Longrightarrow> expo x \<le> expo y"
  using expo_ge_iff [of y "expo x"] expo_bounds [of x] by simp

lemma ulp_expo_mono: "0 < x \<Longrightarrow> x \<le> y \<Longrightarrow> ulp_expo x \<le> ulp_expo y"
  using expo_mono [of x y] by (simp add: ulp_expo_def)

lemma rne_of_int [simp]: "rne (of_int n) = n"
  by (simp add: rne_def)

lemma rne_cases: "rne y = \<lfloor>y\<rfloor> \<or> rne y = \<lfloor>y\<rfloor> + 1"
  by (simp add: rne_def Let_def)

lemma rne_mono: 
  assumes "x \<le> y" shows "rne x \<le> rne y"
proof (cases "\<lfloor>x\<rfloor> = \<lfloor>y\<rfloor>")
  case True
  then show ?thesis using assms by (auto simp: rne_def Let_def)
next
  case False
  then have "\<lfloor>x\<rfloor> + 1 \<le> \<lfloor>y\<rfloor>" using floor_mono [OF assms] by linarith
  then show ?thesis using rne_cases [of x] rne_cases [of y] by linarith
qed

lemma rne_error: "\<bar>of_int (rne y) - y\<bar> \<le> 1 / 2"
proof -
  define r where "r = y - of_int \<lfloor>y\<rfloor>"
  have "0 \<le> r" "r < 1" using floor_correct [of y] by (simp_all add: r_def)
  moreover have "rne y = \<lfloor>y\<rfloor> \<and> r \<le> 1 / 2 \<or> rne y = \<lfloor>y\<rfloor> + 1 \<and> 1 / 2 \<le> r"
    unfolding rne_def Let_def r_def [symmetric] by auto
  ultimately show ?thesis by (elim disjE) (simp_all add: abs_le_iff, simp_all add: r_def)
qed

lemma round_mag_error: "\<bar>round_mag x - x\<bar> \<le> 2 powi ulp_expo x / 2"
proof -
  define u where "u = (2::rat) powi ulp_expo x"
  have u: "0 < u" by (simp add: u_def)
  have "round_mag x - x = (of_int (rne (x / u)) - x / u) * u"
    using u by (simp add: round_mag_def u_def [symmetric] Let_def field_simps)
  then have "\<bar>round_mag x - x\<bar> = \<bar>of_int (rne (x / u)) - x / u\<bar> * u"
    using u by (simp add: abs_mult)
  also have "\<dots> \<le> (1 / 2) * u"
    using rne_error [of "x / u"] u by (intro mult_right_mono) auto
  finally show ?thesis by (simp add: u_def)
qed

lemma round_mag_nonneg: "0 < x \<Longrightarrow> 0 \<le> round_mag x"
  using rne_mono [of 0 "x / 2 powi ulp_expo x"] rne_of_int [of 0] by (simp add: round_mag_def Let_def)

lemma round_mag_upper:
  assumes "0 < x"
  shows "rne (x / 2 powi ulp_expo x) \<le> 2 ^ 24"
proof -
  have "x < 2 powi (24 + ulp_expo x)"
    using assms by (subst expo_less_iff [symmetric]) (auto simp: ulp_expo_def)
  then have "x / 2 powi ulp_expo x \<le> of_int (2 ^ 24)"
    by (simp add: power_int_add field_simps)
  then show ?thesis using rne_mono rne_of_int by metis
qed

lemma round_mag_lower:
  assumes "0 < x" and "ulp_expo x = expo x - 23"
  shows "2 ^ 23 \<le> rne (x / 2 powi ulp_expo x)"
proof -
  have "2 powi (23 + ulp_expo x) \<le> x"
    using assms expo_bounds [of x] by simp
  then have "of_int (2 ^ 23) \<le> x / 2 powi ulp_expo x"
    by (simp add: power_int_add field_simps)
  then show ?thesis using rne_mono rne_of_int by metis
qed

lemma round_mag_mono:
  assumes x: "0 < x" and xy: "x \<le> y"
  shows "round_mag x \<le> round_mag y"
proof (cases "ulp_expo x = ulp_expo y")
  case True
  then show ?thesis using xy rne_mono [of "x / 2 powi ulp_expo x" "y / 2 powi ulp_expo x"]
    by (simp add: round_mag_def Let_def divide_right_mono)
next
  case False
  then have lt: "ulp_expo x < ulp_expo y" using ulp_expo_mono [OF x xy] by simp
  then have uy: "ulp_expo y = expo y - 23" by (auto simp: ulp_expo_def split: if_splits)
  have y: "0 < y" using x xy by simp
  have "round_mag x \<le> 2 ^ 24 * 2 powi ulp_expo x"
    using round_mag_upper [OF x] of_int_le_iff [of "rne (x / 2 powi ulp_expo x)" "2 ^ 24", where 'a = rat]
    by (simp add: round_mag_def Let_def mult_right_mono)
  also have "\<dots> = (2::rat) powi (ulp_expo x + 24)" by (simp add: power_int_add)
  also have "\<dots> \<le> 2 powi (ulp_expo y + 23)" using lt by (intro power_int_increasing) auto
  also have "\<dots> = (2::rat) ^ 23 * 2 powi ulp_expo y" by (simp add: power_int_add)
  also have "\<dots> \<le> round_mag y"
    using round_mag_lower [OF y uy] of_int_le_iff [of "2 ^ 23" "rne (y / 2 powi ulp_expo y)", where 'a = rat]
    by (simp add: round_mag_def Let_def mult_right_mono)
  finally show ?thesis .
qed

text \<open>A value on the grid of its own last place is not changed.\<close>

lemma round_mag_grid: "x = of_int m * 2 powi ulp_expo x \<Longrightarrow> round_mag x = x"
  by (metis nonzero_mult_div_cancel_right power_int_not_zero rne_of_int round_mag_def zero_neq_numeral)

lemma on_finer_grid:
  assumes "u \<le> t"
  shows "\<exists>k. of_int m * (2::rat) powi t = of_int k * 2 powi u"
proof -
  have "of_int m * (2::rat) powi t = of_int (m * 2 ^ nat (t - u)) * 2 powi u"
    using assms by (simp add: power_int_add [symmetric] flip: power_int_of_nat)
  then show ?thesis by blast
qed

lemma round_mag_idem:
  assumes x: "0 < x" and r: "round_mag x \<noteq> 0"
  shows "round_mag (round_mag x) = round_mag x"
proof -
  define t m where "t = ulp_expo x" and "m = rne (x / 2 powi t)"
  have rx: "round_mag x = of_int m * 2 powi t" by (simp add: round_mag_def t_def m_def Let_def)
  have m: "0 < m" "m \<le> 2 ^ 24" 
    using r round_mag_nonneg [OF x] round_mag_upper [OF x] 
      zero_less_power_int [of "2::rat" t]
    by (auto simp: rx t_def [symmetric] m_def [symmetric] zero_le_mult_iff not_le [symmetric]
        simp del: zero_less_power_int)
  have pos: "0 < round_mag x" using r round_mag_nonneg [OF x] by simp
  obtain k where "round_mag x = of_int k * 2 powi ulp_expo (round_mag x)"
  proof (cases "m = 2 ^ 24")
    case False
    then have "(of_int m :: rat) < 2 ^ 24" using m of_int_less_iff [of m "2 ^ 24", where 'a = rat] by simp
    then have "round_mag x < 2 powi (24 + t)" by (simp add: rx power_int_add)
    then have "ulp_expo (round_mag x) \<le> t" 
      using expo_less_iff [OF pos, of "24 + t"] by (auto simp: ulp_expo_def t_def)
    then show ?thesis using on_finer_grid that rx by metis
  next
    case True
    then have eq: "round_mag x = of_int (2 ^ 23) * 2 powi (t + 1)" by (simp add: rx power_int_add)
    then have "round_mag x < 2 powi (25 + t)" by (simp add: power_int_add)
    then have "ulp_expo (round_mag x) \<le> t + 1" 
      using expo_less_iff [OF pos, of "25 + t"] by (auto simp: ulp_expo_def t_def)
    then show ?thesis using on_finer_grid that eq by metis
  qed
  then show ?thesis by (rule round_mag_grid)
qed


section \<open>Well-formed data\<close>

text \<open>A \<open>F_Num\<close> holds a nonzero value that binary32 represents: one that rounds to itself.\<close>

fun f32_ok :: "f32 \<Rightarrow> bool" where
  "f32_ok (F_Num q) = (f32_round q = F_Num q)"
| "f32_ok _ = True"

lemma f32_round_neg: "f32_round (- x) = (if x = 0 then F_Zero False else f32_neg (f32_round x))"
  by (auto simp: f32_round_def Let_def)

lemma f32_round_ok [simp]: "f32_ok (f32_round x)"
proof -
  have "f32_round (round_mag \<bar>x\<bar>) = F_Num (round_mag \<bar>x\<bar>)"
    if "x \<noteq> 0" "\<not> 2 ^ 128 \<le> round_mag \<bar>x\<bar>" "round_mag \<bar>x\<bar> \<noteq> 0"
    using that round_mag_idem [of "\<bar>x\<bar>"] round_mag_nonneg [of "\<bar>x\<bar>"]
    by (simp add: f32_round_def Let_def)
  then show ?thesis
    by (auto simp: f32_round_def [of x] Let_def f32_round_neg)
qed

lemma f32_ok_neg [simp]: "f32_ok a \<Longrightarrow> f32_ok (f32_neg a)"
  by (cases a) (auto simp: f32_round_neg, simp add: f32_round_def)

lemma f32_ok_add [simp]: "f32_ok a \<Longrightarrow> f32_ok b \<Longrightarrow> f32_ok (f32_add a b)"
  by (cases a; cases b) auto

lemma f32_ok_sub [simp]: "f32_ok a \<Longrightarrow> f32_ok b \<Longrightarrow> f32_ok (f32_sub a b)"
  by (simp add: f32_sub_def)

lemma f32_ok_mul [simp]: "f32_ok a \<Longrightarrow> f32_ok b \<Longrightarrow> f32_ok (f32_mul a b)"
  by (cases a; cases b) auto

lemma f32_ok_div [simp]: "f32_ok a \<Longrightarrow> f32_ok b \<Longrightarrow> f32_ok (f32_div a b)"
  by (cases a; cases b) auto

lemma f32_ok_max [simp]: "f32_ok a \<Longrightarrow> f32_ok b \<Longrightarrow> f32_ok (f32_max a b)"
  by (simp add: f32_max_def)

lemma f32_ok_min [simp]: "f32_ok a \<Longrightarrow> f32_ok b \<Longrightarrow> f32_ok (f32_min a b)"
  by (simp add: f32_min_def)

lemma f32_ok_of_word [simp]: "f32_ok (f32_of_word w)"
  by (simp add: f32_of_word_def)

section \<open>Order\<close>

lemma f32_le_refl [simp]: "f32_le a a \<longleftrightarrow> a \<noteq> F_NaN"
  by (cases a) (auto simp: f32_le_def)

lemma f32_le_NaN [simp]: "\<not> f32_le F_NaN a" "\<not> f32_le a F_NaN"
  by (simp_all add: f32_le_def)

lemma f32_le_total: "a \<noteq> F_NaN \<Longrightarrow> b \<noteq> F_NaN \<Longrightarrow> f32_le a b \<or> f32_le b a"
  by (cases a; cases b) (auto simp: f32_le_def)

lemma f32_le_finite: "f32_finite a \<Longrightarrow> f32_finite b \<Longrightarrow> f32_le a b \<longleftrightarrow> f32_val a \<le> f32_val b"
  by (cases a; cases b) (auto simp: f32_le_def)

lemma f32_le_trans: "f32_le a b \<Longrightarrow> f32_le b c \<Longrightarrow> f32_le a c"
  by (cases b) (auto simp: f32_le_def)

lemma f32_not_le: "a \<noteq> F_NaN \<Longrightarrow> b \<noteq> F_NaN \<Longrightarrow> \<not> f32_le a b \<longleftrightarrow> f32_lt b a"
  using f32_le_total [of a b] by (auto simp: f32_lt_def)

lemma f32_lt_NaN [simp]: "\<not> f32_lt F_NaN a" "\<not> f32_lt a F_NaN"
  by (simp_all add: f32_lt_def)

lemma f32_lt_irrefl [simp]: "\<not> f32_lt a a"
  by (simp add: f32_lt_def)

lemma f32_lt_imp_le: "f32_lt a b \<Longrightarrow> f32_le a b"
  by (simp add: f32_lt_def)

lemma f32_lt_le_trans: "f32_lt a b \<Longrightarrow> f32_le b c \<Longrightarrow> f32_lt a c"
  unfolding f32_lt_def using f32_le_trans by blast

lemma f32_le_lt_trans: "f32_le a b \<Longrightarrow> f32_lt b c \<Longrightarrow> f32_lt a c"
  unfolding f32_lt_def using f32_le_trans by blast

lemma f32_max_ge:
  assumes "a \<noteq> F_NaN" "b \<noteq> F_NaN"
  shows "f32_le a (f32_max a b)" "f32_le b (f32_max a b)"
  using assms f32_not_le [of b a] by (auto simp: f32_max_def f32_lt_imp_le)

lemma f32_max_least: "f32_le a c \<Longrightarrow> f32_le b c \<Longrightarrow> f32_le (f32_max a b) c"
  by (simp add: f32_max_def)

lemma f32_min_le:
  assumes "a \<noteq> F_NaN" "b \<noteq> F_NaN"
  shows "f32_le (f32_min a b) a" "f32_le (f32_min a b) b"
  using assms f32_not_le [of a b] by (auto simp: f32_min_def f32_lt_imp_le)

lemma f32_min_greatest: "f32_le c a \<Longrightarrow> f32_le c b \<Longrightarrow> f32_le c (f32_min a b)"
  by (simp add: f32_min_def)

section \<open>Rounding is monotone and exact on data\<close>

lemma f32_round_not_NaN [simp]: "f32_round x \<noteq> F_NaN"
  by (simp add: f32_round_def Let_def)

lemma f32_round_mono_pos:
  assumes "0 < x" "x \<le> y"
  shows "f32_le (f32_round x) (f32_round y)"
  using assms round_mag_mono [OF assms] round_mag_nonneg [of x] round_mag_nonneg [of y]
  by (auto simp: f32_round_def f32_le_def Let_def)

lemma f32_le_neg: "f32_le (f32_neg a) (f32_neg b) \<longleftrightarrow> f32_le b a"
  by (cases a; cases b) (auto simp: f32_le_def)

lemma f32_round_sign:
  "0 \<le> x \<Longrightarrow> f32_le (F_Zero s) (f32_round x)" "x \<le> 0 \<Longrightarrow> f32_le (f32_round x) (F_Zero s)"
  using round_mag_nonneg [of "\<bar>x\<bar>"] by (auto simp: f32_round_def f32_le_def Let_def)

lemma f32_round_mono:
  assumes "x \<le> y"
  shows "f32_le (f32_round x) (f32_round y)"
proof -
  consider "0 < x" | "x \<le> 0" "0 \<le> y" | "y < 0" by linarith
  then show ?thesis
  proof cases
    case 1
    then show ?thesis using assms by (rule f32_round_mono_pos)
  next
    case 2
    then show ?thesis using f32_round_sign f32_le_trans by blast
  next
    case 3
    then have "f32_le (f32_round (- y)) (f32_round (- x))"
      using assms by (intro f32_round_mono_pos) auto
    then show ?thesis using 3 assms by (simp add: f32_round_neg f32_le_neg)
  qed
qed

lemma f32_round_val:
  assumes "f32_ok a" "f32_finite a"
  shows "f32_le a (f32_round (f32_val a))" "f32_le (f32_round (f32_val a)) a"
  using assms by (cases a; simp add: f32_round_def f32_le_def; fail)+

text \<open>
  What the components need of the arithmetic: a sum, a difference or a quotient stays on
  the side of its operand that the exact result is on.
\<close>

lemma f32_add_finite:
  assumes "f32_finite a" "f32_finite b"
  shows "f32_le x (f32_add a b) \<longleftrightarrow> f32_le x (f32_round (f32_val a + f32_val b))"
    and "f32_le (f32_add a b) x \<longleftrightarrow> f32_le (f32_round (f32_val a + f32_val b)) x"
  using assms by (cases a; cases b; simp add: f32_round_def f32_le_def)+

lemma f32_finite_neg [simp]: "f32_finite (f32_neg a) = f32_finite a" "f32_val (f32_neg a) = - f32_val a"
  by (cases a; simp)+

lemma f32_add_ge:
  assumes "f32_ok a" "f32_finite a" "f32_le (F_Zero s) d"
  shows "f32_le a (f32_add a d)"
proof (cases "f32_finite d")
  case True
  have "f32_le (f32_round (f32_val a)) (f32_round (f32_val a + f32_val d))"
    using assms True by (intro f32_round_mono) (simp add: f32_le_finite)
  with f32_round_val(1) [OF assms(1,2)] show ?thesis
    unfolding f32_add_finite(1) [OF assms(2) True] by (rule f32_le_trans)
next
  case False
  then have "d = F_Inf False" using assms by (cases d) (auto simp: f32_le_def)
  then show ?thesis using assms by (cases a) (auto simp: f32_le_def)
qed

lemma f32_sub_le:
  assumes "f32_ok a" "f32_finite a" "f32_le (F_Zero s) d"
  shows "f32_le (f32_sub a d) a"
proof (cases "f32_finite d")
  case True
  have "f32_le (f32_round (f32_val a - f32_val d)) (f32_round (f32_val a))"
    using assms True by (intro f32_round_mono) (simp add: f32_le_finite)
  then show ?thesis
    unfolding f32_sub_def using True f32_round_val(2) [OF assms(1,2)] 
    by (simp add: f32_add_finite(2) assms(2)) (erule f32_le_trans)
next
  case False
  then have "d = F_Inf False" using assms by (cases d) (auto simp: f32_le_def)
  then show ?thesis using assms by (cases a) (auto simp: f32_le_def f32_sub_def)
qed

section \<open>Unsigned integers as floats\<close>

lemma f32_finite_between:
  assumes "f32_le a b" "f32_le b c" "f32_finite a" "f32_finite c"
  shows "f32_finite b"
  using assms by (cases b) (auto simp: f32_le_def)

lemma f32_round_finite:
  assumes "\<bar>x\<bar> < 2 ^ 100"
  shows "f32_finite (f32_round x)"
proof (cases "x = 0")
  case False
  then have pos: "0 < \<bar>x\<bar>" by simp
  have "ulp_expo \<bar>x\<bar> \<le> 77"
    using expo_less_iff [OF pos, of 100] assms by (simp add: ulp_expo_def)
  then have u: "(2::rat) powi ulp_expo \<bar>x\<bar> \<le> 2 powi 77" by (intro power_int_increasing) auto
  have "round_mag \<bar>x\<bar> \<le> 2 ^ 24 * 2 powi ulp_expo \<bar>x\<bar>"
    using round_mag_upper [OF pos] of_int_le_iff [of "rne (\<bar>x\<bar> / 2 powi ulp_expo \<bar>x\<bar>)" "2 ^ 24", where 'a = rat]
    by (simp add: round_mag_def Let_def mult_right_mono)
  also have "\<dots> < 2 ^ 128" using u by (simp add: power_int_def)
  finally show ?thesis by (simp add: f32_round_def Let_def)
qed (simp add: f32_round_def)

lemma f32_of_word_bounds:
  fixes w :: "'a::len word"
  assumes "LENGTH('a) \<le> 64"
  shows "f32_finite (f32_of_word w)" "f32_le (F_Zero False) (f32_of_word w)"
proof -
  have "unat w < 2 ^ LENGTH('a)" by (rule unsigned_less)
  also have "(2::nat) ^ LENGTH('a) \<le> 2 ^ 64" using assms by (intro power_increasing) auto
  finally have "unat w < 2 ^ 64" .
  moreover have "\<bar>of_nat n :: rat\<bar> < 2 ^ 100" if "n < 2 ^ 64" for n :: nat
  proof -
    have "(of_nat n :: rat) < of_nat (2 ^ 64)" using that by (simp only: of_nat_less_iff)
    then show ?thesis by simp
  qed
  ultimately have "\<bar>of_nat (unat w) :: rat\<bar> < 2 ^ 100" by blast
  then show "f32_finite (f32_of_word w)"
    unfolding f32_of_word_def by (rule f32_round_finite)
  show "f32_le (F_Zero False) (f32_of_word w)"
    unfolding f32_of_word_def by (rule f32_round_sign(1) [OF of_nat_0_le_iff])
qed

lemma f32_of_word_mono: "v \<le> w \<Longrightarrow> f32_le (f32_of_word v) (f32_of_word w)"
  unfolding f32_of_word_def
  by (rule f32_round_mono) (simp only: of_nat_le_iff word_le_nat_alt)

lemma f32_of_word_pos:
  fixes w :: "'a::len word"
  assumes "w \<noteq> 0"
  shows "f32_le (f32_lit 1) (f32_of_word w)"
proof -
  have "1 \<le> unat w" using assms by (simp add: unat_gt_0 Suc_leI)
  then have "(of_nat 1 :: rat) \<le> of_nat (unat w)" by (simp only: of_nat_le_iff)
  then show ?thesis unfolding f32_of_word_def of_nat_1 by (rule f32_round_mono)
qed

lemma f32_round_1: "f32_round 1 = F_Num 1"
  by code_simp

lemma f32_ratio_unit:
  fixes v w :: "'a::len word"
  assumes "v \<le> w" "w \<noteq> 0" and len: "LENGTH('a) \<le> 64"
  shows "f32_le (F_Zero False) (f32_div (f32_of_word v) (f32_of_word w)) \<and>
    f32_le (f32_div (f32_of_word v) (f32_of_word w)) (f32_lit 1)"
proof -
  obtain q where q: "f32_of_word w = F_Num q" "1 \<le> q"
    using f32_of_word_pos [OF assms(2)] f32_of_word_bounds [OF len, of w]
    by (cases "f32_of_word w") (auto simp: f32_round_1 f32_le_def)
  have v: "f32_finite (f32_of_word v)" "f32_le (F_Zero False) (f32_of_word v)"
    "f32_le (f32_of_word v) (F_Num q)"
    using f32_of_word_bounds [OF len, of v] f32_of_word_mono [OF assms(1)] q by simp_all
  show ?thesis
  proof (cases "f32_of_word v")
    case (F_Num p)
    then have "0 \<le> p / q" "p / q \<le> 1" using v q by (auto simp: f32_le_def)
    then show ?thesis using F_Num q f32_round_sign(1) f32_round_mono by simp
  qed (use v q in \<open>auto simp: f32_round_1 f32_le_def\<close>)
qed
end
