(* ===== verification/Core_Types.thy ===== *)
theory Core_Types
  imports Binary32
begin

text \<open>
  The domain types of \<open>components/dali_core\<close>: validated addresses, validity-bearing
  readings, the enumerations of states, severities and event types, and the per-light records.
  A struct is a record whose field names carry a short prefix; the value a C++ value
  initialisation \<open>T{}\<close> gives is the constant \<open>T_init\<close>.
\<close>

section \<open>Addresses\<close>

text \<open>
  The constructors of both address classes are private: client code obtains an address
  from \<open>fromRaw\<close> only. \<open>short_ok\<close> and \<open>group_ok\<close> are what that guarantees.
\<close>

datatype ShortAddress = ShortAddress (sa_value: u8)
datatype GroupAddress = GroupAddress (ga_value: u8)

definition ShortAddress_fromRaw :: "u8 \<Rightarrow> ShortAddress option" where
  "ShortAddress_fromRaw v = (if v \<le> 63 then Some (ShortAddress v) else None)"

definition GroupAddress_fromRaw :: "u8 \<Rightarrow> GroupAddress option" where
  "GroupAddress_fromRaw v = (if v \<le> 15 then Some (GroupAddress v) else None)"

definition short_ok :: "ShortAddress \<Rightarrow> bool" where
  "short_ok a \<longleftrightarrow> sa_value a \<le> 63"

definition group_ok :: "GroupAddress \<Rightarrow> bool" where
  "group_ok g \<longleftrightarrow> ga_value g \<le> 15"

lemma ShortAddress_fromRaw_Some: "ShortAddress_fromRaw v = Some a \<longleftrightarrow> v \<le> 63 \<and> a = ShortAddress v"
  by (auto simp: ShortAddress_fromRaw_def)

lemma GroupAddress_fromRaw_Some: "GroupAddress_fromRaw v = Some g \<longleftrightarrow> v \<le> 15 \<and> g = GroupAddress v"
  by (auto simp: GroupAddress_fromRaw_def)

lemma short_ok_unat: "short_ok a \<longleftrightarrow> unat (sa_value a) < 64"
  by (simp add: short_ok_def word_le_nat_alt less_Suc_eq_le [symmetric])

section \<open>Enumerations\<close>

datatype ReadingQuality =
    RqUnknown | RqValid | RqEstimated | RqTemporarilyUnavailable | RqUnsupported | RqInvalid

datatype LightState =
    LsUnknown | LsLearning | LsOffCommanded | LsOnHealthy | LsDimmedHealthy | LsWarning
  | LsServiceRequired | LsFailed | LsMissing | LsCommunicationFault | LsRecovering

datatype EventSeverity = SevInfo | SevWarning | SevCritical

datatype LightEventType =
    LeDeviceDiscovered | LeDeviceReplaced | LeDeviceMissing | LeDeviceRecovered
  | LeLampFailure | LeControlGearFailure | LePossibleLampFailure
  | LeDaliBusFailure | LeDaliBusRecovered | LeCommunicationDegraded | LeCommunicationRecovered
  | LeThermalWarning | LeThermalCritical | LeElectricalDrift | LeIntermittentFault
  | LeHealthScoreChanged | LeServiceRecommended | LeBaselineEstablished | LeBaselineReset

text \<open>\<open>static_cast<std::uint8_t>\<close> of an enumerator: its position in the declaration.\<close>

fun severity_code :: "EventSeverity \<Rightarrow> u8" where
  "severity_code SevInfo = 0"
| "severity_code SevWarning = 1"
| "severity_code SevCritical = 2"

fun event_type_code :: "LightEventType \<Rightarrow> u8" where
  "event_type_code LeDeviceDiscovered = 0"
| "event_type_code LeDeviceReplaced = 1"
| "event_type_code LeDeviceMissing = 2"
| "event_type_code LeDeviceRecovered = 3"
| "event_type_code LeLampFailure = 4"
| "event_type_code LeControlGearFailure = 5"
| "event_type_code LePossibleLampFailure = 6"
| "event_type_code LeDaliBusFailure = 7"
| "event_type_code LeDaliBusRecovered = 8"
| "event_type_code LeCommunicationDegraded = 9"
| "event_type_code LeCommunicationRecovered = 10"
| "event_type_code LeThermalWarning = 11"
| "event_type_code LeThermalCritical = 12"
| "event_type_code LeElectricalDrift = 13"
| "event_type_code LeIntermittentFault = 14"
| "event_type_code LeHealthScoreChanged = 15"
| "event_type_code LeServiceRecommended = 16"
| "event_type_code LeBaselineEstablished = 17"
| "event_type_code LeBaselineReset = 18"

text \<open>Severities are compared through their codes, as the event manager does.\<close>

instantiation EventSeverity :: linorder
begin

definition less_eq_EventSeverity :: "EventSeverity \<Rightarrow> EventSeverity \<Rightarrow> bool" where
  "less_eq_EventSeverity a b \<longleftrightarrow> severity_code a \<le> severity_code b"

definition less_EventSeverity :: "EventSeverity \<Rightarrow> EventSeverity \<Rightarrow> bool" where
  "less_EventSeverity a b \<longleftrightarrow> severity_code a < severity_code b"

instance
proof
  fix x y :: EventSeverity
  show "x \<le> y \<Longrightarrow> y \<le> x \<Longrightarrow> x = y"
    by (cases x; cases y) (simp_all add: less_eq_EventSeverity_def word_le_nat_alt)
qed (auto simp: less_eq_EventSeverity_def less_EventSeverity_def)

end

section \<open>Readings\<close>

record 'a Reading =
  rd_value :: 'a
  rd_quality :: ReadingQuality
  rd_uptimeMs :: u64
  rd_unixTimeSeconds :: u64
  rd_unixTimeValid :: bool

text \<open>\<open>d\<close> is the value \<open>T{}\<close> of the measured type.\<close>

definition Reading_init :: "'a \<Rightarrow> 'a Reading" where
  "Reading_init d = \<lparr>rd_value = d, rd_quality = RqUnknown, rd_uptimeMs = 0,
     rd_unixTimeSeconds = 0, rd_unixTimeValid = False\<rparr>"

definition Reading_valid :: "'a \<Rightarrow> u64 \<Rightarrow> u64 \<Rightarrow> bool \<Rightarrow> 'a Reading" where
  "Reading_valid v up unix hasUnix = \<lparr>rd_value = v, rd_quality = RqValid, rd_uptimeMs = up,
     rd_unixTimeSeconds = unix, rd_unixTimeValid = hasUnix\<rparr>"

definition Reading_estimated :: "'a \<Rightarrow> u64 \<Rightarrow> 'a Reading" where
  "Reading_estimated v up = \<lparr>rd_value = v, rd_quality = RqEstimated, rd_uptimeMs = up,
     rd_unixTimeSeconds = 0, rd_unixTimeValid = False\<rparr>"

definition Reading_temporarilyUnavailable :: "'a \<Rightarrow> 'a Reading" where
  "Reading_temporarilyUnavailable d = \<lparr>rd_value = d, rd_quality = RqTemporarilyUnavailable,
     rd_uptimeMs = 0, rd_unixTimeSeconds = 0, rd_unixTimeValid = False\<rparr>"

definition Reading_unsupported :: "'a \<Rightarrow> 'a Reading" where
  "Reading_unsupported d = \<lparr>rd_value = d, rd_quality = RqUnsupported,
     rd_uptimeMs = 0, rd_unixTimeSeconds = 0, rd_unixTimeValid = False\<rparr>"

definition Reading_invalid :: "'a \<Rightarrow> 'a Reading" where
  "Reading_invalid d = \<lparr>rd_value = d, rd_quality = RqInvalid,
     rd_uptimeMs = 0, rd_unixTimeSeconds = 0, rd_unixTimeValid = False\<rparr>"

definition hasValue :: "'a Reading \<Rightarrow> bool" where
  "hasValue r \<longleftrightarrow> rd_quality r = RqValid \<or> rd_quality r = RqEstimated"

lemma hasValue_constructors [simp]:
  "hasValue (Reading_valid v up unix h)"
  "hasValue (Reading_estimated v up)"
  "\<not> hasValue (Reading_init d)"
  "\<not> hasValue (Reading_temporarilyUnavailable d)"
  "\<not> hasValue (Reading_unsupported d)"
  "\<not> hasValue (Reading_invalid d)"
  by (simp_all add: hasValue_def Reading_valid_def Reading_estimated_def Reading_init_def
      Reading_temporarilyUnavailable_def Reading_unsupported_def Reading_invalid_def)

lemma rd_value_Reading_valid [simp]: "rd_value (Reading_valid v up unix h) = v"
  by (simp add: Reading_valid_def)

section \<open>Per-light records\<close>

record DaliCapabilities =
  dc_supportsBasicStatus :: bool
  dc_supportsEnergyData :: bool
  dc_supportsInputPower :: bool
  dc_supportsOutputPower :: bool
  dc_supportsInputVoltage :: bool
  dc_supportsInputCurrent :: bool
  dc_supportsOutputCurrent :: bool
  dc_supportsTemperature :: bool
  dc_supportsOperatingHours :: bool
  dc_supportsStartCounter :: bool
  dc_supportsFailureCounters :: bool
  dc_supportsDiagnosticData :: bool
  dc_supportsIdentificationData :: bool

definition DaliCapabilities_init :: DaliCapabilities where
  "DaliCapabilities_init =
    \<lparr>dc_supportsBasicStatus = False, dc_supportsEnergyData = False, dc_supportsInputPower = False,
     dc_supportsOutputPower = False, dc_supportsInputVoltage = False, dc_supportsInputCurrent = False,
     dc_supportsOutputCurrent = False, dc_supportsTemperature = False,
     dc_supportsOperatingHours = False, dc_supportsStartCounter = False,
     dc_supportsFailureCounters = False, dc_supportsDiagnosticData = False,
     dc_supportsIdentificationData = False\<rparr>"

record LightRealtimeData =
  rt_shortAddress :: u8
  rt_present :: bool
  rt_commandedOn :: bool
  rt_commandedLevel :: u8
  rt_actualLevel :: "u8 Reading"
  rt_lampFailure :: "bool Reading"
  rt_gearFailure :: "bool Reading"
  rt_limitError :: "bool Reading"
  rt_fadeRunning :: "bool Reading"
  rt_resetState :: "bool Reading"
  rt_inputVoltage :: "f32 Reading"
  rt_inputCurrent :: "f32 Reading"
  rt_inputPower :: "f32 Reading"
  rt_outputCurrent :: "f32 Reading"
  rt_outputPower :: "f32 Reading"
  rt_temperature :: "f32 Reading"
  rt_timestampMs :: u64

definition LightRealtimeData_init :: LightRealtimeData where
  "LightRealtimeData_init =
    \<lparr>rt_shortAddress = 0, rt_present = False, rt_commandedOn = False, rt_commandedLevel = 0,
     rt_actualLevel = Reading_init 0, rt_lampFailure = Reading_init False,
     rt_gearFailure = Reading_init False, rt_limitError = Reading_init False,
     rt_fadeRunning = Reading_init False, rt_resetState = Reading_init False,
     rt_inputVoltage = Reading_init (F_Zero False), rt_inputCurrent = Reading_init (F_Zero False),
     rt_inputPower = Reading_init (F_Zero False), rt_outputCurrent = Reading_init (F_Zero False),
     rt_outputPower = Reading_init (F_Zero False), rt_temperature = Reading_init (F_Zero False),
     rt_timestampMs = 0\<rparr>"

record LightLifetimeData =
  lt_operatingHours :: "u32 Reading"
  lt_lightSourceHours :: "u32 Reading"
  lt_startCount :: "u32 Reading"
  lt_powerCycleCount :: "u32 Reading"
  lt_lampFailureCount :: "u32 Reading"
  lt_gearFailureCount :: "u32 Reading"

definition LightLifetimeData_init :: LightLifetimeData where
  "LightLifetimeData_init =
    \<lparr>lt_operatingHours = Reading_init 0, lt_lightSourceHours = Reading_init 0,
     lt_startCount = Reading_init 0, lt_powerCycleCount = Reading_init 0,
     lt_lampFailureCount = Reading_init 0, lt_gearFailureCount = Reading_init 0\<rparr>"

record LightHealthData =
  lh_healthScore :: f32
  lh_state :: LightState
  lh_currentDeviationPercent :: "f32 Reading"
  lh_powerDeviationPercent :: "f32 Reading"
  lh_temperatureDeviation :: "f32 Reading"
  lh_communicationSuccessRate :: f32
  lh_deteriorationDetected :: bool
  lh_intermittentFaultDetected :: bool
  lh_lastHealthyTimestamp :: u64
  lh_lastFaultTimestamp :: u64

definition LightHealthData_init :: LightHealthData where
  "LightHealthData_init =
    \<lparr>lh_healthScore = f32_lit 100, lh_state = LsUnknown,
     lh_currentDeviationPercent = Reading_init (F_Zero False),
     lh_powerDeviationPercent = Reading_init (F_Zero False),
     lh_temperatureDeviation = Reading_init (F_Zero False),
     lh_communicationSuccessRate = F_Zero False, lh_deteriorationDetected = False,
     lh_intermittentFaultDetected = False, lh_lastHealthyTimestamp = 0,
     lh_lastFaultTimestamp = 0\<rparr>"

record LightFeatureVector =
  fv_commandedLevel :: "f32 Reading"
  fv_inputVoltage :: "f32 Reading"
  fv_inputCurrent :: "f32 Reading"
  fv_inputPower :: "f32 Reading"
  fv_outputCurrent :: "f32 Reading"
  fv_outputPower :: "f32 Reading"
  fv_temperature :: "f32 Reading"
  fv_currentDeviation :: "f32 Reading"
  fv_powerDeviation :: "f32 Reading"
  fv_temperatureDeviation :: "f32 Reading"
  fv_communicationErrorRate :: f32
  fv_startFrequency :: f32
  fv_recentFailureFrequency :: f32
  fv_sevenDayTrend :: "f32 Reading"
  fv_thirtyDayTrend :: "f32 Reading"

definition LightFeatureVector_init :: LightFeatureVector where
  "LightFeatureVector_init =
    (let none = Reading_init (F_Zero False) in
    \<lparr>fv_commandedLevel = none, fv_inputVoltage = none, fv_inputCurrent = none,
     fv_inputPower = none, fv_outputCurrent = none, fv_outputPower = none, fv_temperature = none,
     fv_currentDeviation = none, fv_powerDeviation = none, fv_temperatureDeviation = none,
     fv_communicationErrorRate = F_Zero False, fv_startFrequency = F_Zero False,
     fv_recentFailureFrequency = F_Zero False, fv_sevenDayTrend = none,
     fv_thirtyDayTrend = none\<rparr>)"

text \<open>The \<open>char[160]\<close> of an event's description is a list of 160 bytes.\<close>

record LightEvent =
  ev_eventId :: u32
  ev_shortAddress :: u8
  ev_type :: LightEventType
  ev_severity :: EventSeverity
  ev_timestamp :: u64
  ev_healthScore :: f32
  ev_activeFaultFlags :: u32
  ev_snapshot :: LightRealtimeData
  ev_description :: "u8 list"

definition LightEvent_init :: LightEvent where
  "LightEvent_init =
    \<lparr>ev_eventId = 0, ev_shortAddress = 0, ev_type = LeHealthScoreChanged,
     ev_severity = SevInfo, ev_timestamp = 0, ev_healthScore = f32_lit 100,
     ev_activeFaultFlags = 0, ev_snapshot = LightRealtimeData_init,
     ev_description = replicate 160 0\<rparr>"

end
