(* ===== verification/Dali_Phy.thy ===== *)
theory Dali_Phy
  imports Core_Types
begin

text \<open>
  The physical-layer contract of \<open>components/dali_phy\<close>. A device that implements
  \<open>IDaliPhy\<close> is a state \<open>'p\<close> and a record of its virtual methods; a method that is not
  \<open>const\<close> returns the new state, \<open>receive\<close> also the value of its reference parameter
  (\<open>None\<close> when the method leaves the caller's byte alone).
\<close>

datatype PhyResult =
    PhyOk | PhyTimeout | PhyBusy | PhyCollision | PhyBusPowerLost | PhyTransceiverFault
  | PhyInvalidArgument | PhyNotInitialised | PhyInternalError

record PhyHealth =
  ph_initialised :: bool
  ph_busPowered :: bool
  ph_transceiverHealthy :: bool
  ph_lineStuckHigh :: bool
  ph_lineStuckLow :: bool

record 'p IDaliPhy =
  phy_init :: "'p \<Rightarrow> PhyResult \<times> 'p"
  phy_transmit :: "u16 \<Rightarrow> 'p \<Rightarrow> PhyResult \<times> 'p"
  phy_receive :: "u32 \<Rightarrow> 'p \<Rightarrow> PhyResult \<times> u8 option \<times> 'p"
  phy_isBusBusy :: "'p \<Rightarrow> bool"
  phy_hasCollision :: "'p \<Rightarrow> bool"
  phy_health :: "'p \<Rightarrow> PhyHealth"
  phy_reset :: "'p \<Rightarrow> PhyResult \<times> 'p"

text \<open>
  The contract the transaction layer relies on: the operations keep the device's own
  invariant, and a successful \<open>receive\<close> delivers a byte.
\<close>

locale dali_phy =
  fixes dev :: "'p IDaliPhy"
    and inv :: "'p \<Rightarrow> bool"
  assumes transmit_keeps: "inv p \<Longrightarrow> inv (snd (phy_transmit dev f p))"
    and receive_keeps: "inv p \<Longrightarrow> inv (snd (snd (phy_receive dev t p)))"
    and receive_delivers: "inv p \<Longrightarrow> fst (phy_receive dev t p) = PhyOk \<Longrightarrow>
      fst (snd (phy_receive dev t p)) \<noteq> None"

end
