(* ===== verification/Dali_Frame.thy ===== *)
theory Dali_Frame
  imports Dali_Phy
begin

text \<open>
  The command catalogue \<open>dali_commands.h\<close> and the forward frames \<open>dali_frame.h\<close> of
  \<open>components/dali_protocol\<close>: every builder of a 16-bit frame, and the address byte they
  share, read back by the addressing scheme of the bus.
\<close>

section \<open>Commands\<close>

text \<open>
  \<open>DaliCommand\<close> is an enumeration with a fixed underlying type: a value is any byte, the
  enumerators are named bytes. The catalogue lists all of them; the ones the other
  components use have a constant of their own.
\<close>

datatype DaliCommand = DaliCommand (command_code: u8)

definition DaliCommand_enumerators :: "(string \<times> u8) list" where
  "DaliCommand_enumerators =
   [
    (''Off'', 0x00), (''Up'', 0x01), (''Down'', 0x02), (''StepUp'', 0x03), (''StepDown'', 0x04),
    (''RecallMaxLevel'', 0x05), (''RecallMinLevel'', 0x06), (''StepDownAndOff'', 0x07),
    (''OnAndStepUp'', 0x08), (''EnableDapcSequence'', 0x09), (''GoToLastActiveLevel'', 0x0A),
    (''GoToScene0'', 0x10), (''GoToScene1'', 0x11), (''GoToScene2'', 0x12),
    (''GoToScene3'', 0x13), (''GoToScene4'', 0x14), (''GoToScene5'', 0x15),
    (''GoToScene6'', 0x16), (''GoToScene7'', 0x17), (''GoToScene8'', 0x18),
    (''GoToScene9'', 0x19), (''GoToScene10'', 0x1A), (''GoToScene11'', 0x1B),
    (''GoToScene12'', 0x1C), (''GoToScene13'', 0x1D), (''GoToScene14'', 0x1E),
    (''GoToScene15'', 0x1F), (''Reset'', 0x20), (''StoreActualLevelInDtr'', 0x21),
    (''SavePersistentVariables'', 0x24), (''SetOperatingModeDtr'', 0x25),
    (''ResetMemoryBankDtr'', 0x26), (''IdentifyDevice'', 0x27), (''StoreDtrAsMaxLevel'', 0x28),
    (''StoreDtrAsMinLevel'', 0x29), (''StoreDtrAsSystemFailureLevel'', 0x2A),
    (''StoreDtrAsPowerOnLevel'', 0x2B), (''StoreDtrAsFadeTime'', 0x2C),
    (''StoreDtrAsFadeRate'', 0x2D), (''StoreDtrAsExtendedFadeTime'', 0x2E),
    (''StoreDtrAsScene0'', 0x40), (''StoreDtrAsScene1'', 0x41), (''StoreDtrAsScene2'', 0x42),
    (''StoreDtrAsScene3'', 0x43), (''StoreDtrAsScene4'', 0x44), (''StoreDtrAsScene5'', 0x45),
    (''StoreDtrAsScene6'', 0x46), (''StoreDtrAsScene7'', 0x47), (''StoreDtrAsScene8'', 0x48),
    (''StoreDtrAsScene9'', 0x49), (''StoreDtrAsScene10'', 0x4A), (''StoreDtrAsScene11'', 0x4B),
    (''StoreDtrAsScene12'', 0x4C), (''StoreDtrAsScene13'', 0x4D), (''StoreDtrAsScene14'', 0x4E),
    (''StoreDtrAsScene15'', 0x4F), (''RemoveFromScene0'', 0x50), (''RemoveFromScene1'', 0x51),
    (''RemoveFromScene2'', 0x52), (''RemoveFromScene3'', 0x53), (''RemoveFromScene4'', 0x54),
    (''RemoveFromScene5'', 0x55), (''RemoveFromScene6'', 0x56), (''RemoveFromScene7'', 0x57),
    (''RemoveFromScene8'', 0x58), (''RemoveFromScene9'', 0x59), (''RemoveFromScene10'', 0x5A),
    (''RemoveFromScene11'', 0x5B), (''RemoveFromScene12'', 0x5C), (''RemoveFromScene13'', 0x5D),
    (''RemoveFromScene14'', 0x5E), (''RemoveFromScene15'', 0x5F), (''AddToGroup0'', 0x60),
    (''AddToGroup1'', 0x61), (''AddToGroup2'', 0x62), (''AddToGroup3'', 0x63),
    (''AddToGroup4'', 0x64), (''AddToGroup5'', 0x65), (''AddToGroup6'', 0x66),
    (''AddToGroup7'', 0x67), (''AddToGroup8'', 0x68), (''AddToGroup9'', 0x69),
    (''AddToGroup10'', 0x6A), (''AddToGroup11'', 0x6B), (''AddToGroup12'', 0x6C),
    (''AddToGroup13'', 0x6D), (''AddToGroup14'', 0x6E), (''AddToGroup15'', 0x6F),
    (''RemoveFromGroup0'', 0x70), (''RemoveFromGroup1'', 0x71), (''RemoveFromGroup2'', 0x72),
    (''RemoveFromGroup3'', 0x73), (''RemoveFromGroup4'', 0x74), (''RemoveFromGroup5'', 0x75),
    (''RemoveFromGroup6'', 0x76), (''RemoveFromGroup7'', 0x77), (''RemoveFromGroup8'', 0x78),
    (''RemoveFromGroup9'', 0x79), (''RemoveFromGroup10'', 0x7A), (''RemoveFromGroup11'', 0x7B),
    (''RemoveFromGroup12'', 0x7C), (''RemoveFromGroup13'', 0x7D), (''RemoveFromGroup14'', 0x7E),
    (''RemoveFromGroup15'', 0x7F), (''StoreDtrAsShortAddress'', 0x80),
    (''EnableWriteMemory'', 0x81), (''QueryStatus'', 0x90), (''QueryControlGearPresent'', 0x91),
    (''QueryLampFailure'', 0x92), (''QueryLampPowerOn'', 0x93), (''QueryLimitError'', 0x94),
    (''QueryResetState'', 0x95), (''QueryMissingShortAddress'', 0x96),
    (''QueryVersionNumber'', 0x97), (''QueryContentDtr0'', 0x98), (''QueryPowerFailure'', 0x9B),
    (''QueryContentDtr1'', 0x9C), (''QueryContentDtr2'', 0x9D), (''QueryOperatingMode'', 0x9E),
    (''QueryLightSourceType'', 0x9F), (''QueryDeviceType'', 0x99),
    (''QueryPhysicalMinimum'', 0x9A), (''QueryActualLevel'', 0xA0), (''QueryMaxLevel'', 0xA1),
    (''QueryMinLevel'', 0xA2), (''QueryPowerOnLevel'', 0xA3),
    (''QuerySystemFailureLevel'', 0xA4), (''QueryFadeTimeRate'', 0xA5),
    (''QueryManufacturerSpecificMode'', 0xA6), (''QueryNextDeviceType'', 0xA7),
    (''QueryExtendedFadeTime'', 0xA8), (''QueryControlGearFailure'', 0xAA),
    (''QuerySceneLevel0'', 0xB0), (''QuerySceneLevel1'', 0xB1), (''QuerySceneLevel2'', 0xB2),
    (''QuerySceneLevel3'', 0xB3), (''QuerySceneLevel4'', 0xB4), (''QuerySceneLevel5'', 0xB5),
    (''QuerySceneLevel6'', 0xB6), (''QuerySceneLevel7'', 0xB7), (''QuerySceneLevel8'', 0xB8),
    (''QuerySceneLevel9'', 0xB9), (''QuerySceneLevel10'', 0xBA), (''QuerySceneLevel11'', 0xBB),
    (''QuerySceneLevel12'', 0xBC), (''QuerySceneLevel13'', 0xBD), (''QuerySceneLevel14'', 0xBE),
    (''QuerySceneLevel15'', 0xBF), (''QueryGroups0To7'', 0xC0), (''QueryGroups8To15'', 0xC1),
    (''QueryRandomAddressH'', 0xC2), (''QueryRandomAddressM'', 0xC3),
    (''QueryRandomAddressL'', 0xC4), (''ReadMemoryLocation'', 0xC5)
   ]"

definition DaliCommand_named :: "string \<Rightarrow> DaliCommand option" where
  "DaliCommand_named n = map_option DaliCommand (map_of DaliCommand_enumerators n)"

definition QueryStatus :: DaliCommand where
  "QueryStatus = DaliCommand 0x90"

definition QueryControlGearPresent :: DaliCommand where
  "QueryControlGearPresent = DaliCommand 0x91"

definition QueryDeviceType :: DaliCommand where
  "QueryDeviceType = DaliCommand 0x99"

definition QueryVersionNumber :: DaliCommand where
  "QueryVersionNumber = DaliCommand 0x97"

definition QueryPhysicalMinimum :: DaliCommand where
  "QueryPhysicalMinimum = DaliCommand 0x9A"

datatype DaliSpecialCommand =
    Terminate | SetDtr0 | Initialise | Randomise | Compare | Withdraw | SetSearchAddressH
  | SetSearchAddressM | SetSearchAddressL | ProgramShortAddress | VerifyShortAddress
  | QueryShortAddress | EnableDeviceType

fun special_code :: "DaliSpecialCommand \<Rightarrow> u8" where
  "special_code Terminate = 0xA1"
| "special_code SetDtr0 = 0xA3"
| "special_code Initialise = 0xA5"
| "special_code Randomise = 0xA7"
| "special_code Compare = 0xA9"
| "special_code Withdraw = 0xAB"
| "special_code SetSearchAddressH = 0xB1"
| "special_code SetSearchAddressM = 0xB3"
| "special_code SetSearchAddressL = 0xB5"
| "special_code ProgramShortAddress = 0xB7"
| "special_code VerifyShortAddress = 0xB9"
| "special_code QueryShortAddress = 0xBB"
| "special_code EnableDeviceType = 0xC1"

lemma used_commands_in_catalogue:
  "DaliCommand_named ''QueryStatus'' = Some QueryStatus"
  "DaliCommand_named ''QueryControlGearPresent'' = Some QueryControlGearPresent"
  "DaliCommand_named ''QueryDeviceType'' = Some QueryDeviceType"
  "DaliCommand_named ''QueryVersionNumber'' = Some QueryVersionNumber"
  "DaliCommand_named ''QueryPhysicalMinimum'' = Some QueryPhysicalMinimum"
  by code_simp+

section \<open>Forward frames\<close>

datatype ForwardFrame = ForwardFrame (frame_raw: u16)

definition addressByte :: "ForwardFrame \<Rightarrow> u8" where
  "addressByte f = ucast (drop_bit 8 (frame_raw f) AND 0xFF)"

definition dataByte :: "ForwardFrame \<Rightarrow> u8" where
  "dataByte f = ucast (frame_raw f AND 0xFF)"

datatype ArcLevel = ArcLevel (arc_value: u8)

definition ArcLevel_fromRaw :: "u16 \<Rightarrow> ArcLevel option" where
  "ArcLevel_fromRaw v = (if v \<le> 254 then Some (ArcLevel (ucast v)) else None)"

definition makeFrame :: "u8 \<Rightarrow> u8 \<Rightarrow> ForwardFrame" where
  "makeFrame address data = ForwardFrame (push_bit 8 (ucast address) OR ucast data)"

definition makeShortCommand :: "ShortAddress \<Rightarrow> DaliCommand \<Rightarrow> ForwardFrame" where
  "makeShortCommand address command =
     makeFrame (push_bit 1 (sa_value address) OR 0x01) (command_code command)"

definition makeShortArc :: "ShortAddress \<Rightarrow> ArcLevel \<Rightarrow> ForwardFrame" where
  "makeShortArc address level = makeFrame (push_bit 1 (sa_value address)) (arc_value level)"

definition makeGroupCommand :: "GroupAddress \<Rightarrow> DaliCommand \<Rightarrow> ForwardFrame" where
  "makeGroupCommand address command =
     makeFrame (0x81 OR push_bit 1 (ga_value address)) (command_code command)"

definition makeGroupArc :: "GroupAddress \<Rightarrow> ArcLevel \<Rightarrow> ForwardFrame" where
  "makeGroupArc address level =
     makeFrame (0x80 OR push_bit 1 (ga_value address)) (arc_value level)"

definition makeBroadcastCommand :: "DaliCommand \<Rightarrow> ForwardFrame" where
  "makeBroadcastCommand command = makeFrame 0xFF (command_code command)"

definition makeSpecialCommand :: "DaliSpecialCommand \<Rightarrow> u8 \<Rightarrow> ForwardFrame" where
  "makeSpecialCommand command parameter = makeFrame (special_code command) parameter"

definition makeBroadcastArc :: "ArcLevel \<Rightarrow> ForwardFrame" where
  "makeBroadcastArc level = makeFrame 0xFE (arc_value level)"

section \<open>What a gear reads from a frame\<close>

text \<open>
  The addressing scheme of the bus: address byte \<open>0AAAAAAS\<close> is short address \<open>A\<close>,
  \<open>100AAAAS\<close> group \<open>A\<close>, \<open>1111111S\<close> broadcast; \<open>S\<close> tells a command (1) from a direct
  arc level (0). Every other address byte is a special command.
\<close>

datatype frame_target = ToShort ShortAddress | ToGroup GroupAddress | ToAll | ToSpecial u8

definition address_target :: "u8 \<Rightarrow> frame_target" where
  "address_target b =
     (if b AND 0x80 = 0 then ToShort (ShortAddress (drop_bit 1 b))
      else if b AND 0xE0 = 0x80 then ToGroup (GroupAddress (drop_bit 1 b AND 0x0F))
      else if b AND 0xFE = 0xFE then ToAll
      else ToSpecial b)"

definition is_command_byte :: "u8 \<Rightarrow> bool" where
  "is_command_byte b \<longleftrightarrow> b AND 1 = 1"

definition frame_reads :: "ForwardFrame \<Rightarrow> frame_target \<times> bool \<times> u8" where
  "frame_reads f = (address_target (addressByte f), is_command_byte (addressByte f), dataByte f)"

lemma makeFrame_bytes [simp]:
  "addressByte (makeFrame a d) = a" "dataByte (makeFrame a d) = d"
proof -
  have m: "0xFF = (mask 8 :: u16)" by (simp add: mask_eq_exp_minus_1)
  show "addressByte (makeFrame a d) = a" "dataByte (makeFrame a d) = d"
    by (rule bit_word_eqI, auto simp: m addressByte_def dataByte_def makeFrame_def bit_simps
        dest: bit_imp_le_length)+
qed

lemma word_below_cases:
  fixes v :: "'a::len word"
  assumes "unat v < n" "list_all (\<lambda>i. P (word_of_nat i)) [0..<n]"
  shows "P v"
proof -
  have "unat v \<in> set [0..<n]" using assms(1) by simp
  moreover have "\<forall>i \<in> set [0..<n]. P (word_of_nat i)" using assms(2) by (simp only: list_all_iff)
  ultimately have "P (word_of_nat (unat v))" by (rule bspec [rotated])
  then show ?thesis by simp
qed

lemma short_address_byte:
  assumes "v \<le> (63 :: u8)"
  shows "address_target (push_bit 1 v OR 1) = ToShort (ShortAddress v) \<and>
    is_command_byte (push_bit 1 v OR 1) \<and>
    address_target (push_bit 1 v) = ToShort (ShortAddress v) \<and> \<not> is_command_byte (push_bit 1 v)"
proof (rule word_below_cases [of v 64])
  show "unat v < 64" using assms by (simp add: word_le_nat_alt)
qed code_simp

lemma group_address_byte:
  assumes "v \<le> (15 :: u8)"
  shows "address_target (0x81 OR push_bit 1 v) = ToGroup (GroupAddress v) \<and>
    is_command_byte (0x81 OR push_bit 1 v) \<and>
    address_target (0x80 OR push_bit 1 v) = ToGroup (GroupAddress v) \<and>
    \<not> is_command_byte (0x80 OR push_bit 1 v)"
proof (rule word_below_cases [of v 16])
  show "unat v < 16" using assms by (simp add: word_le_nat_alt)
qed code_simp

lemma special_address_byte:
  "address_target (special_code c) = ToSpecial (special_code c) \<and> is_command_byte (special_code c)"
  by (cases c) (simp_all add: address_target_def is_command_byte_def)

lemma broadcast_bytes:
  "address_target 0xFF = ToAll" "is_command_byte 0xFF" "address_target 0xFE = ToAll"
  "\<not> is_command_byte 0xFE"
  by (simp_all add: address_target_def is_command_byte_def)

lemma frame_reads_builders:
  assumes "short_ok a" and "group_ok g"
  shows "frame_reads (makeShortCommand a c) = (ToShort a, True, command_code c)"
    "frame_reads (makeShortArc a l) = (ToShort a, False, arc_value l)"
    "frame_reads (makeGroupCommand g c) = (ToGroup g, True, command_code c)"
    "frame_reads (makeGroupArc g l) = (ToGroup g, False, arc_value l)"
    "frame_reads (makeBroadcastCommand c) = (ToAll, True, command_code c)"
    "frame_reads (makeBroadcastArc l) = (ToAll, False, arc_value l)"
    "frame_reads (makeSpecialCommand s p) = (ToSpecial (special_code s), True, p)"
  using short_address_byte [of "sa_value a"] group_address_byte [of "ga_value g"]
    special_address_byte [of s] assms
  by (simp_all add: frame_reads_def makeShortCommand_def makeShortArc_def makeGroupCommand_def
      makeGroupArc_def makeBroadcastCommand_def makeBroadcastArc_def makeSpecialCommand_def
      short_ok_def group_ok_def broadcast_bytes)

section \<open>Properties\<close>

text \<open>
  C9: every frame a builder makes is read by the gear as it was meant. A command or arc
  level to a short address, a group or everyone comes back with its target, its kind and
  its data byte, and a special command is read as that special command, never as an address.
\<close>

theorem frame_builders_roundtrip:
  assumes "short_ok a" and "group_ok g"
  shows "frame_reads (makeShortCommand a c) = (ToShort a, True, command_code c) \<and>
    frame_reads (makeShortArc a l) = (ToShort a, False, arc_value l) \<and>
    frame_reads (makeGroupCommand g c) = (ToGroup g, True, command_code c) \<and>
    frame_reads (makeGroupArc g l) = (ToGroup g, False, arc_value l) \<and>
    frame_reads (makeBroadcastCommand c) = (ToAll, True, command_code c) \<and>
    frame_reads (makeBroadcastArc l) = (ToAll, False, arc_value l) \<and>
    frame_reads (makeSpecialCommand s p) = (ToSpecial (special_code s), True, p)"
  using frame_reads_builders [OF assms] by simp

theorem frame_builders_roundtrip_witness:
  "frame_reads (makeShortCommand (ShortAddress 3) QueryStatus) = (ToShort (ShortAddress 3), True, 0x90) \<and>
   frame_reads (makeGroupArc (GroupAddress 2) (ArcLevel 120)) = (ToGroup (GroupAddress 2), False, 120)"
proof -
  have "short_ok (ShortAddress 3)" "group_ok (GroupAddress 2)"
    by (simp_all add: short_ok_def group_ok_def word_le_nat_alt)
  from frame_builders_roundtrip [OF this, of QueryStatus "ArcLevel 120"]
  show ?thesis by (simp add: QueryStatus_def)
qed

end
