(* ===== verification/Command_Queue.thy ===== *)
theory Command_Queue
  imports Dali_Frame
begin

text \<open>
  The priority command queue \<open>dali_command_queue.h\<close>: a 64-slot array and a count. An
  enqueued request goes behind every queued request of the same or a more urgent priority;
  \<open>pop\<close> takes slot 0 and shifts the rest down. The array loops are modelled as written and
  proved to implement the stable insertion \<open>insert_behind\<close> on the list of live requests.
\<close>

section \<open>The queue interface\<close>

text \<open>Stable insertion by a key: behind every element whose key is at most the new one's.\<close>

fun insert_behind :: "('a \<Rightarrow> 'k::linorder) \<Rightarrow> 'a \<Rightarrow> 'a list \<Rightarrow> 'a list" where
  "insert_behind key r [] = [r]"
| "insert_behind key r (x # xs) =
     (if key x \<le> key r then x # insert_behind key r xs else r # x # xs)"

lemma insert_behind_takeWhile:
  "insert_behind key r xs =
     takeWhile (\<lambda>x. key x \<le> key r) xs @ r # dropWhile (\<lambda>x. key x \<le> key r) xs"
  by (induction xs) auto

lemma set_insert_behind [simp]: "set (insert_behind key r xs) = insert r (set xs)"
  by (induction xs) auto

lemma length_insert_behind [simp]: "length (insert_behind key r xs) = Suc (length xs)"
  by (induction xs) auto

lemma sorted_insert_behind:
  "sorted (map key xs) \<Longrightarrow> sorted (map key (insert_behind key r xs))"
  by (induction xs) auto

lemma filter_insert_behind:
  "sorted (map key xs) \<Longrightarrow>
   filter (\<lambda>x. key x = k) (insert_behind key r xs) =
     filter (\<lambda>x. key x = k) xs @ (if key r = k then [r] else [])"
proof (induction xs)
  case (Cons a xs)
  have "filter (\<lambda>x. key x = key r) xs = []" if "\<not> key a \<le> key r"
    using that Cons.prems by (auto simp: filter_empty_conv)
  with Cons show ?case by auto
qed simp

text \<open>
  The contract of a bounded priority queue, as the protocol pipeline uses it: \<open>contents\<close>
  is what it holds, next element first.
\<close>

locale priority_queue =
  fixes enq :: "'r \<Rightarrow> 'q \<Rightarrow> bool \<times> 'q"
    and pop :: "'q \<Rightarrow> 'r option \<times> 'q"
    and contents :: "'q \<Rightarrow> 'r list"
    and inv :: "'q \<Rightarrow> bool"
    and cap :: nat
    and key :: "'r \<Rightarrow> 'k::linorder"
  assumes cap_pos: "0 < cap"
    and enq_accepts: "inv q \<Longrightarrow> fst (enq r q) \<longleftrightarrow> length (contents q) < cap"
    and enq_contents: "inv q \<Longrightarrow> contents (snd (enq r q)) =
      (if length (contents q) < cap then insert_behind key r (contents q) else contents q)"
    and enq_inv: "inv q \<Longrightarrow> inv (snd (enq r q))"
    and pop_result: "inv q \<Longrightarrow> fst (pop q) = (case contents q of [] \<Rightarrow> None | x # _ \<Rightarrow> Some x)"
    and pop_contents: "inv q \<Longrightarrow> contents (snd (pop q)) = tl (contents q)"
    and pop_inv: "inv q \<Longrightarrow> inv (snd (pop q))"
begin

text \<open>Through an empty queue, a request comes straight back and leaves it empty.\<close>

lemma pass_through:
  assumes "inv q" "contents q = []"
  shows "fst (enq r q)" "fst (pop (snd (enq r q))) = Some r" "contents (snd (pop (snd (enq r q)))) = []"
  using assms cap_pos by (simp_all add: enq_accepts enq_contents enq_inv pop_result pop_contents)

lemma enq_sorted:
  "inv q \<Longrightarrow> sorted (map key (contents q)) \<Longrightarrow> sorted (map key (contents (snd (enq r q))))"
  by (simp add: enq_contents sorted_insert_behind)

lemma pop_sorted:
  "inv q \<Longrightarrow> sorted (map key (contents q)) \<Longrightarrow> sorted (map key (contents (snd (pop q))))"
  by (simp add: pop_contents map_tl sorted_tl)

lemma pop_most_urgent:
  assumes "inv q" "sorted (map key (contents q))" "fst (pop q) = Some r" "x \<in> set (contents q)"
  shows "key r \<le> key x"
  using assms by (cases "contents q") (auto simp: pop_result)

lemma enq_fifo:
  assumes "inv q" "sorted (map key (contents q))" "length (contents q) < cap"
  shows "filter (\<lambda>x. key x = k) (contents (snd (enq r q))) =
    filter (\<lambda>x. key x = k) (contents q) @ (if key r = k then [r] else [])"
  using assms by (simp add: enq_contents filter_insert_behind)

text \<open>A request that is refused leaves the queue as it was.\<close>

lemma refused_unchanged: "inv q \<Longrightarrow> \<not> fst (enq r q) \<Longrightarrow> contents (snd (enq r q)) = contents q"
  by (simp add: enq_accepts enq_contents)

end

section \<open>Requests\<close>

datatype CommandPriority = CpCritical | CpHigh | CpNormal | CpLow

fun priority_code :: "CommandPriority \<Rightarrow> u8" where
  "priority_code CpCritical = 0"
| "priority_code CpHigh = 1"
| "priority_code CpNormal = 2"
| "priority_code CpLow = 3"

datatype QueueResult = QrOk | QrFull

record DaliRequest =
  rq_frame :: ForwardFrame
  rq_expectsResponse :: bool
  rq_timeoutMs :: u32
  rq_maxRetries :: u8
  rq_priority :: CommandPriority
  rq_deviceKey :: u8
  rq_requestSequence :: u32

definition DaliRequest_init :: DaliRequest where
  "DaliRequest_init = \<lparr>rq_frame = ForwardFrame 0, rq_expectsResponse = True, rq_timeoutMs = 20,
     rq_maxRetries = 3, rq_priority = CpNormal, rq_deviceKey = 0xFF, rq_requestSequence = 0\<rparr>"

text \<open>Priorities are ordered by their codes: the smaller, the more urgent.\<close>

instantiation CommandPriority :: linorder
begin

definition less_eq_CommandPriority :: "CommandPriority \<Rightarrow> CommandPriority \<Rightarrow> bool" where
  "less_eq_CommandPriority a b \<longleftrightarrow> priority_code a \<le> priority_code b"

definition less_CommandPriority :: "CommandPriority \<Rightarrow> CommandPriority \<Rightarrow> bool" where
  "less_CommandPriority a b \<longleftrightarrow> priority_code a < priority_code b"

instance
proof
  fix x y :: CommandPriority
  show "x \<le> y \<Longrightarrow> y \<le> x \<Longrightarrow> x = y"
    by (cases x; cases y) (simp_all add: less_eq_CommandPriority_def word_le_nat_alt)
qed (auto simp: less_eq_CommandPriority_def less_CommandPriority_def)

end

section \<open>The queue\<close>

definition kQueueCapacity :: nat where
  "kQueueCapacity = 64"

record DaliCommandQueue =
  q_items :: "DaliRequest list"
  q_count :: nat

definition DaliCommandQueue_init :: DaliCommandQueue where
  "DaliCommandQueue_init = \<lparr>q_items = replicate kQueueCapacity DaliRequest_init, q_count = 0\<rparr>"

text \<open>\<open>while (insertion < count_ \<and> items_[insertion].priority \<le> requested) ++insertion;\<close>\<close>

function find_insertion :: "DaliRequest list \<Rightarrow> nat \<Rightarrow> u8 \<Rightarrow> nat \<Rightarrow> nat" where
  "find_insertion items count requested insertion =
     (if insertion < count \<and> priority_code (rq_priority (items ! insertion)) \<le> requested
      then find_insertion items count requested (insertion + 1)
      else insertion)"
  by pat_completeness auto
termination
  by (relation "measure (\<lambda>(items, count, requested, insertion). count - insertion)") auto

declare find_insertion.simps [simp del]

text \<open>\<open>for (index = count_; index > insertion; --index) items_[index] = items_[index - 1];\<close>\<close>

function shift_up :: "'a list \<Rightarrow> nat \<Rightarrow> nat \<Rightarrow> 'a list" where
  "shift_up items insertion index =
     (if index > insertion
      then shift_up (items[index := items ! (index - 1)]) insertion (index - 1)
      else items)"
  by pat_completeness auto
termination
  by (relation "measure (\<lambda>(items, insertion, index). index)") auto

declare shift_up.simps [simp del]

text \<open>\<open>for (index = 1; index < count_; ++index) items_[index - 1] = items_[index];\<close>\<close>

function shift_down :: "'a list \<Rightarrow> nat \<Rightarrow> nat \<Rightarrow> 'a list" where
  "shift_down items count index =
     (if index < count
      then shift_down (items[index - 1 := items ! index]) count (index + 1)
      else items)"
  by pat_completeness auto
termination
  by (relation "measure (\<lambda>(items, count, index). count - index)") auto

declare shift_down.simps [simp del]

definition q_enqueue :: "DaliRequest \<Rightarrow> DaliCommandQueue \<Rightarrow> QueueResult \<times> DaliCommandQueue" where
  "q_enqueue request q =
     (if q_count q = kQueueCapacity then (QrFull, q)
      else
        let insertion = find_insertion (q_items q) (q_count q) (priority_code (rq_priority request)) 0;
            shifted = shift_up (q_items q) insertion (q_count q)
        in (QrOk, q\<lparr>q_items := shifted[insertion := request], q_count := q_count q + 1\<rparr>))"

definition q_pop :: "DaliCommandQueue \<Rightarrow> DaliRequest option \<times> DaliCommandQueue" where
  "q_pop q =
     (if q_count q = 0 then (None, q)
      else (Some (q_items q ! 0),
            q\<lparr>q_items := shift_down (q_items q) (q_count q) 1, q_count := q_count q - 1\<rparr>))"

definition q_size :: "DaliCommandQueue \<Rightarrow> nat" where
  "q_size q = q_count q"

definition q_empty :: "DaliCommandQueue \<Rightarrow> bool" where
  "q_empty q \<longleftrightarrow> q_count q = 0"

section \<open>The abstract queue\<close>

definition q_inv :: "DaliCommandQueue \<Rightarrow> bool" where
  "q_inv q \<longleftrightarrow> length (q_items q) = kQueueCapacity \<and> q_count q \<le> kQueueCapacity"

definition q_list :: "DaliCommandQueue \<Rightarrow> DaliRequest list" where
  "q_list q = take (q_count q) (q_items q)"

lemma find_insertion_takeWhile:
  assumes "count \<le> length items" "i \<le> count"
  shows "find_insertion items count p i =
    i + length (takeWhile (\<lambda>x. priority_code (rq_priority x) \<le> p) (drop i (take count items)))"
  using assms
proof (induction items count p i rule: find_insertion.induct)
  case (1 items count p i)
  show ?case
  proof (cases "i < count \<and> priority_code (rq_priority (items ! i)) \<le> p")
    case True
    then have "drop i (take count items) = items ! i # drop (Suc i) (take count items)"
      using 1 by (simp add: Cons_nth_drop_Suc [symmetric])
    with True 1 show ?thesis by (simp add: find_insertion.simps [of items count p i])
  next
    case False
    then have "i = count \<or> drop i (take count items) = items ! i # drop (Suc i) (take count items)
        \<and> \<not> priority_code (rq_priority (items ! i)) \<le> p"
      using 1(2,3) by (auto simp: Cons_nth_drop_Suc [symmetric])
    with False show ?thesis by (auto simp: find_insertion.simps [of items count p i])
  qed
qed

lemma length_shift_up [simp]: "length (shift_up xs i n) = length xs"
proof (induction xs i n rule: shift_up.induct)
  case (1 xs i n)
  then show ?case by (simp add: shift_up.simps [of xs i n])
qed

lemma length_shift_down [simp]: "length (shift_down xs c i) = length xs"
proof (induction xs c i rule: shift_down.induct)
  case (1 xs c i)
  then show ?case by (simp add: shift_down.simps [of xs c i])
qed

lemma nth_shift_up:
  assumes "n < length xs" "i \<le> n" "j < length xs"
  shows "shift_up xs i n ! j = (if i < j \<and> j \<le> n then xs ! (j - 1) else xs ! j)"
  using assms
proof (induction xs i n rule: shift_up.induct)
  case (1 xs i n)
  show ?case
  proof (cases "i < n")
    case True
    then have "shift_up xs i n ! j =
        (if i < j \<and> j \<le> n - 1 then xs[n := xs ! (n - 1)] ! (j - 1) else xs[n := xs ! (n - 1)] ! j)"
      using 1 by (simp add: shift_up.simps [of xs i n])
    with True "1.prems" show ?thesis by (auto simp: nth_list_update)
  next
    case False
    with "1.prems" show ?thesis by (subst shift_up.simps) auto
  qed
qed

lemma nth_shift_down:
  assumes "c \<le> length xs" "1 \<le> i" "j < length xs"
  shows "shift_down xs c i ! j = (if i \<le> Suc j \<and> Suc j < c then xs ! Suc j else xs ! j)"
  using assms
proof (induction xs c i rule: shift_down.induct)
  case (1 xs c i)
  show ?case
  proof (cases "i < c")
    case True
    then have "shift_down xs c i ! j =
        (if i + 1 \<le> Suc j \<and> Suc j < c then xs[i - 1 := xs ! i] ! Suc j else xs[i - 1 := xs ! i] ! j)"
      using 1 by (simp add: shift_down.simps [of xs c i])
    with True "1.prems" show ?thesis by (auto simp: nth_list_update)
  next
    case False
    with "1.prems" show ?thesis by (auto simp: shift_down.simps [of xs c i])
  qed
qed

lemma shift_up_insert:
  assumes "n < length xs" "i \<le> n"
  shows "take (Suc n) ((shift_up xs i n)[i := x]) = take i xs @ x # drop i (take n xs)"
proof (rule nth_equalityI)
  show "length (take (Suc n) ((shift_up xs i n)[i := x])) = length (take i xs @ x # drop i (take n xs))"
    using assms by simp
  fix j
  assume "j < length (take (Suc n) ((shift_up xs i n)[i := x]))"
  then have "j \<le> n" using assms by simp
  then show "take (Suc n) ((shift_up xs i n)[i := x]) ! j = (take i xs @ x # drop i (take n xs)) ! j"
    using assms by (cases j i rule: linorder_cases)
      (auto simp: nth_list_update nth_shift_up nth_append nth_Cons')
qed

lemma shift_down_tl:
  assumes "c \<le> length xs" "0 < c"
  shows "take (c - 1) (shift_down xs c 1) = tl (take c xs)"
  using assms by (intro nth_equalityI) (auto simp: nth_shift_down nth_tl)

lemma q_enqueue_list:
  assumes "q_inv q"
  shows "q_list (snd (q_enqueue r q)) =
    (if length (q_list q) = kQueueCapacity then q_list q else insert_behind rq_priority r (q_list q))"
proof (cases "q_count q = kQueueCapacity")
  case True
  then show ?thesis using assms by (simp add: q_enqueue_def q_list_def q_inv_def)
next
  case False
  let ?P = "\<lambda>x. rq_priority x \<le> rq_priority r"
  define i where "i = length (takeWhile ?P (q_list q))"
  have i: "i \<le> q_count q"
    unfolding i_def q_list_def using length_takeWhile_le [of ?P "take (q_count q) (q_items q)"] by simp
  have ins: "find_insertion (q_items q) (q_count q) (priority_code (rq_priority r)) 0 = i"
    using assms by (simp add: find_insertion_takeWhile q_inv_def i_def q_list_def less_eq_CommandPriority_def)
  have n: "q_count q < length (q_items q)" using False assms by (simp add: q_inv_def)
  have "q_list (snd (q_enqueue r q)) = take i (q_items q) @ r # drop i (q_list q)"
    using False shift_up_insert [OF n i, of r] by (simp add: q_enqueue_def ins Let_def q_list_def)
  also have "take i (q_items q) = take i (q_list q)" using i by (simp add: q_list_def min_absorb1)
  also have "\<dots> @ r # drop i (q_list q) = insert_behind rq_priority r (q_list q)"
    by (simp add: insert_behind_takeWhile i_def takeWhile_eq_take [symmetric] dropWhile_eq_drop [symmetric])
  finally show ?thesis using False n by (simp add: q_list_def)
qed

lemma q_enqueue_result:
  assumes "q_inv q"
  shows "fst (q_enqueue r q) = (if length (q_list q) = kQueueCapacity then QrFull else QrOk)"
  using assms by (simp add: q_enqueue_def q_list_def q_inv_def Let_def)

lemma q_enqueue_full:
  "q_inv q \<Longrightarrow> length (q_list q) = 64 \<Longrightarrow> q_enqueue r q = (QrFull, q)"
  by (simp add: q_enqueue_def q_list_def q_inv_def kQueueCapacity_def)

lemma q_enqueue_inv [keeps]: "q_inv q \<Longrightarrow> q_inv (snd (q_enqueue r q))"
  by (auto simp: q_enqueue_def q_inv_def Let_def)

lemma q_pop_list:
  assumes "q_inv q"
  shows "q_list (snd (q_pop q)) = tl (q_list q)"
  using assms shift_down_tl [of "q_count q" "q_items q"] by (simp add: q_pop_def q_list_def q_inv_def)

lemma q_pop_result:
  assumes "q_inv q"
  shows "fst (q_pop q) = (case q_list q of [] \<Rightarrow> None | x # _ \<Rightarrow> Some x)"
proof (cases "q_count q")
  case (Suc n)
  then have "q_list q = q_items q ! 0 # tl (q_list q)"
    using assms by (cases "q_items q") (auto simp: q_list_def q_inv_def kQueueCapacity_def)
  then show ?thesis using Suc by (auto simp: q_pop_def split: list.split)
qed (simp add: q_pop_def q_list_def)

lemma q_pop_inv [keeps]: "q_inv q \<Longrightarrow> q_inv (snd (q_pop q))"
  by (auto simp: q_pop_def q_inv_def)

lemma q_init_inv [keeps]: "q_inv DaliCommandQueue_init"
  by (simp add: q_inv_def DaliCommandQueue_init_def)

lemma q_init_list [simp]: "q_list DaliCommandQueue_init = []"
  by (simp add: q_list_def DaliCommandQueue_init_def)

lemma q_size_list: "q_inv q \<Longrightarrow> q_size q = length (q_list q)"
  by (simp add: q_size_def q_list_def q_inv_def)

section \<open>The array queue is a priority queue\<close>

text \<open>\<open>q_offer\<close> is \<open>enqueue\<close> with its result read as "accepted".\<close>

definition q_offer :: "DaliRequest \<Rightarrow> DaliCommandQueue \<Rightarrow> bool \<times> DaliCommandQueue" where
  "q_offer r q = (fst (q_enqueue r q) = QrOk, snd (q_enqueue r q))"

interpretation cq: priority_queue q_offer q_pop q_list q_inv kQueueCapacity rq_priority
proof unfold_locales
  fix q :: DaliCommandQueue
  assume q: "q_inv q"
  then have le: "length (q_list q) \<le> kQueueCapacity" by (simp add: q_list_def q_inv_def)
  fix r
  show "fst (q_offer r q) \<longleftrightarrow> length (q_list q) < kQueueCapacity"
    using q le by (auto simp: q_offer_def q_enqueue_result)
  show "q_list (snd (q_offer r q)) =
    (if length (q_list q) < kQueueCapacity then insert_behind rq_priority r (q_list q) else q_list q)"
    using q le by (auto simp: q_offer_def q_enqueue_list)
qed (simp_all add: q_offer_def keeps q_pop_result q_pop_list kQueueCapacity_def)

text \<open>What users of the queue see: requests leave most urgent first, equals in arrival order.\<close>

definition q_ordered :: "DaliCommandQueue \<Rightarrow> bool" where
  "q_ordered q \<longleftrightarrow> q_inv q \<and> sorted (map rq_priority (q_list q))"

inductive q_reachable :: "DaliCommandQueue \<Rightarrow> bool" where
  init: "q_reachable DaliCommandQueue_init"
| enqueue: "q_reachable q \<Longrightarrow> q_reachable (snd (q_enqueue r q))"
| pop: "q_reachable q \<Longrightarrow> q_reachable (snd (q_pop q))"

lemma q_reachable_ordered: "q_reachable q \<Longrightarrow> q_ordered q"
proof (induction rule: q_reachable.induct)
  case init
  then show ?case by (simp add: q_ordered_def keeps)
next
  case (enqueue q r)
  then show ?case using cq.enq_sorted [of q r] by (simp add: q_ordered_def q_offer_def keeps)
next
  case (pop q)
  then show ?case using cq.pop_sorted [of q] by (simp add: q_ordered_def keeps)
qed

section \<open>Properties\<close>

text \<open>
  C1: the array loops of \<open>enqueue\<close> and \<open>pop\<close> implement the abstract queue. On a
  well-formed queue \<open>enqueue\<close> reports \<open>Full\<close> exactly at 64 live requests and then changes
  nothing the queue holds, otherwise it inserts the request behind everything at least as
  urgent; \<open>pop\<close> returns the first live request, if any, and removes just that one.
\<close>

theorem queue_refines_list:
  assumes "q_inv q"
  shows "fst (q_enqueue r q) = (if length (q_list q) = 64 then QrFull else QrOk) \<and>
    q_list (snd (q_enqueue r q)) =
      (if length (q_list q) = 64 then q_list q else insert_behind rq_priority r (q_list q)) \<and>
    fst (q_pop q) = (case q_list q of [] \<Rightarrow> None | x # _ \<Rightarrow> Some x) \<and>
    q_list (snd (q_pop q)) = tl (q_list q) \<and>
    q_inv (snd (q_enqueue r q)) \<and> q_inv (snd (q_pop q))"
  using assms
  by (simp add: q_enqueue_result q_enqueue_list q_pop_result q_pop_list keeps kQueueCapacity_def)

theorem queue_refines_list_witness:
  "q_inv DaliCommandQueue_init \<and>
   q_list (snd (q_enqueue DaliRequest_init DaliCommandQueue_init)) = [DaliRequest_init]"
  using queue_refines_list [OF q_init_inv, of DaliRequest_init] by (simp add: q_init_inv)

text \<open>
  C2: order of service. In every queue reachable from the empty one by \<open>enqueue\<close> and
  \<open>pop\<close>, the popped request is at least as urgent as everything that stays and is the
  oldest of its priority; an accepted request becomes the youngest of its priority and the
  other priorities are not disturbed.
\<close>

theorem queue_service_order:
  assumes "q_reachable q" and "fst (q_pop q) = Some r"
  shows "(\<forall>x \<in> set (q_list (snd (q_pop q))). rq_priority r \<le> rq_priority x) \<and>
    filter (\<lambda>x. rq_priority x = rq_priority r) (q_list q) =
      r # filter (\<lambda>x. rq_priority x = rq_priority r) (q_list (snd (q_pop q))) \<and>
    (fst (q_enqueue n q) = QrOk \<longrightarrow>
      (\<forall>p. filter (\<lambda>x. rq_priority x = p) (q_list (snd (q_enqueue n q))) =
        filter (\<lambda>x. rq_priority x = p) (q_list q) @ (if rq_priority n = p then [n] else [])))"
proof -
  have q: "q_inv q" and s: "sorted (map rq_priority (q_list q))"
    using q_reachable_ordered [OF assms(1)] by (simp_all add: q_ordered_def)
  have "\<exists>xs. q_list q = r # xs" using assms(2) q by (auto simp: q_pop_result split: list.splits)
  moreover have "length (q_list q) < kQueueCapacity" if "fst (q_enqueue n q) = QrOk"
    using that q cq.enq_accepts [of q n] by (simp add: q_offer_def)
  ultimately show ?thesis
    using q s cq.enq_fifo [OF q s, where r = n] by (auto simp: q_pop_list q_offer_def)
qed

theorem queue_service_order_witness:
  "q_list (snd (q_enqueue (DaliRequest_init\<lparr>rq_priority := CpHigh\<rparr>)
     (snd (q_enqueue DaliRequest_init DaliCommandQueue_init)))) =
     [DaliRequest_init\<lparr>rq_priority := CpHigh\<rparr>, DaliRequest_init] \<and>
   CpHigh \<le> rq_priority DaliRequest_init"
proof -
  let ?h = "DaliRequest_init\<lparr>rq_priority := CpHigh\<rparr>"
  let ?q = "snd (q_enqueue ?h (snd (q_enqueue DaliRequest_init DaliCommandQueue_init)))"
  have r: "q_reachable ?q" by (intro q_reachable.intros)
  have l: "q_list ?q = [?h, DaliRequest_init]"
    by (simp add: q_enqueue_list keeps kQueueCapacity_def DaliRequest_init_def less_eq_CommandPriority_def
        word_le_nat_alt)
  have p: "fst (q_pop ?q) = Some ?h" using l by (simp add: q_pop_result keeps)
  show ?thesis using queue_service_order [OF r p] l by (simp add: q_pop_list keeps)
qed

end
