(* ===== verification/Dali_Transaction.thy ===== *)
theory Dali_Transaction
  imports Command_Queue
begin

text \<open>
  One DALI transaction, \<open>dali_transaction.h/.cpp\<close>: transmit, wait for the backward frame,
  retry what may succeed later with a stepped and jittered pause. The service's three
  references (PHY, delay provider, jitter source) are the records of their virtual methods
  (\<open>bus_ops\<close>) and the state of the objects behind them (\<open>bus\<close>), which \<open>execute\<close> threads.
\<close>

section \<open>The service and its environment\<close>

record 'd IDelayProvider =
  dl_delayMs :: "u32 \<Rightarrow> 'd \<Rightarrow> 'd"

record 'j IJitterSource =
  js_next :: "u32 \<Rightarrow> 'j \<Rightarrow> u32 \<times> 'j"

record ('p, 'd, 'j) bus_ops =
  ops_phy :: "'p IDaliPhy"
  ops_delay :: "'d IDelayProvider"
  ops_jitter :: "'j IJitterSource"

record ('p, 'd, 'j) bus =
  bus_phy :: 'p
  bus_delay :: 'd
  bus_jitter :: 'j

datatype TransactionStatus =
    TsOk | TsRetriesExhausted | TsInvalidRequest | TsBusPowerLost | TsTransceiverFault
  | TsNotInitialised | TsInternalError

record DaliTransactionResult =
  tr_status :: TransactionStatus
  tr_response :: "u8 option"
  tr_attempts :: u8
  tr_lastPhyResult :: PhyResult
  tr_retryDelayTotalMs :: u32

definition DaliTransactionResult_init :: DaliTransactionResult where
  "DaliTransactionResult_init = \<lparr>tr_status = TsInternalError, tr_response = None,
     tr_attempts = 0, tr_lastPhyResult = PhyInternalError, tr_retryDelayTotalMs = 0\<rparr>"

definition kAbsoluteMaxRetries :: u8 where
  "kAbsoluteMaxRetries = 8"

definition kMaximumJitterMs :: u32 where
  "kMaximumJitterMs = 25"

definition isRetryable :: "PhyResult \<Rightarrow> bool" where
  "isRetryable result \<longleftrightarrow>
     result = PhyTimeout \<or> result = PhyBusy \<or> result = PhyCollision"

definition baseRetryDelayMs :: "u8 \<Rightarrow> u32" where
  "baseRetryDelayMs retryIndex =
     (if retryIndex = 0 then 100 else if retryIndex = 1 then 500 else 2000)"

fun mapTerminalStatus :: "PhyResult \<Rightarrow> TransactionStatus" where
  "mapTerminalStatus PhyBusPowerLost = TsBusPowerLost"
| "mapTerminalStatus PhyTransceiverFault = TsTransceiverFault"
| "mapTerminalStatus PhyNotInitialised = TsNotInitialised"
| "mapTerminalStatus PhyInvalidArgument = TsInvalidRequest"
| "mapTerminalStatus PhyTimeout = TsRetriesExhausted"
| "mapTerminalStatus PhyBusy = TsRetriesExhausted"
| "mapTerminalStatus PhyCollision = TsRetriesExhausted"
| "mapTerminalStatus PhyOk = TsOk"
| "mapTerminalStatus PhyInternalError = TsInternalError"

section \<open>execute\<close>

text \<open>
  The bus traffic of one attempt (lines 75 to 80 of the source): the PHY's verdict, the
  local \<open>backwardFrame\<close> and the bus afterwards.
\<close>

definition exchange ::
  "('p, 'd, 'j) bus_ops \<Rightarrow> DaliRequest \<Rightarrow> ('p, 'd, 'j) bus \<Rightarrow> PhyResult \<times> u8 \<times> ('p, 'd, 'j) bus"
where
  "exchange ops request w =
     (let (phyResult, p) = phy_transmit (ops_phy ops) (frame_raw (rq_frame request)) (bus_phy w)
      in if phyResult = PhyOk \<and> rq_expectsResponse request
         then let (received, byte, p') = phy_receive (ops_phy ops) (rq_timeoutMs request) p
              in (received, (case byte of None \<Rightarrow> 0 | Some b \<Rightarrow> b), w\<lparr>bus_phy := p'\<rparr>)
         else (phyResult, 0, w\<lparr>bus_phy := p\<rparr>))"

text \<open>The pause before a retry: the delay drawn, and the bus after it.\<close>

definition pause ::
  "('p, 'd, 'j) bus_ops \<Rightarrow> u8 \<Rightarrow> ('p, 'd, 'j) bus \<Rightarrow> u32 \<times> ('p, 'd, 'j) bus"
where
  "pause ops attempt w =
     (let (jitter, j) = js_next (ops_jitter ops) kMaximumJitterMs (bus_jitter w);
          retryDelay = baseRetryDelayMs attempt + jitter
      in (retryDelay, w\<lparr>bus_jitter := j,
                        bus_delay := dl_delayMs (ops_delay ops) retryDelay (bus_delay w)\<rparr>))"

function execute_loop ::
  "('p, 'd, 'j) bus_ops \<Rightarrow> DaliRequest \<Rightarrow> u8 \<Rightarrow> DaliTransactionResult \<Rightarrow> ('p, 'd, 'j) bus \<Rightarrow>
   DaliTransactionResult \<times> ('p, 'd, 'j) bus"
where
  "execute_loop ops request attempt result w =
     (if attempt \<le> rq_maxRetries request
      then
        let counted = result\<lparr>tr_attempts := tr_attempts result + 1\<rparr>;
            (phyResult, backwardFrame, w') = exchange ops request w;
            seen = counted\<lparr>tr_lastPhyResult := phyResult\<rparr>
        in if phyResult = PhyOk
           then ((if rq_expectsResponse request
                  then seen\<lparr>tr_status := TsOk, tr_response := Some backwardFrame\<rparr>
                  else seen\<lparr>tr_status := TsOk\<rparr>), w')
           else if \<not> isRetryable phyResult
           then (seen\<lparr>tr_status := mapTerminalStatus phyResult\<rparr>, w')
           else if attempt = rq_maxRetries request
           then (seen\<lparr>tr_status := TsRetriesExhausted\<rparr>, w')
           else let (retryDelay, w'') = pause ops attempt w'
                in execute_loop ops request (attempt + 1)
                     (seen\<lparr>tr_retryDelayTotalMs := tr_retryDelayTotalMs seen + retryDelay\<rparr>) w''
      else (result\<lparr>tr_status := TsInternalError, tr_lastPhyResult := PhyInternalError\<rparr>, w))"
  by pat_completeness auto
termination
proof (relation "measure (\<lambda>(ops, request, attempt, result, w).
    unat (rq_maxRetries request) - unat attempt)", goal_cases)
  case (2 ops request attempt)
  then have "attempt < rq_maxRetries request" by simp
  then show ?case by (simp add: word_less_nat_alt [of attempt] diff_less_mono2)
qed simp

declare execute_loop.simps [simp del]

definition execute ::
  "('p, 'd, 'j) bus_ops \<Rightarrow> DaliRequest \<Rightarrow> ('p, 'd, 'j) bus \<Rightarrow>
   DaliTransactionResult \<times> ('p, 'd, 'j) bus"
where
  "execute ops request w =
     (let result = DaliTransactionResult_init
      in if rq_timeoutMs request = 0 \<or> kAbsoluteMaxRetries < rq_maxRetries request
         then (result\<lparr>tr_status := TsInvalidRequest, tr_lastPhyResult := PhyInvalidArgument\<rparr>, w)
         else execute_loop ops request 0 result w)"

definition request_valid :: "DaliRequest \<Rightarrow> bool" where
  "request_valid request \<longleftrightarrow> rq_timeoutMs request \<noteq> 0 \<and> rq_maxRetries request \<le> kAbsoluteMaxRetries"

section \<open>The retry policy\<close>

text \<open>
  \<open>tx_run ops request i w rs ds b w'\<close>: starting at retry index \<open>i\<close> on bus \<open>w\<close>, the
  exchanges gave the verdicts \<open>rs\<close> in this order, with the pauses \<open>ds\<close> between them, and
  ended with backward byte \<open>b\<close> on bus \<open>w'\<close>. Every exchange but the last failed in a
  retryable way.
\<close>

inductive tx_run ::
  "('p, 'd, 'j) bus_ops \<Rightarrow> DaliRequest \<Rightarrow> nat \<Rightarrow> ('p, 'd, 'j) bus \<Rightarrow> PhyResult list \<Rightarrow> u32 list \<Rightarrow>
   u8 \<Rightarrow> ('p, 'd, 'j) bus \<Rightarrow> bool"
  for ops request
where
  last: "exchange ops request w = (r, b, w') \<Longrightarrow> tx_run ops request i w [r] [] b w'"
| again: "exchange ops request w = (r, b, w1) \<Longrightarrow> isRetryable r \<Longrightarrow>
    pause ops (word_of_nat i) w1 = (d, w2) \<Longrightarrow> tx_run ops request (Suc i) w2 rs ds b' w3 \<Longrightarrow>
    tx_run ops request i w (r # rs) (d # ds) b' w3"

inductive_cases tx_run_single: "tx_run ops request i w [r] ds b w'"
inductive_cases tx_run_again: "tx_run ops request i w (r # s # rs) ds b w'"

lemma tx_run_lengths: "tx_run ops request i w rs ds b w' \<Longrightarrow> length rs = Suc (length ds)"
  by (induction rule: tx_run.induct) auto

lemma tx_run_retryable:
  "tx_run ops request i w rs ds b w' \<Longrightarrow> \<forall>r \<in> set (butlast rs). isRetryable r"
  by (induction rule: tx_run.induct) auto

lemma tx_run_nonempty: "tx_run ops request i w rs ds b w' \<Longrightarrow> rs \<noteq> []"
  by (cases rule: tx_run.cases) auto

text \<open>The relation is deterministic but for where the run stops.\<close>

lemma tx_run_prefix:
  "tx_run ops request i w rs ds b w' \<Longrightarrow> tx_run ops request i w rs' ds' b' w'' \<Longrightarrow> length rs \<le> length rs' \<Longrightarrow>
   take (length rs) rs' = rs \<and> (length rs = length rs' \<longrightarrow> (rs', ds', b', w'') = (rs, ds, b, w'))"
proof (induction arbitrary: rs' ds' b' w'' rule: tx_run.induct)
  case (last w r b w' i)
  from last.prems(1) last.hyps show ?case
    by (cases rule: tx_run.cases) (auto dest: tx_run_nonempty)
next
  case (again w r b w1 i d w2 rs ds c w3)
  have "rs \<noteq> []" by (rule tx_run_nonempty [OF again.hyps(4)])
  with again.prems(2) obtain s t rest where rs': "rs' = s # t # rest"
    by (cases rs'; cases "tl rs'"; cases rs) auto
  from again.prems(1) [unfolded rs'] again.hyps(1,3) obtain ds1 where
    "s = r" "ds' = d # ds1" "tx_run ops request (Suc i) w2 (t # rest) ds1 b' w''"
    by (auto elim!: tx_run_again)
  with again.IH [of "t # rest" ds1 b' w''] again.prems(2) rs' show ?case by auto
qed

text \<open>A run is complete when its last verdict is final or its attempts are used up.\<close>

definition tx_complete :: "DaliRequest \<Rightarrow> PhyResult list \<Rightarrow> bool" where
  "tx_complete request rs \<longleftrightarrow> length rs \<le> unat (rq_maxRetries request) + 1 \<and>
     (isRetryable (List.last rs) \<longrightarrow> length rs = unat (rq_maxRetries request) + 1)"

lemma tx_complete_shorter:
  assumes run: "tx_run ops request i w rs ds b w'" and run': "tx_run ops request i w rs' ds' b' w''"
    and c: "tx_complete request rs" "tx_complete request rs'"
  shows "length rs' \<le> length rs"
proof (rule ccontr)
  assume "\<not> length rs' \<le> length rs"
  then have lt: "length rs < length rs'" by simp
  with tx_run_prefix [OF run run'] have t: "take (length rs) rs' = rs" by simp
  have "rs \<noteq> []" by (rule tx_run_nonempty [OF run])
  then have "List.last rs = rs ! (length rs - 1)" by (rule last_conv_nth)
  also have "\<dots> = rs' ! (length rs - 1)" using t \<open>rs \<noteq> []\<close> by (metis diff_less length_greater_0_conv less_one nth_take)
  also have "\<dots> = butlast rs' ! (length rs - 1)" using lt \<open>rs \<noteq> []\<close> by (simp add: nth_butlast less_diff_conv)
  also have "\<dots> \<in> set (butlast rs')" using lt \<open>rs \<noteq> []\<close> by (intro nth_mem) (simp add: less_diff_conv)
  finally have "isRetryable (List.last rs)" using tx_run_retryable [OF run'] by blast
  with c lt show False by (simp add: tx_complete_def)
qed

lemma tx_complete_unique:
  assumes "tx_run ops request i w rs ds b w'" "tx_run ops request i w rs' ds' b' w''"
    and "tx_complete request rs" "tx_complete request rs'"
  shows "(rs', ds', b', w'') = (rs, ds, b, w')"
  using tx_run_prefix [OF assms(1,2)] tx_complete_shorter [OF assms] tx_complete_shorter [OF assms(2,1,4,3)]
  by simp

text \<open>What the loop returns, told from the verdicts and pauses of its run.\<close>

definition result_of ::
  "DaliRequest \<Rightarrow> PhyResult list \<Rightarrow> u32 list \<Rightarrow> u8 \<Rightarrow> DaliTransactionResult \<Rightarrow> DaliTransactionResult"
where
  "result_of request rs ds b start =
     \<lparr>tr_status = mapTerminalStatus (last rs),
      tr_response = (if last rs = PhyOk \<and> rq_expectsResponse request then Some b
                     else tr_response start),
      tr_attempts = tr_attempts start + word_of_nat (length rs),
      tr_lastPhyResult = last rs,
      tr_retryDelayTotalMs = tr_retryDelayTotalMs start + sum_list ds\<rparr>"

lemma mapTerminalStatus_retryable: "isRetryable r \<Longrightarrow> mapTerminalStatus r = TsRetriesExhausted"
  by (auto simp: isRetryable_def)

lemma isRetryable_not_Ok: "isRetryable r \<Longrightarrow> r \<noteq> PhyOk"
  by (auto simp: isRetryable_def)

text \<open>One turn of the loop: it ends after the exchange, or pauses and goes on.\<close>

lemma execute_loop_ends:
  assumes "attempt \<le> rq_maxRetries request" "exchange ops request w = (r, b, w1)"
    and "\<not> (isRetryable r \<and> attempt \<noteq> rq_maxRetries request)"
  shows "execute_loop ops request attempt result w = (result_of request [r] [] b result, w1)"
  using assms
  by (auto simp: execute_loop.simps [of ops request attempt result w] Let_def result_of_def
      mapTerminalStatus_retryable)

lemma execute_loop_goes_on:
  assumes "attempt < rq_maxRetries request" "exchange ops request w = (r, b, w1)" "isRetryable r"
    and "pause ops attempt w1 = (d, w2)"
  shows "execute_loop ops request attempt result w =
    execute_loop ops request (attempt + 1) (result\<lparr>tr_attempts := tr_attempts result + 1,
      tr_lastPhyResult := r, tr_retryDelayTotalMs := tr_retryDelayTotalMs result + d\<rparr>) w2"
proof -
  have "attempt \<noteq> rq_maxRetries request" "attempt \<le> rq_maxRetries request" using assms(1) by auto
  then show ?thesis using assms(2-4) isRetryable_not_Ok [OF assms(3)]
    by (simp add: execute_loop.simps [of ops request attempt result w] Let_def)
qed

lemma execute_loop_run:
  assumes "attempt \<le> rq_maxRetries request"
  shows "\<exists>rs ds b w'. tx_run ops request (unat attempt) w rs ds b w' \<and>
    execute_loop ops request attempt result w = (result_of request rs ds b result, w') \<and>
    unat attempt + length rs \<le> Suc (unat (rq_maxRetries request)) \<and>
    (isRetryable (List.last rs) \<longrightarrow> unat attempt + length rs = Suc (unat (rq_maxRetries request)))"
  using assms
proof (induction ops request attempt result w rule: execute_loop.induct)
  case (1 ops request attempt result w)
  obtain r b w1 where ex: "exchange ops request w = (r, b, w1)" by (cases "exchange ops request w")
  have bound: "unat attempt \<le> unat (rq_maxRetries request)" using 1(2) by (simp add: word_le_nat_alt)
  show ?case
  proof (cases "isRetryable r \<and> attempt \<noteq> rq_maxRetries request")
    case False
    have "execute_loop ops request attempt result w = (result_of request [r] [] b result, w1)"
      by (rule execute_loop_ends [OF 1(2) ex False])
    moreover have "tx_run ops request (unat attempt) w [r] [] b w1" using ex by (rule tx_run.last)
    ultimately show ?thesis using bound False
      by (intro exI [of _ "[r]"] exI [of _ "[]"] exI [of _ b] exI [of _ w1]) auto
  next
    case True
    then have r: "isRetryable r" and lt: "attempt < rq_maxRetries request" using 1(2) by auto
    obtain d w2 where p: "pause ops attempt w1 = (d, w2)" by (cases "pause ops attempt w1")
    let ?next = "result\<lparr>tr_attempts := tr_attempts result + 1, tr_lastPhyResult := r,
      tr_retryDelayTotalMs := tr_retryDelayTotalMs result + d\<rparr>"
    have unfold: "execute_loop ops request attempt result w =
        execute_loop ops request (attempt + 1) ?next w2"
      by (rule execute_loop_goes_on [OF lt ex r p])
    have "\<exists>rs ds b w'. tx_run ops request (unat (attempt + 1)) w2 rs ds b w' \<and>
      execute_loop ops request (attempt + 1) ?next w2 = (result_of request rs ds b ?next, w') \<and>
      unat (attempt + 1) + length rs \<le> Suc (unat (rq_maxRetries request)) \<and>
      (isRetryable (List.last rs) \<longrightarrow>
        unat (attempt + 1) + length rs = Suc (unat (rq_maxRetries request)))"
      using 1(1) [OF 1(2) refl ex [symmetric] refl refl] True isRetryable_not_Ok [OF r] p
        inc_le_of_less [OF lt] by simp
    then obtain rs ds b' w3 where run: "tx_run ops request (Suc (unat attempt)) w2 rs ds b' w3"
      and res: "execute_loop ops request (attempt + 1) ?next w2 = (result_of request rs ds b' ?next, w3)"
      and len: "Suc (unat attempt) + length rs \<le> Suc (unat (rq_maxRetries request))"
        "isRetryable (List.last rs) \<longrightarrow> Suc (unat attempt) + length rs = Suc (unat (rq_maxRetries request))"
      using lt by auto
    have "rs \<noteq> []" using tx_run_lengths [OF run] by auto
    then have "result_of request rs ds b' ?next = result_of request (r # rs) (d # ds) b' result"
      by (simp add: result_of_def)
    moreover have "tx_run ops request (unat attempt) w (r # rs) (d # ds) b' w3"
      using ex r p run by (intro tx_run.again) auto
    ultimately show ?thesis using unfold res len \<open>rs \<noteq> []\<close>
      by (intro exI [of _ "r # rs"] exI [of _ "d # ds"] exI [of _ b'] exI [of _ w3]) auto
  qed
qed

lemma execute_valid:
  assumes "request_valid request"
  shows "execute ops request w = execute_loop ops request 0 DaliTransactionResult_init w"
  using assms by (auto simp: execute_def request_valid_def not_less)

lemma attempts_of_length:
  assumes "n \<le> Suc (unat m)" "m \<le> kAbsoluteMaxRetries"
  shows "unat (word_of_nat n :: u8) = n"
proof -
  have "unat m \<le> 8" using assms(2) by (simp add: kAbsoluteMaxRetries_def word_le_nat_alt)
  then show ?thesis using assms(1) by (simp add: unsigned_of_nat take_bit_nat_eq_self)
qed

section \<open>Jitter and pauses\<close>

text \<open>A jitter source never exceeds the bound it is asked for.\<close>

locale jitter_source =
  fixes source :: "'j IJitterSource"
    and jinv :: "'j \<Rightarrow> bool"
  assumes next_bound: "jinv j \<Longrightarrow> m \<noteq> - 1 \<Longrightarrow> fst (js_next source m j) \<le> m"
    and next_keeps: "jinv j \<Longrightarrow> jinv (snd (js_next source m j))"

lemma exchange_frame [frames]:
  "exchange ops request w = (r, b, w') \<Longrightarrow> bus_jitter w' = bus_jitter w \<and> bus_delay w' = bus_delay w"
  by (auto simp: exchange_def Let_def split: prod.splits if_splits)

locale jittered_service =
  jitter: jitter_source "ops_jitter ops" jinv
  for ops :: "('p, 'd, 'j) bus_ops" and jinv :: "'j \<Rightarrow> bool"
begin

lemma pause_keeps_jitter: "jinv (bus_jitter w) \<Longrightarrow> pause ops i w = (d, w') \<Longrightarrow> jinv (bus_jitter w')"
  using jitter.next_keeps [of "bus_jitter w" kMaximumJitterMs]
  by (auto simp: pause_def Let_def split: prod.splits)

lemma pause_bounds:
  assumes "jinv (bus_jitter w)" "pause ops i w = (d, w')"
  shows "unat (baseRetryDelayMs i) \<le> unat d \<and> unat d \<le> unat (baseRetryDelayMs i) + 25"
proof -
  define j where "j = fst (js_next (ops_jitter ops) kMaximumJitterMs (bus_jitter w))"
  have "j \<le> 25"
    using assms(1) jitter.next_bound [of "bus_jitter w" kMaximumJitterMs]
    by (simp add: j_def kMaximumJitterMs_def)
  then have "unat j \<le> 25" by (simp add: word_le_nat_alt)
  moreover have "d = baseRetryDelayMs i + j"
    using assms(2) by (auto simp: pause_def j_def Let_def split: prod.splits)
  moreover have "unat (baseRetryDelayMs i) \<le> 2000" by (simp add: baseRetryDelayMs_def)
  ultimately show ?thesis by (simp add: unat_word_ariths)
qed

lemma run_pauses:
  "tx_run ops request i w rs ds b w' \<Longrightarrow> jinv (bus_jitter w) \<Longrightarrow> k < length ds \<Longrightarrow>
   unat (baseRetryDelayMs (word_of_nat (i + k))) \<le> unat (ds ! k) \<and>
   unat (ds ! k) \<le> unat (baseRetryDelayMs (word_of_nat (i + k))) + 25"
proof (induction arbitrary: k rule: tx_run.induct)
  case (again w r b w1 i d w2 rs ds b' w3)
  then have w1: "jinv (bus_jitter w1)" using exchange_frame by metis
  with again have w2: "jinv (bus_jitter w2)" using pause_keeps_jitter by metis
  show ?case
  proof (cases k)
    case 0
    then show ?thesis using pause_bounds [OF w1 again(3)] by simp
  next
    case (Suc m)
    then show ?thesis using again.IH [OF w2, of m] again.prems(2) by simp
  qed
qed simp

lemma run_total:
  assumes run: "tx_run ops request 0 w rs ds b w'" and w: "jinv (bus_jitter w)" and n: "length ds \<le> 8"
  shows "unat (sum_list ds) = sum_list (map unat ds) \<and> sum_list (map unat ds) \<le> 12800"
proof -
  let ?f = "\<lambda>k. unat (baseRetryDelayMs (word_of_nat k)) + 25"
  have "sum_list (map unat ds) = (\<Sum>k < length ds. unat (ds ! k))"
    by (simp add: sum_list_sum_nth atLeast0LessThan)
  also have "\<dots> \<le> (\<Sum>k < length ds. ?f k)"
    using run_pauses [OF run w] by (intro sum_mono) simp
  also have "\<dots> \<le> (\<Sum>k < 8. ?f k)" using n by (intro sum_mono2) auto
  also have "\<dots> = 12800" by code_simp
  finally have le: "sum_list (map unat ds) \<le> 12800" .
  have "unat (sum_list xs) = sum_list (map unat xs)" if "sum_list (map unat xs) < 2 ^ 32" for xs :: "u32 list"
    using that by (induction xs) (auto simp: unat_word_ariths)
  then show ?thesis using le by simp
qed

end

text \<open>The whole environment of the service: PHY and jitter source both keep their contracts.\<close>

locale transaction_env =
  jittered_service ops jinv + phy: dali_phy "ops_phy ops" pinv
  for ops :: "('p, 'd, 'j) bus_ops" and jinv pinv
begin

lemma exchange_keeps:
  "pinv (bus_phy w) \<Longrightarrow> exchange ops request w = (r, b, w') \<Longrightarrow> pinv (bus_phy w')"
  using phy.transmit_keeps [of "bus_phy w" "frame_raw (rq_frame request)"]
    phy.receive_keeps [of "snd (phy_transmit (ops_phy ops) (frame_raw (rq_frame request)) (bus_phy w))"]
  by (auto simp: exchange_def Let_def split: prod.splits if_splits) (metis sndI)+

lemma pause_phy: "pause ops i w = (d, w') \<Longrightarrow> bus_phy w' = bus_phy w"
  by (auto simp: pause_def Let_def split: prod.splits)

lemma run_keeps:
  "tx_run ops request i w rs ds b w' \<Longrightarrow> pinv (bus_phy w) \<and> jinv (bus_jitter w) \<Longrightarrow>
   pinv (bus_phy w') \<and> jinv (bus_jitter w')"
proof (induction rule: tx_run.induct)
  case (last w r b w' i)
  then show ?case using exchange_keeps exchange_frame by metis
next
  case (again w r b w1 i d w2 rs ds b' w3)
  then show ?case using exchange_keeps exchange_frame pause_phy pause_keeps_jitter by metis
qed

lemma execute_keeps:
  assumes "pinv (bus_phy w)" "jinv (bus_jitter w)"
  shows "pinv (bus_phy (snd (execute ops request w))) \<and> jinv (bus_jitter (snd (execute ops request w)))"
proof (cases "request_valid request")
  case True
  then show ?thesis
    using execute_loop_run [of 0 request ops w DaliTransactionResult_init] run_keeps assms
    by (fastforce simp: execute_valid)
qed (use assms in \<open>auto simp: execute_def request_valid_def\<close>)

end

section \<open>Properties\<close>

text \<open>
  C3: the retry policy. For a valid request \<open>execute\<close> makes a run of exchanges in which
  each one but the last failed with timeout, busy or collision; it stops at the first other
  verdict or after \<open>maxRetries + 1\<close> attempts, pauses between attempts only, and returns the
  status, response, attempt count, last verdict and total pause of exactly that run. The policy
  leaves no choice: there is only one such run.
\<close>

theorem execute_follows_policy:
  assumes "request_valid request"
  shows "\<exists>rs ds b w'. tx_run ops request 0 w rs ds b w' \<and> tx_complete request rs \<and>
    (\<forall>rs' ds' b' w''. tx_run ops request 0 w rs' ds' b' w'' \<and> tx_complete request rs' \<longrightarrow>
      (rs', ds', b', w'') = (rs, ds, b, w')) \<and>
    execute ops request w = (result_of request rs ds b DaliTransactionResult_init, w') \<and>
    length rs = Suc (length ds) \<and> (\<forall>r \<in> set (butlast rs). isRetryable r)"
proof -
  obtain rs ds b w' where run: "tx_run ops request 0 w rs ds b w'"
    and res: "execute ops request w = (result_of request rs ds b DaliTransactionResult_init, w')"
    and c: "tx_complete request rs"
    using execute_loop_run [of 0 request ops w DaliTransactionResult_init]
    by (auto simp: execute_valid [OF assms] tx_complete_def)
  with tx_run_lengths [OF run] tx_run_retryable [OF run] tx_complete_unique [OF run _ c]
  show ?thesis by blast
qed

text \<open>
  C4: the fields of a result agree. For a valid request the status is the verdict of the
  last exchange mapped by \<open>mapTerminalStatus\<close> (so the fall-through after the loop is never
  the answer of a PHY that does not itself report an internal error); a response is present
  exactly when the transaction succeeded and asked for one; there are between 1 and
  \<open>maxRetries + 1\<close> attempts, at most 9, and the retries are exhausted only after all of them.
\<close>

theorem execute_result_consistent:
  assumes "request_valid request" and "execute ops request w = (res, w')"
  shows "tr_status res = mapTerminalStatus (tr_lastPhyResult res) \<and>
    (tr_response res \<noteq> None \<longleftrightarrow> tr_status res = TsOk \<and> rq_expectsResponse request) \<and>
    1 \<le> unat (tr_attempts res) \<and> unat (tr_attempts res) \<le> unat (rq_maxRetries request) + 1 \<and>
    unat (tr_attempts res) \<le> 9 \<and>
    (tr_status res = TsRetriesExhausted \<longrightarrow> unat (tr_attempts res) = unat (rq_maxRetries request) + 1)"
proof -
  obtain rs ds b w'' where run: "tx_run ops request 0 w rs ds b w''"
    and eq: "execute_loop ops request 0 DaliTransactionResult_init w =
      (result_of request rs ds b DaliTransactionResult_init, w'')"
    and len: "length rs \<le> Suc (unat (rq_maxRetries request))"
      "isRetryable (List.last rs) \<longrightarrow> length rs = Suc (unat (rq_maxRetries request))"
    using execute_loop_run [of 0 request ops w DaliTransactionResult_init] by auto
  have res: "res = result_of request rs ds b DaliTransactionResult_init"
    using assms(2) by (simp add: execute_valid [OF assms(1)] eq)
  have m: "rq_maxRetries request \<le> kAbsoluteMaxRetries" using assms(1) by (simp add: request_valid_def)
  then have m8: "unat (rq_maxRetries request) \<le> 8" by (simp add: kAbsoluteMaxRetries_def word_le_nat_alt)
  have n: "unat (word_of_nat (length rs) :: u8) = length rs" using attempts_of_length [OF len(1) m] .
  have pos: "1 \<le> length rs" using tx_run_lengths [OF run] by simp
  have retr: "mapTerminalStatus r = TsRetriesExhausted \<longleftrightarrow> isRetryable r"
    and ok: "mapTerminalStatus r = TsOk \<longleftrightarrow> r = PhyOk" for r
    by (cases r; simp add: isRetryable_def)+
  show ?thesis using len m8 n pos
    by (auto simp: res result_of_def DaliTransactionResult_init_def retr ok)
qed

text \<open>
  A request with a zero timeout or more than 8 retries is refused before any bus
  traffic: no attempt, no response, and PHY, delay provider and jitter source untouched.
\<close>

theorem execute_rejects_invalid:
  assumes "rq_timeoutMs request = 0 \<or> 8 < rq_maxRetries request"
  shows "execute ops request w =
    (\<lparr>tr_status = TsInvalidRequest, tr_response = None, tr_attempts = 0,
      tr_lastPhyResult = PhyInvalidArgument, tr_retryDelayTotalMs = 0\<rparr>, w)"
  using assms by (simp add: execute_def kAbsoluteMaxRetries_def DaliTransactionResult_init_def)

text \<open>
  C5: bounded back-off. With a jitter source that respects its bound, the k-th pause lies
  between the stepped delay (100, 500, then 2000 ms) and 25 ms more, the reported total is
  the exact sum of the pauses (32-bit arithmetic does not wrap) and at most 12800 ms.
\<close>

theorem execute_backoff_bounded:
  assumes "request_valid request" and "jitter_source (ops_jitter ops) jinv" and "jinv (bus_jitter w)"
    and "execute ops request w = (res, w')"
  shows "\<exists>rs ds b. tx_run ops request 0 w rs ds b w' \<and>
    unat (tr_retryDelayTotalMs res) = sum_list (map unat ds) \<and> sum_list (map unat ds) \<le> 12800 \<and>
    (\<forall>k < length ds. unat (baseRetryDelayMs (word_of_nat k)) \<le> unat (ds ! k) \<and>
      unat (ds ! k) \<le> unat (baseRetryDelayMs (word_of_nat k)) + 25)"
proof -
  have js: "jittered_service ops jinv" using assms(2) by (simp add: jittered_service_def)
  obtain rs ds b where run: "tx_run ops request 0 w rs ds b w'"
    and res: "res = result_of request rs ds b DaliTransactionResult_init"
    and len: "length rs \<le> Suc (unat (rq_maxRetries request))"
    using execute_loop_run [of 0 request ops w DaliTransactionResult_init] assms(4)
    by (auto simp: execute_valid [OF assms(1)])
  have "length ds \<le> 8"
    using tx_run_lengths [OF run] len assms(1)
    by (simp add: request_valid_def kAbsoluteMaxRetries_def word_le_nat_alt)
  then show ?thesis
    using run jittered_service.run_total [OF js run assms(3)]
      jittered_service.run_pauses [OF js run assms(3)]
    by (intro exI [of _ rs] exI [of _ ds] exI [of _ b])
      (simp add: res result_of_def DaliTransactionResult_init_def)
qed

end
