(* ===== verification/Quality_Tracker.thy ===== *)
theory Quality_Tracker
  imports Dali_Transaction
begin

text \<open>
  The communication-quality counters of \<open>dali_transaction.h/.cpp\<close>: every transaction adds
  one to the total and to exactly one cause; each counter stops at its largest value.
\<close>

record CommunicationQualityCounters =
  cc_total :: u32
  cc_successes :: u32
  cc_timeouts :: u32
  cc_collisions :: u32
  cc_busy :: u32
  cc_busPowerLosses :: u32
  cc_transceiverFaults :: u32
  cc_otherFailures :: u32

record CommunicationQualitySnapshot =
  cs_counters :: CommunicationQualityCounters
  cs_failures :: u32
  cs_successRate :: f32
  cs_noData :: bool

definition CommunicationQualityCounters_init :: CommunicationQualityCounters where
  "CommunicationQualityCounters_init = \<lparr>cc_total = 0, cc_successes = 0, cc_timeouts = 0,
     cc_collisions = 0, cc_busy = 0, cc_busPowerLosses = 0, cc_transceiverFaults = 0,
     cc_otherFailures = 0\<rparr>"

definition incrementSaturating :: "u32 \<Rightarrow> u32" where
  "incrementSaturating value = sat_inc value"

fun count_failure :: "PhyResult \<Rightarrow> CommunicationQualityCounters \<Rightarrow> CommunicationQualityCounters" where
  "count_failure PhyTimeout c = c\<lparr>cc_timeouts := incrementSaturating (cc_timeouts c)\<rparr>"
| "count_failure PhyCollision c = c\<lparr>cc_collisions := incrementSaturating (cc_collisions c)\<rparr>"
| "count_failure PhyBusy c = c\<lparr>cc_busy := incrementSaturating (cc_busy c)\<rparr>"
| "count_failure PhyBusPowerLost c =
     c\<lparr>cc_busPowerLosses := incrementSaturating (cc_busPowerLosses c)\<rparr>"
| "count_failure PhyTransceiverFault c =
     c\<lparr>cc_transceiverFaults := incrementSaturating (cc_transceiverFaults c)\<rparr>"
| "count_failure _ c = c\<lparr>cc_otherFailures := incrementSaturating (cc_otherFailures c)\<rparr>"

definition record_result ::
  "DaliTransactionResult \<Rightarrow> CommunicationQualityCounters \<Rightarrow> CommunicationQualityCounters"
where
  "record_result result counters =
     (let c = counters\<lparr>cc_total := incrementSaturating (cc_total counters)\<rparr>
      in if tr_status result = TsOk
         then c\<lparr>cc_successes := incrementSaturating (cc_successes c)\<rparr>
         else count_failure (tr_lastPhyResult result) c)"

definition quality_snapshot :: "CommunicationQualityCounters \<Rightarrow> CommunicationQualitySnapshot" where
  "quality_snapshot c =
     (let noData = (cc_total c = 0);
          failures = (if cc_total c \<ge> cc_successes c then cc_total c - cc_successes c else 0);
          successRate = (if noData then f32_lit 1
                         else f32_div (f32_of_word (cc_successes c)) (f32_of_word (cc_total c)))
      in \<lparr>cs_counters = c, cs_failures = failures, cs_successRate = successRate, cs_noData = noData\<rparr>)"

section \<open>Counting\<close>

definition failure_sum :: "CommunicationQualityCounters \<Rightarrow> nat" where
  "failure_sum c = unat (cc_timeouts c) + unat (cc_collisions c) + unat (cc_busy c)
     + unat (cc_busPowerLosses c) + unat (cc_transceiverFaults c) + unat (cc_otherFailures c)"

definition counters_after :: "DaliTransactionResult list \<Rightarrow> CommunicationQualityCounters" where
  "counters_after rs = fold record_result rs CommunicationQualityCounters_init"

lemma counters_after_snoc: "counters_after (rs @ [r]) = record_result r (counters_after rs)"
  by (simp add: counters_after_def)

lemma sat_inc_nonzero: "sat_inc w \<noteq> 0"
  using unat_sat_inc [of w] by (cases "w = - 1") (auto simp: sat_inc_def)

lemma cc_total_record: "cc_total (record_result r c) = sat_inc (cc_total c)"
  by (cases "tr_lastPhyResult r") (simp_all add: record_result_def incrementSaturating_def Let_def)

lemma cc_successes_record:
  "cc_successes (record_result r c) = (if tr_status r = TsOk then sat_inc (cc_successes c) else cc_successes c)"
  by (cases "tr_lastPhyResult r") (simp_all add: record_result_def incrementSaturating_def Let_def)

lemma successes_le_total: "cc_successes (counters_after rs) \<le> cc_total (counters_after rs)"
proof (induction rs rule: rev_induct)
  case Nil
  then show ?case by (simp add: counters_after_def CommunicationQualityCounters_init_def)
next
  case (snoc r rs)
  then show ?case
    using sat_inc_mono [OF snoc] sat_inc_ge [of "cc_total (counters_after rs)"]
    by (auto simp: counters_after_snoc cc_total_record cc_successes_record)
qed

lemma unat_sat_inc_below: "unat w < 2 ^ LENGTH('a) - 1 \<Longrightarrow> unat (sat_inc w) = Suc (unat w)"
  for w :: "'a::len word"
  by (intro unat_sat_inc) (auto simp: unsigned_minus_1_eq_mask mask_eq_exp_minus_1)

text \<open>A counter that one kind of result raises counts the results of that kind.\<close>

lemma counter_exact:
  fixes f :: "CommunicationQualityCounters \<Rightarrow> u32"
  assumes step: "\<And>r c. f (record_result r c) = (if P r then sat_inc (f c) else f c)"
    and zero: "f CommunicationQualityCounters_init = 0" and n: "length rs < 2 ^ 32"
  shows "unat (f (counters_after rs)) = length (filter P rs)"
  using n
proof (induction rs rule: rev_induct)
  case Nil
  then show ?case by (simp add: counters_after_def zero)
next
  case (snoc r rs)
  moreover have "length (filter P rs) < 2 ^ 32 - 1"
    using snoc.prems by (auto intro: le_less_trans [OF length_filter_le])
  ultimately show ?case by (simp add: counters_after_snoc step unat_sat_inc_below)
qed

definition failed_with :: "PhyResult list \<Rightarrow> DaliTransactionResult \<Rightarrow> bool" where
  "failed_with causes r \<longleftrightarrow> tr_status r \<noteq> TsOk \<and> tr_lastPhyResult r \<in> set causes"

lemma causes_record:
  "cc_timeouts (record_result r c) = (if failed_with [PhyTimeout] r then sat_inc (cc_timeouts c) else cc_timeouts c)"
  "cc_collisions (record_result r c) = (if failed_with [PhyCollision] r then sat_inc (cc_collisions c) else cc_collisions c)"
  "cc_busy (record_result r c) = (if failed_with [PhyBusy] r then sat_inc (cc_busy c) else cc_busy c)"
  "cc_busPowerLosses (record_result r c) =
     (if failed_with [PhyBusPowerLost] r then sat_inc (cc_busPowerLosses c) else cc_busPowerLosses c)"
  "cc_transceiverFaults (record_result r c) =
     (if failed_with [PhyTransceiverFault] r then sat_inc (cc_transceiverFaults c) else cc_transceiverFaults c)"
  "cc_otherFailures (record_result r c) =
     (if failed_with [PhyOk, PhyInvalidArgument, PhyNotInitialised, PhyInternalError] r
      then sat_inc (cc_otherFailures c) else cc_otherFailures c)"
  by (cases "tr_lastPhyResult r"; simp add: record_result_def incrementSaturating_def failed_with_def Let_def)+

lemma causes_exact:
  assumes "length rs < 2 ^ 32"
  shows "unat (cc_total (counters_after rs)) = length rs"
    "unat (cc_successes (counters_after rs)) = length (filter (\<lambda>r. tr_status r = TsOk) rs)"
    "unat (cc_timeouts (counters_after rs)) = length (filter (failed_with [PhyTimeout]) rs)"
    "unat (cc_collisions (counters_after rs)) = length (filter (failed_with [PhyCollision]) rs)"
    "unat (cc_busy (counters_after rs)) = length (filter (failed_with [PhyBusy]) rs)"
    "unat (cc_busPowerLosses (counters_after rs)) = length (filter (failed_with [PhyBusPowerLost]) rs)"
    "unat (cc_transceiverFaults (counters_after rs)) = length (filter (failed_with [PhyTransceiverFault]) rs)"
    "unat (cc_otherFailures (counters_after rs)) =
       length (filter (failed_with [PhyOk, PhyInvalidArgument, PhyNotInitialised, PhyInternalError]) rs)"
  using counter_exact [of cc_total "\<lambda>r. True" rs] assms
    counter_exact [OF cc_successes_record _ assms] counter_exact [OF causes_record(1) _ assms]
    counter_exact [OF causes_record(2) _ assms] counter_exact [OF causes_record(3) _ assms]
    counter_exact [OF causes_record(4) _ assms] counter_exact [OF causes_record(5) _ assms]
    counter_exact [OF causes_record(6) _ assms]
  by (simp_all add: cc_total_record CommunicationQualityCounters_init_def)

lemma causes_cover:
  "length (filter (failed_with [PhyTimeout]) rs) + length (filter (failed_with [PhyCollision]) rs) +
   length (filter (failed_with [PhyBusy]) rs) + length (filter (failed_with [PhyBusPowerLost]) rs) +
   length (filter (failed_with [PhyTransceiverFault]) rs) +
   length (filter (failed_with [PhyOk, PhyInvalidArgument, PhyNotInitialised, PhyInternalError]) rs) =
   length (filter (\<lambda>r. tr_status r \<noteq> TsOk) rs)"
proof (induction rs)
  case (Cons r rs)
  then show ?case by (cases "tr_lastPhyResult r") (simp_all add: failed_with_def)
qed simp

section \<open>Properties\<close>

text \<open>
  C8: the counters account for every transaction. After fewer than \<open>2^32\<close> recorded
  results the total is their number, the successes are the results with status \<open>Ok\<close>, each
  failure counter is the number of failed results whose last verdict is its cause, every failed
  result is counted under exactly one cause, and the snapshot reports exactly that many failures.
\<close>

theorem quality_counters_exact:
  assumes "length rs < 2 ^ 32"
  shows "unat (cc_total (counters_after rs)) = length rs \<and>
    unat (cc_successes (counters_after rs)) = length (filter (\<lambda>r. tr_status r = TsOk) rs) \<and>
    unat (cc_timeouts (counters_after rs)) = length (filter (failed_with [PhyTimeout]) rs) \<and>
    unat (cc_collisions (counters_after rs)) = length (filter (failed_with [PhyCollision]) rs) \<and>
    unat (cc_busy (counters_after rs)) = length (filter (failed_with [PhyBusy]) rs) \<and>
    unat (cc_busPowerLosses (counters_after rs)) = length (filter (failed_with [PhyBusPowerLost]) rs) \<and>
    unat (cc_transceiverFaults (counters_after rs)) = length (filter (failed_with [PhyTransceiverFault]) rs) \<and>
    failure_sum (counters_after rs) = length (filter (\<lambda>r. tr_status r \<noteq> TsOk) rs) \<and>
    unat (cs_failures (quality_snapshot (counters_after rs))) = failure_sum (counters_after rs)"
proof -
  let ?c = "counters_after rs"
  note exact = causes_exact [OF assms]
  have sum: "failure_sum ?c = length (filter (\<lambda>r. tr_status r \<noteq> TsOk) rs)"
    using causes_cover [of rs] by (simp add: failure_sum_def exact)
  have "unat (cc_total ?c - cc_successes ?c) = unat (cc_total ?c) - unat (cc_successes ?c)"
    using successes_le_total [of rs] by (simp add: unat_sub)
  then have "unat (cs_failures (quality_snapshot ?c)) = failure_sum ?c"
    using successes_le_total [of rs] sum_length_filter_compl [of "\<lambda>r. tr_status r = TsOk" rs]
    by (simp add: quality_snapshot_def Let_def sum exact)
  with exact sum show ?thesis by simp
qed

theorem quality_counters_exact_witness:
  "unat (cc_total (counters_after [DaliTransactionResult_init])) = 1 \<and>
   failure_sum (counters_after [DaliTransactionResult_init]) = 1"
  using quality_counters_exact [of "[DaliTransactionResult_init]"]
  by (simp add: DaliTransactionResult_init_def)

text \<open>
  The success rate is a proper ratio for every history, saturated counters included:
  it is 1 with no data flagged before the first transaction, and afterwards never NaN,
  never below 0 and never above 1.
\<close>

theorem quality_success_rate_bounded:
  "cs_noData (quality_snapshot (counters_after rs)) = (rs = []) \<and>
   (rs = [] \<longrightarrow> cs_successRate (quality_snapshot (counters_after rs)) = f32_lit 1) \<and>
   f32_le (F_Zero False) (cs_successRate (quality_snapshot (counters_after rs))) \<and>
   f32_le (cs_successRate (quality_snapshot (counters_after rs))) (f32_lit 1)"
proof -
  let ?c = "counters_after rs"
  have nd: "cc_total ?c = 0 \<longleftrightarrow> rs = []"
  proof (cases rs rule: rev_cases)
    case Nil
    then show ?thesis by (simp add: counters_after_def CommunicationQualityCounters_init_def)
  next
    case (snoc ys r)
    then show ?thesis by (simp add: counters_after_snoc cc_total_record sat_inc_nonzero)
  qed
  have unit: "f32_le (F_Zero False) (f32_lit 1)" "f32_le (f32_lit 1) (f32_lit 1)"
    using f32_round_sign(1) [of 1] by simp_all
  show ?thesis
  proof (cases "cc_total ?c = 0")
    case True
    then show ?thesis using nd unit by (simp add: quality_snapshot_def Let_def)
  next
    case False
    then show ?thesis
      using nd f32_ratio_unit [OF successes_le_total [of rs] False]
      by (simp add: quality_snapshot_def Let_def)
  qed
qed

theorem quality_success_rate_bounded_witness:
  "cs_noData (quality_snapshot (counters_after [DaliTransactionResult_init])) = False \<and>
   f32_le (cs_successRate (quality_snapshot (counters_after [DaliTransactionResult_init]))) (f32_lit 1)"
  using quality_success_rate_bounded [of "[DaliTransactionResult_init]"] by simp

end
