(* ===== verification/Response_Parser.thy ===== *)
theory Response_Parser
  imports Dali_Frame
begin

text \<open>
  \<open>dali_response_parser.h/.cpp\<close>: a PHY verdict becomes the quality of a backward response,
  and a response becomes a reading of a flag or of the eight status bits.
\<close>

record BackwardResponse =
  br_value :: u8
  br_quality :: ReadingQuality

record BasicStatus =
  bs_controlGearFailure :: bool
  bs_lampFailure :: bool
  bs_lampPowerOn :: bool
  bs_limitError :: bool
  bs_fadeRunning :: bool
  bs_resetState :: bool
  bs_missingShortAddress :: bool
  bs_powerFailure :: bool

definition BasicStatus_init :: BasicStatus where
  "BasicStatus_init = \<lparr>bs_controlGearFailure = False, bs_lampFailure = False,
     bs_lampPowerOn = False, bs_limitError = False, bs_fadeRunning = False,
     bs_resetState = False, bs_missingShortAddress = False, bs_powerFailure = False\<rparr>"

fun qualityFromPhyResult :: "PhyResult \<Rightarrow> ReadingQuality" where
  "qualityFromPhyResult PhyOk = RqValid"
| "qualityFromPhyResult PhyTimeout = RqTemporarilyUnavailable"
| "qualityFromPhyResult PhyBusy = RqTemporarilyUnavailable"
| "qualityFromPhyResult PhyCollision = RqTemporarilyUnavailable"
| "qualityFromPhyResult PhyBusPowerLost = RqInvalid"
| "qualityFromPhyResult PhyTransceiverFault = RqInvalid"
| "qualityFromPhyResult PhyInvalidArgument = RqInvalid"
| "qualityFromPhyResult PhyNotInitialised = RqInvalid"
| "qualityFromPhyResult PhyInternalError = RqInvalid"

definition unavailableReading :: "'a \<Rightarrow> ReadingQuality \<Rightarrow> 'a Reading" where
  "unavailableReading d quality = \<lparr>rd_value = d, rd_quality = quality, rd_uptimeMs = 0,
     rd_unixTimeSeconds = 0, rd_unixTimeValid = False\<rparr>"

definition makeBackwardResponse :: "PhyResult \<Rightarrow> u8 \<Rightarrow> BackwardResponse" where
  "makeBackwardResponse result value = \<lparr>br_value = value, br_quality = qualityFromPhyResult result\<rparr>"

definition parseYesNo :: "BackwardResponse \<Rightarrow> bool Reading" where
  "parseYesNo response =
     (if br_quality response \<noteq> RqValid then unavailableReading False (br_quality response)
      else Reading_valid (br_value response \<noteq> 0) 0 0 False)"

definition status_of_byte :: "u8 \<Rightarrow> BasicStatus" where
  "status_of_byte value =
     \<lparr>bs_controlGearFailure = (value AND 0x01 \<noteq> 0),
      bs_lampFailure = (value AND 0x02 \<noteq> 0),
      bs_lampPowerOn = (value AND 0x04 \<noteq> 0),
      bs_limitError = (value AND 0x08 \<noteq> 0),
      bs_fadeRunning = (value AND 0x10 \<noteq> 0),
      bs_resetState = (value AND 0x20 \<noteq> 0),
      bs_missingShortAddress = (value AND 0x40 \<noteq> 0),
      bs_powerFailure = (value AND 0x80 \<noteq> 0)\<rparr>"

definition parseBasicStatus :: "BackwardResponse \<Rightarrow> BasicStatus Reading" where
  "parseBasicStatus response =
     (if br_quality response \<noteq> RqValid then unavailableReading BasicStatus_init (br_quality response)
      else Reading_valid (status_of_byte (br_value response)) 0 0 False)"

section \<open>The status byte written back\<close>

text \<open>The byte with exactly the bits of a status set.\<close>

definition byte_of_status :: "BasicStatus \<Rightarrow> u8" where
  "byte_of_status s =
     (if bs_controlGearFailure s then 0x01 else 0) OR
     (if bs_lampFailure s then 0x02 else 0) OR
     (if bs_lampPowerOn s then 0x04 else 0) OR
     (if bs_limitError s then 0x08 else 0) OR
     (if bs_fadeRunning s then 0x10 else 0) OR
     (if bs_resetState s then 0x20 else 0) OR
     (if bs_missingShortAddress s then 0x40 else 0) OR
     (if bs_powerFailure s then 0x80 else 0)"

lemma status_of_byte_of_status: "status_of_byte (byte_of_status s) = s"
  by (cases s) (simp add: byte_of_status_def status_of_byte_def)

lemma byte_of_status_of_byte: "byte_of_status (status_of_byte b) = b"
proof (rule word_below_cases [where P = "\<lambda>v. byte_of_status (status_of_byte v) = v" and n = 256])
  have "unat b < 2 ^ LENGTH(8)" by (rule unsigned_less)
  then show "unat b < 256" by simp
  show "list_all (\<lambda>i. byte_of_status (status_of_byte (word_of_nat i)) = word_of_nat i) [0..<256]"
    by code_simp
qed

section \<open>Properties\<close>

text \<open>
  A status byte decodes without loss. On a valid response \<open>parseBasicStatus\<close> gives a
  valid reading of the one status whose bits are the byte, so different bytes give
  different statuses and every status has its byte.
\<close>

theorem parseBasicStatus_roundtrip:
  "byte_of_status (rd_value (parseBasicStatus (makeBackwardResponse PhyOk b))) = b \<and>
   rd_value (parseBasicStatus (makeBackwardResponse PhyOk (byte_of_status s))) = s \<and>
   rd_quality (parseBasicStatus (makeBackwardResponse PhyOk b)) = RqValid"
  by (simp add: parseBasicStatus_def makeBackwardResponse_def status_of_byte_of_status
      byte_of_status_of_byte Reading_valid_def)

text \<open>
  No fabricated values. A parsed reading has a value exactly when the PHY succeeded;
  after any other verdict the reading carries the default value, no time stamp, and a
  quality that tells a transient failure (timeout, busy, collision) from a hard one.
\<close>

theorem parsed_reading_needs_ok:
  "(hasValue (parseBasicStatus (makeBackwardResponse r b)) \<longleftrightarrow> r = PhyOk) \<and>
   (hasValue (parseYesNo (makeBackwardResponse r b)) \<longleftrightarrow> r = PhyOk) \<and>
   rd_quality (parseYesNo (makeBackwardResponse r b)) =
     (if r = PhyOk then RqValid
      else if r \<in> {PhyTimeout, PhyBusy, PhyCollision} then RqTemporarilyUnavailable else RqInvalid) \<and>
   rd_value (parseYesNo (makeBackwardResponse r b)) = (r = PhyOk \<and> b \<noteq> 0) \<and>
   rd_value (parseBasicStatus (makeBackwardResponse r b)) =
     (if r = PhyOk then status_of_byte b else BasicStatus_init)"
  by (cases r) (simp_all add: parseBasicStatus_def parseYesNo_def makeBackwardResponse_def
      unavailableReading_def hasValue_def Reading_valid_def)

end
