(* ===== verification/Protocol_Pipeline.thy ===== *)
theory Protocol_Pipeline
  imports Quality_Tracker Response_Parser
begin

text \<open>
  The one-request-at-a-time pipeline \<open>dali_protocol_pipeline.h\<close> and the query client
  \<open>pipeline_query_client.h/.cpp\<close> on top of it. The pipeline owns its queue and its quality
  counters; the transaction service it refers to is \<open>ops\<close> with the bus state \<open>pl_bus\<close>.
\<close>

section \<open>The pipeline\<close>

record ProcessedDaliRequest =
  pd_request :: DaliRequest
  pd_result :: DaliTransactionResult

record ('p, 'd, 'j) DaliProtocolPipeline =
  pl_queue :: DaliCommandQueue
  pl_quality :: CommunicationQualityCounters
  pl_bus :: "('p, 'd, 'j) bus"

definition pipeline_init :: "('p, 'd, 'j) bus \<Rightarrow> ('p, 'd, 'j) DaliProtocolPipeline" where
  "pipeline_init w = \<lparr>pl_queue = DaliCommandQueue_init,
     pl_quality = CommunicationQualityCounters_init, pl_bus = w\<rparr>"

definition pl_enqueue ::
  "DaliRequest \<Rightarrow> ('p, 'd, 'j) DaliProtocolPipeline \<Rightarrow> QueueResult \<times> ('p, 'd, 'j) DaliProtocolPipeline"
where
  "pl_enqueue request pl =
     (let (r, q) = q_enqueue request (pl_queue pl) in (r, pl\<lparr>pl_queue := q\<rparr>))"

definition pl_processNext ::
  "('p, 'd, 'j) bus_ops \<Rightarrow> ('p, 'd, 'j) DaliProtocolPipeline \<Rightarrow>
   ProcessedDaliRequest option \<times> ('p, 'd, 'j) DaliProtocolPipeline"
where
  "pl_processNext ops pl =
     (case q_pop (pl_queue pl) of
        (None, q) \<Rightarrow> (None, pl\<lparr>pl_queue := q\<rparr>)
      | (Some request, q) \<Rightarrow>
          let (result, w) = execute ops request (pl_bus pl)
          in (Some \<lparr>pd_request = request, pd_result = result\<rparr>,
              pl\<lparr>pl_queue := q, pl_bus := w, pl_quality := record_result result (pl_quality pl)\<rparr>))"

definition pl_quality_snapshot :: "('p, 'd, 'j) DaliProtocolPipeline \<Rightarrow> CommunicationQualitySnapshot" where
  "pl_quality_snapshot pl = quality_snapshot (pl_quality pl)"

definition pl_queued :: "('p, 'd, 'j) DaliProtocolPipeline \<Rightarrow> nat" where
  "pl_queued pl = q_size (pl_queue pl)"

text \<open>Nothing waits: the state between two calls of a client that owns the pipeline.\<close>

definition pl_idle :: "('p, 'd, 'j) DaliProtocolPipeline \<Rightarrow> bool" where
  "pl_idle pl \<longleftrightarrow> q_inv (pl_queue pl) \<and> q_list (pl_queue pl) = []"

lemma pipeline_init_idle [simp]: "pl_idle (pipeline_init w)"
  by (simp add: pl_idle_def pipeline_init_def keeps)

text \<open>
  Submitting one request: \<open>enqueue\<close>, then \<open>processNext\<close>. The request that is executed is
  the first of the queue after the insertion.
\<close>

definition pl_submit ::
  "('p, 'd, 'j) bus_ops \<Rightarrow> DaliRequest \<Rightarrow> ('p, 'd, 'j) DaliProtocolPipeline \<Rightarrow>
   ProcessedDaliRequest option \<times> ('p, 'd, 'j) DaliProtocolPipeline"
where
  "pl_submit ops request pl = pl_processNext ops (snd (pl_enqueue request pl))"

lemma pl_enqueue_idle:
  assumes "pl_idle pl"
  shows "fst (pl_enqueue request pl) = QrOk"
  using assms cq.pass_through(1) [of "pl_queue pl" request]
  by (cases "q_enqueue request (pl_queue pl)") (simp add: pl_enqueue_def pl_idle_def q_offer_def)

lemma pl_submit_idle:
  assumes "pl_idle pl" and ex: "execute ops request (pl_bus pl) = (result, w)"
  shows "\<exists>pl'. pl_submit ops request pl = (Some \<lparr>pd_request = request, pd_result = result\<rparr>, pl') \<and>
    pl_idle pl' \<and> pl_bus pl' = w \<and> pl_quality pl' = record_result result (pl_quality pl)"
proof -
  have q: "q_inv (pl_queue pl)" "q_list (pl_queue pl) = []" using assms(1) by (simp_all add: pl_idle_def)
  let ?q = "snd (q_enqueue request (pl_queue pl))"
  have "fst (q_pop ?q) = Some request" "q_list (snd (q_pop ?q)) = []" "q_inv (snd (q_pop ?q))"
    using cq.pass_through(2,3) [OF q, of request] q(1) by (simp_all add: q_offer_def keeps)
  then show ?thesis
    using ex by (cases "q_pop ?q") 
      (auto simp: pl_submit_def pl_enqueue_def pl_processNext_def pl_idle_def split: prod.splits)
qed

text \<open>On a shared queue the request just submitted may not be the one executed.\<close>

lemma pl_submit_waiting:
  assumes "q_ordered (pl_queue pl)" and "q_list (pl_queue pl) = r # rs"
    and "rq_priority r \<le> rq_priority request" and "length rs < 63"
    and "execute ops r (pl_bus pl) = (res, w')"
  obtains pl1 pl2 where "pl_enqueue request pl = (QrOk, pl1)"
    "pl_processNext ops pl1 = (Some \<lparr>pd_request = r, pd_result = res\<rparr>, pl2)"
    "request \<in> set (q_list (pl_queue pl2))" "pl_bus pl2 = w'"
proof -
  let ?q = "pl_queue pl"
  have q: "q_inv ?q" using assms(1) by (simp add: q_ordered_def)
  obtain q1 where e: "q_enqueue request ?q = (QrOk, q1)"
    using q_enqueue_result [OF q, of request] assms(2,4)
    by (cases "q_enqueue request ?q") (simp add: kQueueCapacity_def)
  have q1: "q_list q1 = r # insert_behind rq_priority request rs" "q_inv q1"
    using q_enqueue_list [OF q, of request] q_enqueue_inv [OF q, of request] e assms(2-4)
    by (simp_all add: kQueueCapacity_def)
  obtain q2 where o: "q_pop q1 = (Some r, q2)" and q2: "q_list q2 = insert_behind rq_priority request rs"
    using q_pop_result [OF q1(2)] q_pop_list [OF q1(2)] q1(1) by (cases "q_pop q1") auto
  have "pl_processNext ops (pl\<lparr>pl_queue := q1\<rparr>) =
      (Some \<lparr>pd_request = r, pd_result = res\<rparr>, pl\<lparr>pl_queue := q2, pl_bus := w',
        pl_quality := record_result res (pl_quality pl)\<rparr>)"
    using o assms(5) by (simp add: pl_processNext_def)
  from that [OF _ this] show thesis using e by (simp add: pl_enqueue_def q2)
qed

lemma pl_processNext_cases:
  assumes "q_inv (pl_queue pl)"
  shows "pl_processNext ops pl = (None, pl') \<longleftrightarrow> q_list (pl_queue pl) = [] \<and> pl' = pl"
  using assms q_pop_result [OF assms]
  by (cases "q_pop (pl_queue pl)")
    (auto simp: pl_processNext_def q_pop_def split: option.splits prod.splits list.splits if_splits)

section \<open>The query client\<close>

datatype DaliQueryOutcome =
    QoOk | QoNoResponse | QoCollision | QoBusy | QoBusFailure | QoHardwareFailure
  | QoQueueFull | QoInvalid

record DaliQueryResult =
  qr_outcome :: DaliQueryOutcome
  qr_response :: "u8 Reading"
  qr_attempts :: u8
  qr_phyResult :: PhyResult

text \<open>An \<open>IDaliQueryClient\<close>: its state \<open>'c\<close> and its one virtual method.\<close>

record 'c IDaliQueryClient =
  qc_query :: "ShortAddress \<Rightarrow> DaliCommand \<Rightarrow> CommandPriority \<Rightarrow> 'c \<Rightarrow> DaliQueryResult \<times> 'c"

text \<open>
  What the device manager relies on: an answered query carries a value and nothing else
  does, and a lost bus is reported as such in both fields it looks at.
\<close>

locale dali_query_client =
  fixes client :: "'c IDaliQueryClient"
    and cinv :: "'c \<Rightarrow> bool"
  assumes query_keeps: "cinv c \<Longrightarrow> cinv (snd (qc_query client a cmd prio c))"
    and query_value: "cinv c \<Longrightarrow>
      hasValue (qr_response (fst (qc_query client a cmd prio c))) \<longleftrightarrow>
      qr_outcome (fst (qc_query client a cmd prio c)) = QoOk"
    and query_bus_lost: "cinv c \<Longrightarrow>
      qr_phyResult (fst (qc_query client a cmd prio c)) = PhyBusPowerLost \<longleftrightarrow>
      qr_outcome (fst (qc_query client a cmd prio c)) = QoBusFailure"

fun outcome_of_phy :: "PhyResult \<Rightarrow> DaliQueryOutcome" where
  "outcome_of_phy PhyTimeout = QoNoResponse"
| "outcome_of_phy PhyCollision = QoCollision"
| "outcome_of_phy PhyBusy = QoBusy"
| "outcome_of_phy PhyBusPowerLost = QoBusFailure"
| "outcome_of_phy PhyTransceiverFault = QoHardwareFailure"
| "outcome_of_phy PhyNotInitialised = QoHardwareFailure"
| "outcome_of_phy PhyInternalError = QoHardwareFailure"
| "outcome_of_phy PhyInvalidArgument = QoInvalid"
| "outcome_of_phy PhyOk = QoInvalid"

definition outcomeFromResult :: "DaliTransactionResult \<Rightarrow> DaliQueryOutcome" where
  "outcomeFromResult result =
     (if tr_status result = TsOk \<and> tr_response result \<noteq> None then QoOk
      else outcome_of_phy (tr_lastPhyResult result))"

definition readingForResult :: "DaliTransactionResult \<Rightarrow> DaliQueryOutcome \<Rightarrow> u8 Reading" where
  "readingForResult result outcome =
     (case tr_response result of
        Some b \<Rightarrow>
          if outcome = QoOk then Reading_valid b 0 0 False
          else if outcome = QoNoResponse \<or> outcome = QoCollision \<or> outcome = QoBusy
          then Reading_temporarilyUnavailable 0 else Reading_invalid 0
      | None \<Rightarrow>
          if outcome = QoNoResponse \<or> outcome = QoCollision \<or> outcome = QoBusy
          then Reading_temporarilyUnavailable 0 else Reading_invalid 0)"

text \<open>The client's own fields and the pipeline it refers to.\<close>

record ('p, 'd, 'j) PipelineQueryClient =
  pc_pipeline :: "('p, 'd, 'j) DaliProtocolPipeline"
  pc_timeoutMs :: u32
  pc_maximumRetries :: u8
  pc_nextSequence :: u32

definition query_request ::
  "ShortAddress \<Rightarrow> DaliCommand \<Rightarrow> CommandPriority \<Rightarrow> ('p, 'd, 'j) PipelineQueryClient \<Rightarrow> DaliRequest"
where
  "query_request address command priority c =
     \<lparr>rq_frame = makeShortCommand address command, rq_expectsResponse = True,
      rq_timeoutMs = pc_timeoutMs c, rq_maxRetries = pc_maximumRetries c,
      rq_priority = priority, rq_deviceKey = sa_value address,
      rq_requestSequence = pc_nextSequence c\<rparr>"

definition answer_of_result :: "DaliTransactionResult \<Rightarrow> DaliQueryResult" where
  "answer_of_result result =
     \<lparr>qr_outcome = outcomeFromResult result,
      qr_response = readingForResult result (outcomeFromResult result),
      qr_attempts = tr_attempts result, qr_phyResult = tr_lastPhyResult result\<rparr>"

definition pipeline_query ::
  "('p, 'd, 'j) bus_ops \<Rightarrow> ShortAddress \<Rightarrow> DaliCommand \<Rightarrow> CommandPriority \<Rightarrow>
   ('p, 'd, 'j) PipelineQueryClient \<Rightarrow> DaliQueryResult \<times> ('p, 'd, 'j) PipelineQueryClient"
where
  "pipeline_query ops address command priority c =
     (let request = query_request address command priority c;
          c1 = c\<lparr>pc_nextSequence := pc_nextSequence c + 1\<rparr>;
          (queued, pl1) = pl_enqueue request (pc_pipeline c1);
          c2 = c1\<lparr>pc_pipeline := pl1\<rparr>
      in if queued \<noteq> QrOk
         then (\<lparr>qr_outcome = QoQueueFull, qr_response = Reading_temporarilyUnavailable 0,
                qr_attempts = 0, qr_phyResult = PhyBusy\<rparr>, c2)
         else
           let (processed, pl2) = pl_processNext ops (pc_pipeline c2);
               c3 = c2\<lparr>pc_pipeline := pl2\<rparr>
           in case processed of
                None \<Rightarrow> (\<lparr>qr_outcome = QoInvalid, qr_response = Reading_invalid 0,
                         qr_attempts = 0, qr_phyResult = PhyInternalError\<rparr>, c3)
              | Some d \<Rightarrow> (answer_of_result (pd_result d), c3))"

definition pipeline_client ::
  "('p, 'd, 'j) bus_ops \<Rightarrow> ('p, 'd, 'j) PipelineQueryClient IDaliQueryClient"
where
  "pipeline_client ops = \<lparr>qc_query = pipeline_query ops\<rparr>"

lemma readingForResult_value:
  "hasValue (readingForResult result (outcomeFromResult result)) \<longleftrightarrow> outcomeFromResult result = QoOk"
  by (cases "tr_lastPhyResult result")
    (auto simp: readingForResult_def outcomeFromResult_def split: option.splits)

text \<open>\<open>outcome_of_phy\<close> of a failed transaction never says \<open>Ok\<close>.\<close>

lemma outcome_of_phy_not_Ok [simp]: "outcome_of_phy r \<noteq> QoOk"
  by (cases r) simp_all

lemma outcome_of_phy_BusFailure [simp]: "outcome_of_phy r = QoBusFailure \<longleftrightarrow> r = PhyBusPowerLost"
  by (cases r) simp_all

lemma execute_lost_bus_not_ok:
  assumes "execute ops request w = (res, w')" "tr_lastPhyResult res = PhyBusPowerLost"
  shows "tr_status res \<noteq> TsOk"
proof (cases "request_valid request")
  case True
  then show ?thesis
    using execute_loop_run [of 0 request ops w DaliTransactionResult_init] assms
    by (auto simp: execute_valid result_of_def)
next
  case False
  then have "rq_timeoutMs request = 0 \<or> kAbsoluteMaxRetries < rq_maxRetries request"
    by (auto simp: request_valid_def)
  then show ?thesis using assms by (auto simp: execute_def)
qed

lemma pl_processNext_answer:
  assumes "pl_processNext ops pl = (Some d, pl')"
  shows "\<exists>w'. execute ops (pd_request d) (pl_bus pl) = (pd_result d, w')"
  using assms by (auto simp: pl_processNext_def split: option.splits prod.splits)

lemma pipeline_query_cases:
  obtains
    (full) "fst (pipeline_query ops a cmd prio c) = \<lparr>qr_outcome = QoQueueFull,
      qr_response = Reading_temporarilyUnavailable 0, qr_attempts = 0, qr_phyResult = PhyBusy\<rparr>"
  | (none) "fst (pipeline_query ops a cmd prio c) = \<lparr>qr_outcome = QoInvalid,
      qr_response = Reading_invalid 0, qr_attempts = 0, qr_phyResult = PhyInternalError\<rparr>"
  | (some) request w res w' where "execute ops request w = (res, w')"
      "fst (pipeline_query ops a cmd prio c) = answer_of_result res"
proof -
  let ?e = "pl_enqueue (query_request a cmd prio c) (pc_pipeline c)"
  obtain r pl1 where e: "?e = (r, pl1)" by (cases ?e)
  obtain o' pl2 where n: "pl_processNext ops pl1 = (o', pl2)" by (cases "pl_processNext ops pl1")
  show thesis
  proof (cases "r = QrOk")
    case False
    then show thesis using e full by (simp add: pipeline_query_def Let_def)
  next
    case True
    show thesis
    proof (cases o')
      case None
      then show thesis using True e n none by (simp add: pipeline_query_def Let_def)
    next
      case (Some d)
      then show thesis using True e n some pl_processNext_answer [of ops pl1 d pl2]
        by (auto simp: pipeline_query_def Let_def)
    qed
  qed
qed

text \<open>The pipeline client keeps the contract of a query client, whatever waits in its queue.\<close>

lemma pipeline_answer_value:
  "hasValue (qr_response (fst (pipeline_query ops a cmd prio c))) \<longleftrightarrow>
   qr_outcome (fst (pipeline_query ops a cmd prio c)) = QoOk"
  by (cases rule: pipeline_query_cases [of ops a cmd prio c])
    (simp_all add: answer_of_result_def readingForResult_value)

lemma pipeline_answer_bus_lost:
  "qr_phyResult (fst (pipeline_query ops a cmd prio c)) = PhyBusPowerLost \<longleftrightarrow>
   qr_outcome (fst (pipeline_query ops a cmd prio c)) = QoBusFailure"
proof (cases rule: pipeline_query_cases [of ops a cmd prio c])
  case (some request w res w')
  then show ?thesis using execute_lost_bus_not_ok [OF some(1)]
    by (auto simp: answer_of_result_def outcomeFromResult_def)
qed simp_all

interpretation pq: dali_query_client "pipeline_client ops" "\<lambda>_. True"
  by unfold_locales (simp_all add: pipeline_client_def pipeline_answer_value pipeline_answer_bus_lost)

lemma pipeline_query_idle:
  assumes "pl_idle (pc_pipeline c)"
    and "execute ops (query_request a cmd prio c) (pl_bus (pc_pipeline c)) = (res, w')"
  shows "\<exists>pl'. pipeline_query ops a cmd prio c =
      (answer_of_result res,
       c\<lparr>pc_pipeline := pl', pc_nextSequence := pc_nextSequence c + 1\<rparr>) \<and>
    pl_idle pl' \<and> pl_bus pl' = w' \<and> pl_quality pl' = record_result res (pl_quality (pc_pipeline c))"
proof -
  let ?r = "query_request a cmd prio c"
  obtain pl' where pl': "pl_submit ops ?r (pc_pipeline c) =
      (Some \<lparr>pd_request = ?r, pd_result = res\<rparr>, pl')"
    "pl_idle pl'" "pl_bus pl' = w'" "pl_quality pl' = record_result res (pl_quality (pc_pipeline c))"
    using pl_submit_idle [OF assms] by auto
  obtain pl1 where e: "pl_enqueue ?r (pc_pipeline c) = (QrOk, pl1)"
    using pl_enqueue_idle [OF assms(1), of ?r] by (cases "pl_enqueue ?r (pc_pipeline c)") auto
  with pl'(1) have n: "pl_processNext ops pl1 = (Some \<lparr>pd_request = ?r, pd_result = res\<rparr>, pl')"
    by (simp add: pl_submit_def)
  show ?thesis using pl'(2-4) e n by (intro exI [of _ pl']) (simp add: pipeline_query_def Let_def)
qed

section \<open>Properties\<close>

text \<open>
  C6: a query through an idle pipeline is that query. The one request executed is the
  short-address frame of the asked address and command with the client's timeout, retry
  count and sequence number; the answer is computed from its own result; the pipeline is
  idle again, its bus is the bus after the transaction and its counters have it recorded.
\<close>

theorem query_through_idle_pipeline:
  assumes "pl_idle (pc_pipeline c)"
    and "execute ops (query_request a cmd prio c) (pl_bus (pc_pipeline c)) = (res, w')"
  shows "\<exists>pl'. pipeline_query ops a cmd prio c =
      (answer_of_result res,
       c\<lparr>pc_pipeline := pl', pc_nextSequence := pc_nextSequence c + 1\<rparr>) \<and>
    pl_idle pl' \<and> pl_bus pl' = w' \<and> pl_quality pl' = record_result res (pl_quality (pc_pipeline c))"
  by (rule pipeline_query_idle [OF assms])

text \<open>
  C7: on a shared pipeline a query can answer for another request. If a request that is at
  least as urgent already waits, \<open>query\<close> executes that one and returns its result, while
  the frame it was asked to send stays in the queue, unsent.
\<close>

theorem query_answers_for_waiting_request:
  assumes "q_ordered (pl_queue (pc_pipeline c))" and "q_list (pl_queue (pc_pipeline c)) = r # rs"
    and "rq_priority r \<le> prio" and "length rs < 63"
    and "execute ops r (pl_bus (pc_pipeline c)) = (res, w')"
  shows "fst (pipeline_query ops a cmd prio c) = answer_of_result res \<and>
    query_request a cmd prio c \<in>
      set (q_list (pl_queue (pc_pipeline (snd (pipeline_query ops a cmd prio c)))))"
proof -
  let ?n = "query_request a cmd prio c"
  have "rq_priority r \<le> rq_priority ?n" using assms(3) by (simp add: query_request_def)
  from pl_submit_waiting [OF assms(1,2) this assms(4,5)] obtain pl1 pl2 where
    "pl_enqueue ?n (pc_pipeline c) = (QrOk, pl1)"
    "pl_processNext ops pl1 = (Some \<lparr>pd_request = r, pd_result = res\<rparr>, pl2)"
    "?n \<in> set (q_list (pl_queue pl2))" by blast
  then show ?thesis by (simp add: pipeline_query_def Let_def)
qed

text \<open>
  The outcome of a query and its reading never disagree. For every state of client,
  queue and bus the reading has a value exactly when the outcome is \<open>Ok\<close>, a lost bus shows
  in both result fields, and a query that finds the queue full sends nothing.
\<close>

theorem query_outcome_consistent:
  assumes "q_inv (pl_queue (pc_pipeline c))"
  shows "(hasValue (qr_response (fst (pipeline_query ops a cmd prio c))) \<longleftrightarrow>
      qr_outcome (fst (pipeline_query ops a cmd prio c)) = QoOk) \<and>
    (qr_phyResult (fst (pipeline_query ops a cmd prio c)) = PhyBusPowerLost \<longleftrightarrow>
      qr_outcome (fst (pipeline_query ops a cmd prio c)) = QoBusFailure) \<and>
    (length (q_list (pl_queue (pc_pipeline c))) = 64 \<longrightarrow>
      qr_outcome (fst (pipeline_query ops a cmd prio c)) = QoQueueFull \<and>
      pl_bus (pc_pipeline (snd (pipeline_query ops a cmd prio c))) = pl_bus (pc_pipeline c))"
proof -
  have "qr_outcome (fst (pipeline_query ops a cmd prio c)) = QoQueueFull \<and>
      pl_bus (pc_pipeline (snd (pipeline_query ops a cmd prio c))) = pl_bus (pc_pipeline c)"
    if "length (q_list (pl_queue (pc_pipeline c))) = 64"
    using that q_enqueue_result [OF assms, of "query_request a cmd prio c"]
    by (cases "q_enqueue (query_request a cmd prio c) (pl_queue (pc_pipeline c))")
      (simp add: pipeline_query_def pl_enqueue_def Let_def kQueueCapacity_def)
  then show ?thesis using pipeline_answer_value pipeline_answer_bus_lost by blast
qed

end
