(* ===== verification/Simulated_Phy.thy ===== *)
theory Simulated_Phy
  imports Dali_Phy
begin

text \<open>
  The deterministic simulator \<open>components/dali_simulator\<close>: a 32-slot ring of scripted
  responses, the health flags and the last transmitted frame. \<open>pending\<close> is the script as a
  list, next response first; \<open>sim_phy\<close> packs the operations as an \<open>IDaliPhy\<close>.
\<close>

record SimulatedResponse =
  sr_result :: PhyResult
  sr_value :: u8
  sr_delayMs :: u32

definition SimulatedResponse_init :: SimulatedResponse where
  "SimulatedResponse_init = \<lparr>sr_result = PhyTimeout, sr_value = 0, sr_delayMs = 0\<rparr>"

definition kResponseCapacity :: nat where
  "kResponseCapacity = 32"

record SimulatedDaliPhy =
  sp_responses :: "SimulatedResponse list"
  sp_responseHead :: nat
  sp_responseCount :: nat
  sp_lastForwardFrame :: u16
  sp_transmittedFrameCount :: u32
  sp_health :: PhyHealth
  sp_busBusy :: bool
  sp_collision :: bool

definition SimulatedDaliPhy_init :: SimulatedDaliPhy where
  "SimulatedDaliPhy_init =
    \<lparr>sp_responses = replicate kResponseCapacity SimulatedResponse_init,
     sp_responseHead = 0, sp_responseCount = 0, sp_lastForwardFrame = 0,
     sp_transmittedFrameCount = 0,
     sp_health = \<lparr>ph_initialised = False, ph_busPowered = True, ph_transceiverHealthy = True,
                  ph_lineStuckHigh = False, ph_lineStuckLow = False\<rparr>,
     sp_busBusy = False, sp_collision = False\<rparr>"

definition sim_init :: "SimulatedDaliPhy \<Rightarrow> PhyResult \<times> SimulatedDaliPhy" where
  "sim_init p =
     (let p = p\<lparr>sp_health := (sp_health p)\<lparr>ph_initialised := True\<rparr>\<rparr>
      in (if ph_transceiverHealthy (sp_health p) then PhyOk else PhyTransceiverFault, p))"

definition sim_transmit :: "u16 \<Rightarrow> SimulatedDaliPhy \<Rightarrow> PhyResult \<times> SimulatedDaliPhy" where
  "sim_transmit frame p =
     (if \<not> ph_initialised (sp_health p) then (PhyNotInitialised, p)
      else if \<not> ph_busPowered (sp_health p) then (PhyBusPowerLost, p)
      else if \<not> ph_transceiverHealthy (sp_health p) then (PhyTransceiverFault, p)
      else if sp_busBusy p then (PhyBusy, p)
      else if sp_collision p then (PhyCollision, p)
      else (PhyOk, p\<lparr>sp_lastForwardFrame := frame,
                      sp_transmittedFrameCount := sp_transmittedFrameCount p + 1\<rparr>))"

definition sim_receive :: "u32 \<Rightarrow> SimulatedDaliPhy \<Rightarrow> PhyResult \<times> u8 option \<times> SimulatedDaliPhy" where
  "sim_receive timeoutMs p =
     (if \<not> ph_initialised (sp_health p) then (PhyNotInitialised, None, p)
      else if \<not> ph_busPowered (sp_health p) then (PhyBusPowerLost, None, p)
      else if \<not> ph_transceiverHealthy (sp_health p) then (PhyTransceiverFault, None, p)
      else if sp_responseCount p = 0 then (PhyTimeout, None, p)
      else
        let response = sp_responses p ! sp_responseHead p
        in if timeoutMs < sr_delayMs response then (PhyTimeout, None, p)
           else (sr_result response,
                 (if sr_result response = PhyOk then Some (sr_value response) else None),
                 p\<lparr>sp_responseHead := (sp_responseHead p + 1) mod kResponseCapacity,
                   sp_responseCount := sp_responseCount p - 1\<rparr>))"

definition sim_reset :: "SimulatedDaliPhy \<Rightarrow> PhyResult \<times> SimulatedDaliPhy" where
  "sim_reset p =
     (let p = p\<lparr>sp_busBusy := False, sp_collision := False,
                sp_health := (sp_health p)\<lparr>ph_lineStuckHigh := False, ph_lineStuckLow := False\<rparr>\<rparr>
      in (if ph_transceiverHealthy (sp_health p) then PhyOk else PhyTransceiverFault, p))"

definition enqueueResponse :: "SimulatedResponse \<Rightarrow> SimulatedDaliPhy \<Rightarrow> PhyResult \<times> SimulatedDaliPhy" where
  "enqueueResponse response p =
     (if sp_responseCount p = kResponseCapacity then (PhyBusy, p)
      else
        let tail = (sp_responseHead p + sp_responseCount p) mod kResponseCapacity
        in (PhyOk, p\<lparr>sp_responses := (sp_responses p)[tail := response],
                     sp_responseCount := sp_responseCount p + 1\<rparr>))"

definition setBusPowered :: "bool \<Rightarrow> SimulatedDaliPhy \<Rightarrow> SimulatedDaliPhy" where
  "setBusPowered v p = p\<lparr>sp_health := (sp_health p)\<lparr>ph_busPowered := v\<rparr>\<rparr>"

definition setTransceiverHealthy :: "bool \<Rightarrow> SimulatedDaliPhy \<Rightarrow> SimulatedDaliPhy" where
  "setTransceiverHealthy v p = p\<lparr>sp_health := (sp_health p)\<lparr>ph_transceiverHealthy := v\<rparr>\<rparr>"

definition setBusBusy :: "bool \<Rightarrow> SimulatedDaliPhy \<Rightarrow> SimulatedDaliPhy" where
  "setBusBusy v p = p\<lparr>sp_busBusy := v\<rparr>"

definition setCollision :: "bool \<Rightarrow> SimulatedDaliPhy \<Rightarrow> SimulatedDaliPhy" where
  "setCollision v p = p\<lparr>sp_collision := v\<rparr>"

definition setLineStuckHigh :: "bool \<Rightarrow> SimulatedDaliPhy \<Rightarrow> SimulatedDaliPhy" where
  "setLineStuckHigh v p = p\<lparr>sp_health := (sp_health p)\<lparr>ph_lineStuckHigh := v\<rparr>\<rparr>"

definition setLineStuckLow :: "bool \<Rightarrow> SimulatedDaliPhy \<Rightarrow> SimulatedDaliPhy" where
  "setLineStuckLow v p = p\<lparr>sp_health := (sp_health p)\<lparr>ph_lineStuckLow := v\<rparr>\<rparr>"

text \<open>The observers read one member each.\<close>

definition isBusBusy :: "SimulatedDaliPhy \<Rightarrow> bool" where
  [simp]: "isBusBusy p = sp_busBusy p"

definition hasCollision :: "SimulatedDaliPhy \<Rightarrow> bool" where
  [simp]: "hasCollision p = sp_collision p"

definition sim_health :: "SimulatedDaliPhy \<Rightarrow> PhyHealth" where
  [simp]: "sim_health p = sp_health p"

definition lastForwardFrame :: "SimulatedDaliPhy \<Rightarrow> u16" where
  [simp]: "lastForwardFrame p = sp_lastForwardFrame p"

definition transmittedFrameCount :: "SimulatedDaliPhy \<Rightarrow> u32" where
  [simp]: "transmittedFrameCount p = sp_transmittedFrameCount p"

definition sim_phy :: "SimulatedDaliPhy IDaliPhy" where
  "sim_phy = \<lparr>phy_init = sim_init, phy_transmit = sim_transmit, phy_receive = sim_receive,
     phy_isBusBusy = isBusBusy, phy_hasCollision = hasCollision, phy_health = sim_health,
     phy_reset = sim_reset\<rparr>"

section \<open>The script as a list\<close>

definition sim_inv :: "SimulatedDaliPhy \<Rightarrow> bool" where
  "sim_inv p \<longleftrightarrow> length (sp_responses p) = kResponseCapacity \<and>
     sp_responseHead p < kResponseCapacity \<and> sp_responseCount p \<le> kResponseCapacity"

definition pending :: "SimulatedDaliPhy \<Rightarrow> SimulatedResponse list" where
  "pending p = ring_list (sp_responses p) (sp_responseHead p) (sp_responseCount p)"

text \<open>Powered, initialised and with a working transceiver: the guards both directions share.\<close>

definition sim_operational :: "SimulatedDaliPhy \<Rightarrow> bool" where
  "sim_operational p \<longleftrightarrow> ph_initialised (sp_health p) \<and> ph_busPowered (sp_health p) \<and>
     ph_transceiverHealthy (sp_health p)"

lemma sim_init_inv [keeps]: "sim_inv SimulatedDaliPhy_init"
  by (simp add: sim_inv_def SimulatedDaliPhy_init_def kResponseCapacity_def)

lemma sim_keeps [keeps]:
  assumes "sim_inv p"
  shows "sim_inv (snd (sim_init p))" "sim_inv (snd (sim_transmit f p))"
    "sim_inv (snd (snd (sim_receive t p)))" "sim_inv (snd (sim_reset p))"
    "sim_inv (snd (enqueueResponse r p))"
  using assms
  by (auto simp: sim_inv_def sim_init_def sim_transmit_def sim_receive_def sim_reset_def
      enqueueResponse_def Let_def kResponseCapacity_def)

lemma sim_setters_keep [keeps]:
  assumes "sim_inv p"
  shows "sim_inv (setBusPowered v p)" "sim_inv (setTransceiverHealthy v p)" "sim_inv (setBusBusy v p)"
    "sim_inv (setCollision v p)" "sim_inv (setLineStuckHigh v p)" "sim_inv (setLineStuckLow v p)"
  using assms by (simp_all add: sim_inv_def setBusPowered_def setTransceiverHealthy_def
      setBusBusy_def setCollision_def setLineStuckHigh_def setLineStuckLow_def)

lemma enqueueResponse_pending:
  assumes "sim_inv p"
  shows "pending (snd (enqueueResponse r p)) =
      (if length (pending p) = kResponseCapacity then pending p else pending p @ [r])"
    and "fst (enqueueResponse r p) = (if length (pending p) = kResponseCapacity then PhyBusy else PhyOk)"
  using assms ring_list_push [of "sp_responseCount p" "sp_responses p" "sp_responseHead p" r]
  by (auto simp: enqueueResponse_def pending_def sim_inv_def Let_def)

lemma sim_receive_pending:
  assumes "sim_inv p" "sim_operational p"
  shows "sim_receive t p =
    (case pending p of
       [] \<Rightarrow> (PhyTimeout, None, p)
     | r # rs \<Rightarrow>
         if t < sr_delayMs r then (PhyTimeout, None, p)
         else (sr_result r, (if sr_result r = PhyOk then Some (sr_value r) else None),
           snd (snd (sim_receive t p))))"
    and "pending (snd (snd (sim_receive t p))) =
      (case pending p of [] \<Rightarrow> [] | r # rs \<Rightarrow> if t < sr_delayMs r then r # rs else rs)"
proof -
  have p: "pending p = sp_responses p ! sp_responseHead p #
      ring_list (sp_responses p) ((sp_responseHead p + 1) mod kResponseCapacity) n"
    if "sp_responseCount p = Suc n" for n
    using assms(1) that by (simp add: pending_def ring_list_pop sim_inv_def)
  show "sim_receive t p =
    (case pending p of
       [] \<Rightarrow> (PhyTimeout, None, p)
     | r # rs \<Rightarrow>
         if t < sr_delayMs r then (PhyTimeout, None, p)
         else (sr_result r, (if sr_result r = PhyOk then Some (sr_value r) else None),
           snd (snd (sim_receive t p))))"
    using assms(2) p
    by (cases "sp_responseCount p") (simp_all add: sim_receive_def sim_operational_def pending_def Let_def)
  show "pending (snd (snd (sim_receive t p))) =
      (case pending p of [] \<Rightarrow> [] | r # rs \<Rightarrow> if t < sr_delayMs r then r # rs else rs)"
  proof (cases "sp_responseCount p")
    case (Suc n)
    then show ?thesis using assms p [OF Suc]
      by (simp add: sim_receive_def sim_operational_def Let_def) (simp add: pending_def)
  qed (use assms in \<open>simp add: sim_receive_def sim_operational_def pending_def\<close>)
qed

lemma sim_receive_delivers:
  "fst (sim_receive t p) = PhyOk \<Longrightarrow> fst (snd (sim_receive t p)) \<noteq> None"
  by (auto simp: sim_receive_def Let_def split: if_splits)

interpretation sim: dali_phy sim_phy sim_inv
  by unfold_locales (simp_all add: sim_phy_def keeps sim_receive_delivers)

section \<open>Properties\<close>

text \<open>
  C10: the simulator is a FIFO script. A scripted response is appended, or refused with
  \<open>Busy\<close> and no change when 32 wait; on an operational bus \<open>receive\<close> answers from the
  oldest response only: it times out and keeps it when its delay exceeds the timeout,
  otherwise it consumes exactly that response and delivers its byte only with verdict \<open>Ok\<close>.
\<close>

theorem simulator_fifo:
  assumes "sim_inv p" and "sim_operational p"
  shows "pending (snd (enqueueResponse r p)) = (if length (pending p) = 32 then pending p else pending p @ [r]) \<and>
    fst (enqueueResponse r p) = (if length (pending p) = 32 then PhyBusy else PhyOk) \<and>
    (case pending p of
       [] \<Rightarrow> sim_receive t p = (PhyTimeout, None, p)
     | x # xs \<Rightarrow>
         if t < sr_delayMs x then sim_receive t p = (PhyTimeout, None, p)
         else (\<exists>p'. sim_receive t p =
             (sr_result x, (if sr_result x = PhyOk then Some (sr_value x) else None), p') \<and>
           pending p' = xs \<and> sim_inv p'))"
  using sim_receive_pending [OF assms, of t] enqueueResponse_pending [OF assms(1), of r]
    sim_keeps(3) [OF assms(1), of t]
  by (cases "sim_receive t p") (auto simp: kResponseCapacity_def split: list.splits)

theorem simulator_fifo_witness:
  "\<exists>p'. sim_receive 20 (snd (enqueueResponse \<lparr>sr_result = PhyOk, sr_value = 4, sr_delayMs = 0\<rparr>
      (snd (sim_init SimulatedDaliPhy_init)))) = (PhyOk, Some 4, p') \<and> pending p' = []"
proof -
  let ?r = "\<lparr>sr_result = PhyOk, sr_value = 4, sr_delayMs = 0\<rparr>"
  let ?i = "snd (sim_init SimulatedDaliPhy_init)"
  let ?p = "snd (enqueueResponse ?r ?i)"
  have i: "sim_inv ?i" by (simp add: keeps)
  have "pending ?i = []" by (simp add: pending_def sim_init_def SimulatedDaliPhy_init_def Let_def)
  then have l: "pending ?p = [?r]" using enqueueResponse_pending(1) [OF i, of ?r]
    by (simp add: kResponseCapacity_def)
  have inv: "sim_inv ?p" using i by (rule sim_keeps(5))
  have "sim_operational ?p"
    by (simp add: sim_operational_def enqueueResponse_def sim_init_def SimulatedDaliPhy_init_def Let_def)
  from simulator_fifo [OF inv this, of ?r 20]
  have "case pending ?p of [] \<Rightarrow> True
    | x # xs \<Rightarrow> sr_delayMs x \<le> 20 \<longrightarrow> sr_result x = PhyOk \<longrightarrow>
        (\<exists>p'. sim_receive 20 ?p = (PhyOk, Some (sr_value x), p') \<and> pending p' = xs)"
    by (cases "pending ?p") (auto split: if_splits)
  with l show ?thesis by simp
qed

end
