(* ===== verification/App_Adapters.thy ===== *)
theory App_Adapters
  imports Protocol_Pipeline Simulated_Phy
begin

text \<open>
  The adapters \<open>app_main.cpp\<close> puts under the transaction service: the FreeRTOS delay, with
  \<open>vTaskDelay\<close> and \<open>pdMS_TO_TICKS\<close> of the SDK as parameters, and the linear congruential
  jitter source. With the simulated PHY they form the environment of the boot self-check.
\<close>

definition freertos_delay :: "(u32 \<Rightarrow> 'd \<Rightarrow> 'd) \<Rightarrow> (u32 \<Rightarrow> u32) \<Rightarrow> 'd IDelayProvider" where
  "freertos_delay vTaskDelay pdMS_TO_TICKS =
     \<lparr>dl_delayMs = (\<lambda>delayMs. vTaskDelay (pdMS_TO_TICKS delayMs))\<rparr>"

text \<open>
  \<open>state_ % (maxInclusive + 1)\<close>: for the largest 32-bit \<open>maxInclusive\<close> the C++ divides by
  zero, which the contract of a jitter source leaves out.
\<close>

definition lcg_next :: "u32 \<Rightarrow> u32 \<Rightarrow> u32 \<times> u32" where
  "lcg_next maxInclusive state =
     (let state' = state * 1664525 + 1013904223 in (state' mod (maxInclusive + 1), state'))"

definition lcg_seed :: u32 where
  "lcg_seed = 0x534C5301"

definition LcgJitter :: "u32 IJitterSource" where
  "LcgJitter = \<lparr>js_next = lcg_next\<rparr>"

definition app_ops ::
  "(u32 \<Rightarrow> 'd \<Rightarrow> 'd) \<Rightarrow> (u32 \<Rightarrow> u32) \<Rightarrow> (SimulatedDaliPhy, 'd, u32) bus_ops"
where
  "app_ops vTaskDelay pdMS_TO_TICKS =
     \<lparr>ops_phy = sim_phy, ops_delay = freertos_delay vTaskDelay pdMS_TO_TICKS, ops_jitter = LcgJitter\<rparr>"

lemma lcg_bound:
  assumes "m \<noteq> - 1"
  shows "fst (lcg_next m s) \<le> m"
proof -
  have nz: "m + 1 \<noteq> 0" using assms by (simp add: eq_neg_iff_add_eq_0)
  then have "unat (m + 1) = Suc (unat m)" by (rule unatSuc [simplified add.commute [of 1]])
  then have "unat (fst (lcg_next m s)) < Suc (unat m)"
    by (simp add: lcg_next_def Let_def unat_mod_distrib)
  then show ?thesis by (simp add: word_le_nat_alt)
qed

interpretation lcg: jitter_source LcgJitter "\<lambda>_. True"
  by unfold_locales (simp_all add: LcgJitter_def lcg_bound)

interpretation app: jittered_service "app_ops vTaskDelay pdMS_TO_TICKS" "\<lambda>_. True"
  by unfold_locales (simp_all add: app_ops_def lcg.next_bound)

interpretation app: transaction_env "app_ops vTaskDelay pdMS_TO_TICKS" "\<lambda>_. True" sim_inv
  by unfold_locales (simp_all add: app_ops_def sim.transmit_keeps sim.receive_keeps sim.receive_delivers)

section \<open>The boot self-check's transaction, as a concrete instance\<close>

text \<open>The request \<open>app_main\<close> enqueues: \<open>QUERY STATUS\<close> to short address 3, timeout 20 ms.\<close>

definition selfcheck_request :: "u8 \<Rightarrow> DaliRequest" where
  "selfcheck_request maxCommandRetries =
     \<lparr>rq_frame = makeShortCommand (ShortAddress 3) QueryStatus, rq_expectsResponse = True,
      rq_timeoutMs = 20, rq_maxRetries = maxCommandRetries, rq_priority = CpNormal,
      rq_deviceKey = 3, rq_requestSequence = 1\<rparr>"

text \<open>
  Concrete environments for evaluation: delays are logged, the simulator is initialised
  and its script is given.
\<close>

definition log_ops :: "(SimulatedDaliPhy, u32 list, u32) bus_ops" where
  "log_ops = app_ops (\<lambda>ms log. log @ [ms]) id"

definition scripted_bus :: "SimulatedResponse list \<Rightarrow> (SimulatedDaliPhy, u32 list, u32) bus" where
  "scripted_bus rs = \<lparr>bus_phy = fold (\<lambda>r p. snd (enqueueResponse r p)) rs (snd (sim_init SimulatedDaliPhy_init)),
     bus_delay = [], bus_jitter = lcg_seed\<rparr>"

definition answer :: "u8 \<Rightarrow> SimulatedResponse" where
  "answer b = \<lparr>sr_result = PhyOk, sr_value = b, sr_delayMs = 0\<rparr>"

definition refuse :: "PhyResult \<Rightarrow> SimulatedResponse" where
  "refuse r = \<lparr>sr_result = r, sr_value = 0, sr_delayMs = 0\<rparr>"

lemma selfcheck_valid: "request_valid (selfcheck_request 3)"
  by (simp add: request_valid_def selfcheck_request_def kAbsoluteMaxRetries_def)

lemma selfcheck_runs:
  "fst (execute log_ops (selfcheck_request 3) (scripted_bus [answer 4])) =
     \<lparr>tr_status = TsOk, tr_response = Some 4, tr_attempts = 1, tr_lastPhyResult = PhyOk,
      tr_retryDelayTotalMs = 0\<rparr>"
  by code_simp

lemma selfcheck_retries:
  "tr_attempts (fst (execute log_ops (selfcheck_request 3)
     (scripted_bus [refuse PhyTimeout, refuse PhyCollision, answer 4]))) = 3"
  by code_simp

section \<open>The properties of the transaction and of the query client, on this instance\<close>

theorem execute_follows_policy_witness:
  "request_valid (selfcheck_request 3) \<and>
   (\<exists>rs ds b w'. tx_run log_ops (selfcheck_request 3) 0 (scripted_bus [refuse PhyTimeout, answer 4]) rs ds b w' \<and>
     tx_complete (selfcheck_request 3) rs \<and> length rs = Suc (length ds))"
  using execute_follows_policy [OF selfcheck_valid, of log_ops "scripted_bus [refuse PhyTimeout, answer 4]"]
    selfcheck_valid by blast

theorem execute_result_consistent_witness:
  "tr_status (fst (execute log_ops (selfcheck_request 3) (scripted_bus [answer 4]))) = TsOk \<and>
   tr_response (fst (execute log_ops (selfcheck_request 3) (scripted_bus [answer 4]))) \<noteq> None"
proof -
  let ?e = "execute log_ops (selfcheck_request 3) (scripted_bus [answer 4])"
  have "rq_expectsResponse (selfcheck_request 3)" by (simp add: selfcheck_request_def)
  moreover have "tr_status (fst ?e) = TsOk" by (simp add: selfcheck_runs)
  ultimately show ?thesis
    using execute_result_consistent [OF selfcheck_valid, of log_ops _ "fst ?e" "snd ?e"] by simp
qed

theorem execute_rejects_invalid_witness:
  "execute log_ops (selfcheck_request 9) (scripted_bus [answer 4]) =
    (\<lparr>tr_status = TsInvalidRequest, tr_response = None, tr_attempts = 0,
      tr_lastPhyResult = PhyInvalidArgument, tr_retryDelayTotalMs = 0\<rparr>, scripted_bus [answer 4])"
  by (rule execute_rejects_invalid) (simp add: selfcheck_request_def)

theorem execute_backoff_bounded_witness:
  "unat (tr_retryDelayTotalMs (fst (execute log_ops (selfcheck_request 3)
     (scripted_bus [refuse PhyTimeout, refuse PhyCollision, answer 4])))) \<le> 12800"
proof -
  let ?e = "execute log_ops (selfcheck_request 3)
    (scripted_bus [refuse PhyTimeout, refuse PhyCollision, answer 4])"
  have js: "jitter_source (ops_jitter log_ops) (\<lambda>_. True)"
    unfolding log_ops_def by (rule app.jitter.jitter_source_axioms)
  show ?thesis
    using execute_backoff_bounded [OF selfcheck_valid js TrueI, of "scripted_bus
      [refuse PhyTimeout, refuse PhyCollision, answer 4]" "fst ?e" "snd ?e"] by auto
qed

text \<open>A query client on its own pipeline, and one on a pipeline where the self-check waits.\<close>

definition fresh_client ::
  "SimulatedResponse list \<Rightarrow> (SimulatedDaliPhy, u32 list, u32) PipelineQueryClient"
where
  "fresh_client rs = \<lparr>pc_pipeline = pipeline_init (scripted_bus rs), pc_timeoutMs = 20,
     pc_maximumRetries = 3, pc_nextSequence = 1\<rparr>"

definition shared_client ::
  "SimulatedResponse list \<Rightarrow> (SimulatedDaliPhy, u32 list, u32) PipelineQueryClient"
where
  "shared_client rs = (fresh_client rs)\<lparr>pc_pipeline :=
     snd (pl_enqueue (selfcheck_request 3) (pipeline_init (scripted_bus rs)))\<rparr>"

theorem query_through_idle_pipeline_witness:
  "qr_outcome (fst (pipeline_query log_ops (ShortAddress 3) QueryStatus CpNormal (fresh_client [answer 4]))) = QoOk"
proof -
  let ?c = "fresh_client [answer 4]"
  let ?r = "query_request (ShortAddress 3) QueryStatus CpNormal ?c"
  have eq: "?r = selfcheck_request 3"
    by (simp add: query_request_def fresh_client_def selfcheck_request_def)
  have idle: "pl_idle (pc_pipeline ?c)" "pl_bus (pc_pipeline ?c) = scripted_bus [answer 4]"
    by (simp_all add: fresh_client_def pipeline_init_def pl_idle_def keeps)
  show ?thesis
    using query_through_idle_pipeline [OF idle(1) prod.collapse [symmetric],
      of log_ops "ShortAddress 3" QueryStatus CpNormal]
    by (auto simp: eq idle(2) selfcheck_runs answer_of_result_def outcomeFromResult_def)
qed

theorem query_answers_for_waiting_request_witness:
  "query_request (ShortAddress 9) QueryStatus CpNormal (shared_client [answer 4]) \<in>
     set (q_list (pl_queue (pc_pipeline (snd (pipeline_query log_ops (ShortAddress 9) QueryStatus
       CpNormal (shared_client [answer 4]))))))"
proof -
  let ?q = "pl_queue (pc_pipeline (shared_client [answer 4]))"
  have "?q = snd (q_enqueue (selfcheck_request 3) DaliCommandQueue_init)"
    by (simp add: shared_client_def fresh_client_def pl_enqueue_def pipeline_init_def split: prod.splits)
  moreover have "q_list (snd (q_enqueue (selfcheck_request 3) DaliCommandQueue_init)) = [selfcheck_request 3]"
    using q_enqueue_list [OF q_init_inv, of "selfcheck_request 3"] by (simp add: kQueueCapacity_def)
  moreover from this have "q_ordered (snd (q_enqueue (selfcheck_request 3) DaliCommandQueue_init))"
    by (simp add: q_ordered_def keeps)
  ultimately show ?thesis
    using query_answers_for_waiting_request [of "shared_client [answer 4]" "selfcheck_request 3" "[]"
      CpNormal log_ops, OF _ _ _ _ prod.collapse [symmetric]]
    by (simp add: selfcheck_request_def)
qed

theorem query_outcome_consistent_witness:
  "hasValue (qr_response (fst (pipeline_query log_ops (ShortAddress 3) QueryStatus CpNormal
     (fresh_client [refuse PhyBusPowerLost])))) \<longleftrightarrow>
   qr_outcome (fst (pipeline_query log_ops (ShortAddress 3) QueryStatus CpNormal
     (fresh_client [refuse PhyBusPowerLost]))) = QoOk"
  using query_outcome_consistent [of "fresh_client [refuse PhyBusPowerLost]" log_ops]
  by (simp add: fresh_client_def pipeline_init_def keeps)

end
