(* ===== verification/Dali_Control.thy ===== *)
theory Dali_Control
  imports App_Adapters
begin

text \<open>
  Lamp control, \<open>dali_control.h/.cpp\<close>: every command becomes one unanswered request that is
  queued and processed at once on the shared pipeline. Arc level 255 is refused before
  anything is queued.
\<close>

section \<open>The control service\<close>

datatype ControlResult = CtOk | CtQueueFull | CtTransactionFailed | CtInvalidArgument

record ('p, 'd, 'j) DaliControl =
  ct_pipeline :: "('p, 'd, 'j) DaliProtocolPipeline"
  ct_timeoutMs :: u32
  ct_maxRetries :: u8
  ct_nextSequence :: u32

definition DaliControl_init ::
  "('p, 'd, 'j) DaliProtocolPipeline \<Rightarrow> u32 \<Rightarrow> u8 \<Rightarrow> ('p, 'd, 'j) DaliControl"
where
  "DaliControl_init pipeline timeoutMs maxRetries = \<lparr>ct_pipeline = pipeline,
     ct_timeoutMs = timeoutMs, ct_maxRetries = maxRetries, ct_nextSequence = 1\<rparr>"

definition control_request ::
  "ForwardFrame \<Rightarrow> u8 \<Rightarrow> CommandPriority \<Rightarrow> ('p, 'd, 'j) DaliControl \<Rightarrow> DaliRequest"
where
  "control_request frame deviceKey priority c =
     \<lparr>rq_frame = frame, rq_expectsResponse = False, rq_timeoutMs = ct_timeoutMs c,
      rq_maxRetries = ct_maxRetries c, rq_priority = priority, rq_deviceKey = deviceKey,
      rq_requestSequence = ct_nextSequence c\<rparr>"

definition submit ::
  "('p, 'd, 'j) bus_ops \<Rightarrow> ForwardFrame \<Rightarrow> u8 \<Rightarrow> CommandPriority \<Rightarrow> ('p, 'd, 'j) DaliControl \<Rightarrow>
   ControlResult \<times> ('p, 'd, 'j) DaliControl"
where
  "submit ops frame deviceKey priority c =
     (let request = control_request frame deviceKey priority c;
          c1 = c\<lparr>ct_nextSequence := ct_nextSequence c + 1\<rparr>;
          (queued, pl1) = pl_enqueue request (ct_pipeline c1);
          c2 = c1\<lparr>ct_pipeline := pl1\<rparr>
      in if queued \<noteq> QrOk then (CtQueueFull, c2)
         else
           let (processed, pl2) = pl_processNext ops (ct_pipeline c2);
               c3 = c2\<lparr>ct_pipeline := pl2\<rparr>
           in case processed of
                None \<Rightarrow> (CtTransactionFailed, c3)
              | Some d \<Rightarrow> ((if tr_status (pd_result d) = TsOk then CtOk else CtTransactionFailed), c3))"

definition sendShort where
  "sendShort ops address command priority =
     submit ops (makeShortCommand address command) (sa_value address) priority"

definition sendGroup where
  "sendGroup ops address command priority =
     submit ops (makeGroupCommand address command) (0x80 OR ga_value address) priority"

definition sendBroadcast where
  "sendBroadcast ops command priority = submit ops (makeBroadcastCommand command) 0xFF priority"

definition setShortLevel ::
  "('p, 'd, 'j) bus_ops \<Rightarrow> ShortAddress \<Rightarrow> u8 \<Rightarrow> CommandPriority \<Rightarrow> ('p, 'd, 'j) DaliControl \<Rightarrow>
   ControlResult \<times> ('p, 'd, 'j) DaliControl"
where
  "setShortLevel ops address level priority c =
     (case ArcLevel_fromRaw (ucast level) of
        None \<Rightarrow> (CtInvalidArgument, c)
      | Some arc \<Rightarrow> submit ops (makeShortArc address arc) (sa_value address) priority c)"

definition setGroupLevel ::
  "('p, 'd, 'j) bus_ops \<Rightarrow> GroupAddress \<Rightarrow> u8 \<Rightarrow> CommandPriority \<Rightarrow> ('p, 'd, 'j) DaliControl \<Rightarrow>
   ControlResult \<times> ('p, 'd, 'j) DaliControl"
where
  "setGroupLevel ops address level priority c =
     (case ArcLevel_fromRaw (ucast level) of
        None \<Rightarrow> (CtInvalidArgument, c)
      | Some arc \<Rightarrow> submit ops (makeGroupArc address arc) (0x80 OR ga_value address) priority c)"

definition sendSpecial where
  "sendSpecial ops command parameter priority =
     submit ops (makeSpecialCommand command parameter) 0xFF priority"

definition setDtr0 where
  "setDtr0 ops v priority = sendSpecial ops SetDtr0 v priority"

section \<open>One unanswered transaction\<close>

text \<open>A frame the PHY accepts at once is one attempt, without pauses.\<close>

lemma execute_accepted:
  assumes "request_valid request" "\<not> rq_expectsResponse request"
    and "phy_transmit (ops_phy ops) (frame_raw (rq_frame request)) (bus_phy w) = (PhyOk, p)"
  shows "execute ops request w =
    (\<lparr>tr_status = TsOk, tr_response = None, tr_attempts = 1, tr_lastPhyResult = PhyOk,
      tr_retryDelayTotalMs = 0\<rparr>, w\<lparr>bus_phy := p\<rparr>)"
  using assms(2,3)
  by (simp add: execute_valid [OF assms(1)] execute_loop.simps [of ops request 0] exchange_def
      DaliTransactionResult_init_def Let_def)

lemma submit_idle:
  assumes "pl_idle (ct_pipeline c)"
    and "execute ops (control_request f k prio c) (pl_bus (ct_pipeline c)) = (res, w')"
  shows "\<exists>pl'. submit ops f k prio c =
      ((if tr_status res = TsOk then CtOk else CtTransactionFailed),
       c\<lparr>ct_pipeline := pl', ct_nextSequence := ct_nextSequence c + 1\<rparr>) \<and>
    pl_idle pl' \<and> pl_bus pl' = w' \<and> pl_quality pl' = record_result res (pl_quality (ct_pipeline c))"
proof -
  let ?r = "control_request f k prio c"
  obtain pl' where pl': "pl_submit ops ?r (ct_pipeline c) =
      (Some \<lparr>pd_request = ?r, pd_result = res\<rparr>, pl')"
    "pl_idle pl'" "pl_bus pl' = w'" "pl_quality pl' = record_result res (pl_quality (ct_pipeline c))"
    using pl_submit_idle [OF assms] by auto
  obtain pl1 where e: "pl_enqueue ?r (ct_pipeline c) = (QrOk, pl1)"
    using pl_enqueue_idle [OF assms(1), of ?r] by (cases "pl_enqueue ?r (ct_pipeline c)") auto
  with pl'(1) have n: "pl_processNext ops pl1 = (Some \<lparr>pd_request = ?r, pd_result = res\<rparr>, pl')"
    by (simp add: pl_submit_def)
  show ?thesis using pl'(2-4) e n by (intro exI [of _ pl']) (simp add: submit_def Let_def)
qed

text \<open>
  With an at least as urgent request waiting, a control call reports the outcome of that one;
  its own frame stays queued.
\<close>

lemma submit_reports_waiting:
  assumes "q_ordered (pl_queue (ct_pipeline c))" and "q_list (pl_queue (ct_pipeline c)) = r # rs"
    and "rq_priority r \<le> prio" and "length rs < 63"
    and "execute ops r (pl_bus (ct_pipeline c)) = (res, w')"
  shows "fst (submit ops f k prio c) = (if tr_status res = TsOk then CtOk else CtTransactionFailed) \<and>
    control_request f k prio c \<in>
      set (q_list (pl_queue (ct_pipeline (snd (submit ops f k prio c)))))"
proof -
  let ?n = "control_request f k prio c"
  have "rq_priority r \<le> rq_priority ?n" using assms(3) by (simp add: control_request_def)
  from pl_submit_waiting [OF assms(1,2) this assms(4,5)] obtain pl1 pl2 where
    "pl_enqueue ?n (ct_pipeline c) = (QrOk, pl1)"
    "pl_processNext ops pl1 = (Some \<lparr>pd_request = r, pd_result = res\<rparr>, pl2)"
    "?n \<in> set (q_list (pl_queue pl2))" by blast
  then show ?thesis by (simp add: submit_def Let_def)
qed

section \<open>Control on the simulated bus\<close>

text \<open>A free bus: operational, not busy and without collision. The service's parameters are valid.\<close>

definition control_ready ::
  "(SimulatedDaliPhy, 'd, 'j) bus_ops \<Rightarrow> (SimulatedDaliPhy, 'd, 'j) DaliControl \<Rightarrow> bool"
where
  "control_ready ops c \<longleftrightarrow> ops_phy ops = sim_phy \<and> pl_idle (ct_pipeline c) \<and>
     ct_timeoutMs c \<noteq> 0 \<and> ct_maxRetries c \<le> kAbsoluteMaxRetries \<and>
     sim_operational (bus_phy (pl_bus (ct_pipeline c))) \<and>
     \<not> sp_busBusy (bus_phy (pl_bus (ct_pipeline c))) \<and>
     \<not> sp_collision (bus_phy (pl_bus (ct_pipeline c)))"

definition control_phy :: "(SimulatedDaliPhy, 'd, 'j) DaliControl \<Rightarrow> SimulatedDaliPhy" where
  "control_phy c = bus_phy (pl_bus (ct_pipeline c))"

text \<open>
  Delivered: the call reports success, exactly one more frame went out, a gear reads the last
  frame as \<open>reads\<close>, and the service is ready for the next call.
\<close>

definition delivered ::
  "(SimulatedDaliPhy, 'd, 'j) bus_ops \<Rightarrow> (SimulatedDaliPhy, 'd, 'j) DaliControl \<Rightarrow>
   ControlResult \<times> (SimulatedDaliPhy, 'd, 'j) DaliControl \<Rightarrow> frame_target \<times> bool \<times> u8 \<Rightarrow> bool"
where
  "delivered ops c out reads \<longleftrightarrow> fst out = CtOk \<and> control_ready ops (snd out) \<and>
     frame_reads (ForwardFrame (sp_lastForwardFrame (control_phy (snd out)))) = reads \<and>
     sp_transmittedFrameCount (control_phy (snd out)) = sp_transmittedFrameCount (control_phy c) + 1"

lemma submit_delivers:
  assumes "control_ready ops c"
  shows "delivered ops c (submit ops f k prio c) (frame_reads f)"
proof -
  let ?w = "pl_bus (ct_pipeline c)"
  let ?p = "(bus_phy ?w)\<lparr>sp_lastForwardFrame := frame_raw f,
    sp_transmittedFrameCount := sp_transmittedFrameCount (bus_phy ?w) + 1\<rparr>"
  let ?r = "control_request f k prio c"
  have r: "request_valid ?r" "\<not> rq_expectsResponse ?r" "frame_raw (rq_frame ?r) = frame_raw f"
    using assms by (auto simp: control_ready_def request_valid_def control_request_def)
  have "phy_transmit (ops_phy ops) (frame_raw (rq_frame ?r)) (bus_phy ?w) = (PhyOk, ?p)"
    using assms r(3) by (simp add: control_ready_def sim_operational_def sim_phy_def sim_transmit_def)
  from execute_accepted [OF r(1,2) this] submit_idle [of c ops f k prio] assms
  obtain pl' where "submit ops f k prio c =
      (CtOk, c\<lparr>ct_pipeline := pl', ct_nextSequence := ct_nextSequence c + 1\<rparr>)"
    "pl_idle pl'" "pl_bus pl' = ?w\<lparr>bus_phy := ?p\<rparr>"
    by (fastforce simp: control_ready_def)
  then show ?thesis using assms
    by (simp add: delivered_def control_ready_def control_phy_def sim_operational_def)
qed

lemma submit_reads:
  "control_ready ops c \<Longrightarrow> frame_reads f = x \<Longrightarrow> delivered ops c (submit ops f k prio c) x"
  using submit_delivers by blast

lemma ArcLevel_fromRaw_ucast:
  "ArcLevel_fromRaw (ucast (level :: u8)) = (if level = 255 then None else Some (ArcLevel level))"
proof (rule word_below_cases [where n = 256 and v = level])
  have "unat level < 2 ^ LENGTH(8)" by (rule unsigned_less)
  then show "unat level < 256" by simp
qed code_simp

lemma ArcLevel_fromRaw_mask: "ArcLevel_fromRaw 255 = None"
  by (simp add: ArcLevel_fromRaw_def)

section \<open>Properties\<close>

text \<open>
  C11: end to end, a control call delivers its command. On a free simulated bus with an idle
  pipeline each operation reports success, transmits exactly one more frame, a gear decodes
  that frame as the addressed target, kind and value, and the service is ready again. The one
  exception is arc level 255, the mask value: whatever the state of the service, it is refused
  as an invalid argument, nothing is sent and nothing changes. With requests already waiting
  the calls do not deliver, see \<open>submit_reports_waiting\<close> and \<open>control_refuses\<close>.
\<close>

theorem control_delivers:
  assumes "control_ready ops c" and "short_ok a" and "group_ok g"
  shows "delivered ops c (sendShort ops a cmd prio c) (ToShort a, True, command_code cmd) \<and>
    delivered ops c (sendGroup ops g cmd prio c) (ToGroup g, True, command_code cmd) \<and>
    delivered ops c (sendBroadcast ops cmd prio c) (ToAll, True, command_code cmd) \<and>
    (if level = 255
     then \<forall>c'. setShortLevel ops a level prio c' = (CtInvalidArgument, c') \<and>
       setGroupLevel ops g level prio c' = (CtInvalidArgument, c')
     else delivered ops c (setShortLevel ops a level prio c) (ToShort a, False, level) \<and>
       delivered ops c (setGroupLevel ops g level prio c) (ToGroup g, False, level)) \<and>
    delivered ops c (setDtr0 ops v prio c) (ToSpecial 0xA3, True, v) \<and>
    delivered ops c (sendSpecial ops s v prio c) (ToSpecial (special_code s), True, v)"
  by (simp add: submit_reads [OF assms(1)] frame_reads_builders [OF assms(2,3)] sendShort_def sendGroup_def sendBroadcast_def setShortLevel_def setGroupLevel_def
      setDtr0_def sendSpecial_def ArcLevel_fromRaw_ucast ArcLevel_fromRaw_mask)

text \<open>The service \<open>DaliControl{pipeline}\<close> on a fresh simulated bus, with its default parameters.\<close>

definition fresh_control :: "SimulatedResponse list \<Rightarrow> (SimulatedDaliPhy, u32 list, u32) DaliControl" where
  "fresh_control rs = DaliControl_init (pipeline_init (scripted_bus rs)) 20 3"

lemma fresh_control_ready: "control_ready log_ops (fresh_control [])"
  by (simp add: control_ready_def fresh_control_def DaliControl_init_def kAbsoluteMaxRetries_def)
    (simp add: log_ops_def app_ops_def pipeline_init_def scripted_bus_def sim_operational_def
      sim_init_def SimulatedDaliPhy_init_def Let_def)

theorem control_delivers_witness:
  "delivered log_ops (fresh_control []) (setShortLevel log_ops (ShortAddress 5) 128 CpNormal
     (fresh_control [])) (ToShort (ShortAddress 5), False, 128) \<and>
   setGroupLevel log_ops (GroupAddress 2) 255 CpNormal (fresh_control []) = (CtInvalidArgument, fresh_control [])"
proof -
  have "short_ok (ShortAddress 5)" "group_ok (GroupAddress 2)"
    by (simp_all add: short_ok_def group_ok_def word_le_nat_alt)
  note c = control_delivers [OF fresh_control_ready this]
  show ?thesis using c [of _ _ 128] c [of _ _ 255] by simp
qed

text \<open>
  Refused control calls leave the bus alone. Arc level 255 is rejected before anything
  happens: not even a sequence number is used. With 64 requests waiting every operation
  answers \<open>QueueFull\<close>, and bus, queue contents and counters stay as they were.
\<close>

theorem control_refuses:
  assumes "q_inv (pl_queue (ct_pipeline c))" and "length (q_list (pl_queue (ct_pipeline c))) = 64"
  shows "setShortLevel ops a 255 prio c = (CtInvalidArgument, c) \<and>
    setGroupLevel ops g 255 prio c = (CtInvalidArgument, c) \<and>
    (\<forall>out \<in> {sendShort ops a cmd prio c, sendGroup ops g cmd prio c, sendBroadcast ops cmd prio c,
        setDtr0 ops v prio c, sendSpecial ops s v prio c}.
      out = (CtQueueFull, c\<lparr>ct_nextSequence := ct_nextSequence c + 1\<rparr>))"
proof -
  have "submit ops f k prio c = (CtQueueFull, c\<lparr>ct_nextSequence := ct_nextSequence c + 1\<rparr>)" for f k
    using assms q_enqueue_full [OF assms]
    by (simp add: submit_def pl_enqueue_def Let_def)
  then show ?thesis
    by (simp add: sendShort_def sendGroup_def sendBroadcast_def setShortLevel_def setGroupLevel_def
      setDtr0_def sendSpecial_def ArcLevel_fromRaw_def)
qed

text \<open>A control service whose pipeline already holds 64 requests.\<close>

definition full_control :: "(SimulatedDaliPhy, u32 list, u32) DaliControl" where
  "full_control = (fresh_control [])\<lparr>ct_pipeline := (pipeline_init (scripted_bus []))\<lparr>pl_queue :=
     ((\<lambda>q. snd (q_enqueue (selfcheck_request 3) q)) ^^ 64) DaliCommandQueue_init\<rparr>\<rparr>"

theorem control_refuses_witness:
  "sendBroadcast log_ops QueryStatus CpNormal full_control =
     (CtQueueFull, full_control\<lparr>ct_nextSequence := ct_nextSequence full_control + 1\<rparr>)"
proof -
  let ?q = "\<lambda>n. ((\<lambda>q. snd (q_enqueue (selfcheck_request 3) q)) ^^ n) DaliCommandQueue_init"
  have inv: "q_inv (?q n)" for n by (induction n) (simp_all add: keeps)
  have len: "n \<le> 64 \<Longrightarrow> length (q_list (?q n)) = n" for n
    by (induction n) (simp_all add: q_enqueue_list [OF inv] kQueueCapacity_def)
  have "q_inv (pl_queue (ct_pipeline full_control))" "length (q_list (pl_queue (ct_pipeline full_control))) = 64"
    using inv [of 64] len [of 64] by (simp_all add: full_control_def)
  from control_refuses [OF this] show ?thesis by simp
qed

end
