(* ===== verification/Dali_Scheduler.thy ===== *)
theory Dali_Scheduler
  imports Core_Types
begin

text \<open>
  The adaptive poll scheduler, \<open>dali_scheduler.h/.cpp\<close>: one slot per light with six due
  times, and a round-robin cursor. \<open>next\<close> is shown to pick the first admissible due poll in
  round-robin order, and so to starve no light.
\<close>

section \<open>Data\<close>

datatype PollKind =
    PkStatus | PkPresence | PkElectrical | PkTemperature | PkLifetime | PkIdentity | PkCount

fun kind_index :: "PollKind \<Rightarrow> nat" where
  "kind_index PkStatus = 0"
| "kind_index PkPresence = 1"
| "kind_index PkElectrical = 2"
| "kind_index PkTemperature = 3"
| "kind_index PkLifetime = 4"
| "kind_index PkIdentity = 5"
| "kind_index PkCount = 6"

text \<open>\<open>static_cast<PollKind>\<close> of an index below \<open>Count\<close>.\<close>

definition kind_at :: "nat \<Rightarrow> PollKind" where
  "kind_at i = [PkStatus, PkPresence, PkElectrical, PkTemperature, PkLifetime, PkIdentity, PkCount] ! i"

datatype PollPriority = PpCritical | PpHigh | PpNormal | PpLow

record LightPollContext =
  pc_commandedOn :: bool
  pc_warningActive :: bool
  pc_recentFault :: bool
  pc_observationStartedMs :: u64

definition LightPollContext_init :: LightPollContext where
  "LightPollContext_init = \<lparr>pc_commandedOn = False, pc_warningActive = False,
     pc_recentFault = False, pc_observationStartedMs = 0\<rparr>"

record PollRequest =
  po_address :: u8
  po_kind :: PollKind
  po_priority :: PollPriority
  po_estimatedDurationMs :: u32

record Slot =
  sl_configured :: bool
  sl_context :: LightPollContext
  sl_dueMs :: "u64 list"

record DaliScheduler =
  sc_slots :: "Slot list"
  sc_roundRobinCursor :: u8

definition kMaximumLights :: nat where
  "kMaximumLights = 64"

definition Slot_init :: Slot where
  "Slot_init = \<lparr>sl_configured = False, sl_context = LightPollContext_init, sl_dueMs = replicate 6 0\<rparr>"

definition DaliScheduler_init :: DaliScheduler where
  "DaliScheduler_init = \<lparr>sc_slots = replicate kMaximumLights Slot_init, sc_roundRobinCursor = 0\<rparr>"

section \<open>Operations\<close>

definition configure :: "u8 \<Rightarrow> LightPollContext \<Rightarrow> u64 \<Rightarrow> DaliScheduler \<Rightarrow> DaliScheduler" where
  "configure address context nowMs s =
     (if kMaximumLights \<le> unat address then s
      else
        let due = ((((replicate 6 (nowMs + 60000))
                     [kind_index PkStatus := nowMs])
                     [kind_index PkPresence := nowMs + 30000])
                     [kind_index PkLifetime := nowMs + 21600000])
                     [kind_index PkIdentity := nowMs + 86400000]
        in s\<lparr>sc_slots := (sc_slots s)[unat address :=
               \<lparr>sl_configured = True, sl_context = context, sl_dueMs = due\<rparr>]\<rparr>)"

definition priorityFor :: "PollKind \<Rightarrow> LightPollContext \<Rightarrow> PollPriority" where
  "priorityFor kind context =
     (if kind = PkStatus \<and> (pc_warningActive context \<or> pc_recentFault context) then PpCritical
      else if kind = PkStatus \<or> kind = PkPresence then PpHigh
      else if kind = PkIdentity \<or> kind = PkLifetime then PpLow
      else PpNormal)"

fun intervalFor :: "PollKind \<Rightarrow> LightPollContext \<Rightarrow> u64 \<Rightarrow> u64" where
  "intervalFor PkStatus context nowMs =
     (let elapsed = (if pc_observationStartedMs context \<le> nowMs
                     then nowMs - pc_observationStartedMs context else 0);
          watched = pc_warningActive context \<or> pc_recentFault context
      in if watched \<and> elapsed < 60000 then 2000
         else if watched \<and> elapsed < 360000 then 5000
         else if pc_commandedOn context then 5000 else 30000)"
| "intervalFor PkPresence context nowMs = 30000"
| "intervalFor PkElectrical context nowMs =
     (if pc_warningActive context \<or> pc_recentFault context then 10000 else 60000)"
| "intervalFor PkTemperature context nowMs = (if pc_warningActive context then 10000 else 60000)"
| "intervalFor PkLifetime context nowMs = 21600000"
| "intervalFor PkIdentity context nowMs = 86400000"
| "intervalFor PkCount context nowMs = 0"

definition admit :: "PollRequest \<Rightarrow> f32 \<Rightarrow> f32 \<Rightarrow> f32 \<Rightarrow> bool" where
  "admit request utilisation normalLimit diagnosticLimit \<longleftrightarrow>
     (let limit = (if po_priority request = PpCritical then diagnosticLimit else normalLimit)
      in f32_le (F_Zero False) utilisation \<and> f32_lt utilisation limit \<and>
         0 < po_estimatedDurationMs request)"

definition poll_request :: "nat \<Rightarrow> nat \<Rightarrow> Slot \<Rightarrow> PollRequest" where
  "poll_request address kindIndex slot =
     \<lparr>po_address = word_of_nat address, po_kind = kind_at kindIndex,
      po_priority = priorityFor (kind_at kindIndex) (sl_context slot), po_estimatedDurationMs = 100\<rparr>"

text \<open>The two loops of \<open>next\<close>: over the kinds of one slot, and over the slots from the cursor.\<close>

fun scan_kinds :: "(PollRequest \<Rightarrow> bool) \<Rightarrow> u64 \<Rightarrow> nat \<Rightarrow> Slot \<Rightarrow> nat list \<Rightarrow> PollRequest option" where
  "scan_kinds adm nowMs address slot [] = None"
| "scan_kinds adm nowMs address slot (kindIndex # rest) =
     (if nowMs < sl_dueMs slot ! kindIndex then scan_kinds adm nowMs address slot rest
      else
        let request = poll_request address kindIndex slot
        in if \<not> adm request then scan_kinds adm nowMs address slot rest
           else Some request)"

fun scan_slots ::
  "(PollRequest \<Rightarrow> bool) \<Rightarrow> u64 \<Rightarrow> DaliScheduler \<Rightarrow> nat list \<Rightarrow> PollRequest option \<times> DaliScheduler"
where
  "scan_slots adm nowMs s [] = (None, s)"
| "scan_slots adm nowMs s (offset # rest) =
     (let address = (unat (sc_roundRobinCursor s) + offset) mod kMaximumLights;
          slot = sc_slots s ! address
      in if \<not> sl_configured slot then scan_slots adm nowMs s rest
         else case scan_kinds adm nowMs address slot [0..<kind_index PkCount] of
                None \<Rightarrow> scan_slots adm nowMs s rest
              | Some request \<Rightarrow>
                  (Some request,
                   s\<lparr>sc_roundRobinCursor := word_of_nat ((address + 1) mod kMaximumLights)\<rparr>))"

definition next_poll ::
  "u64 \<Rightarrow> f32 \<Rightarrow> f32 \<Rightarrow> f32 \<Rightarrow> DaliScheduler \<Rightarrow> PollRequest option \<times> DaliScheduler"
where
  "next_poll nowMs utilisation normalLimit diagnosticLimit s =
     scan_slots (\<lambda>request. admit request utilisation normalLimit diagnosticLimit) nowMs s
       [0..<kMaximumLights]"

definition complete :: "PollRequest \<Rightarrow> u64 \<Rightarrow> DaliScheduler \<Rightarrow> DaliScheduler" where
  "complete request nowMs s =
     (if kMaximumLights \<le> unat (po_address request) \<or> po_kind request = PkCount then s
      else
        let slot = sc_slots s ! unat (po_address request)
        in if \<not> sl_configured slot then s
           else s\<lparr>sc_slots := (sc_slots s)[unat (po_address request) :=
                  slot\<lparr>sl_dueMs := (sl_dueMs slot)[kind_index (po_kind request) :=
                    nowMs + intervalFor (po_kind request) (sl_context slot) nowMs]\<rparr>]\<rparr>)"

section \<open>Well-formedness\<close>

definition sched_inv :: "DaliScheduler \<Rightarrow> bool" where
  "sched_inv s \<longleftrightarrow> length (sc_slots s) = kMaximumLights \<and>
     list_all (\<lambda>slot. length (sl_dueMs slot) = 6) (sc_slots s) \<and>
     unat (sc_roundRobinCursor s) < kMaximumLights"

lemma sched_init_inv [keeps]: "sched_inv DaliScheduler_init"
  by (simp add: sched_inv_def DaliScheduler_init_def Slot_init_def kMaximumLights_def list_all_iff)

lemma configure_inv [keeps]: "sched_inv s \<Longrightarrow> sched_inv (configure a ctx t s)"
  by (simp add: sched_inv_def configure_def Let_def list_all_update)

lemma complete_inv [keeps]:
  assumes "sched_inv s"
  shows "sched_inv (complete r t s)"
proof -
  have "length (sl_dueMs (sc_slots s ! unat (po_address r))) = 6"
    if "unat (po_address r) < kMaximumLights"
    using assms that by (simp add: sched_inv_def list_all_length)
  then show ?thesis using assms by (simp add: sched_inv_def complete_def Let_def list_all_update)
qed

lemma unat_of_nat_slot: "n < kMaximumLights \<Longrightarrow> unat (word_of_nat n :: u8) = n"
  by (simp add: kMaximumLights_def unsigned_of_nat take_bit_nat_eq_self)

lemma slot_mod [simp]: "n mod kMaximumLights < kMaximumLights"
  by (simp add: kMaximumLights_def)

lemma scan_slots_inv: "sched_inv s \<Longrightarrow> sched_inv (snd (scan_slots adm t s offs))"
  by (induction offs) (auto simp: Let_def sched_inv_def unat_of_nat_slot split: option.splits)

lemma next_poll_inv [keeps]: "sched_inv s \<Longrightarrow> sched_inv (snd (next_poll t u nl dl s))"
  by (simp add: next_poll_def scan_slots_inv)

section \<open>What next picks\<close>

text \<open>A poll \<open>next\<close> may pick: the light is configured, the kind due and the request admitted.\<close>

definition candidate :: "(PollRequest \<Rightarrow> bool) \<Rightarrow> u64 \<Rightarrow> DaliScheduler \<Rightarrow> nat \<Rightarrow> nat \<Rightarrow> bool" where
  "candidate adm nowMs s a k \<longleftrightarrow>
     (let slot = sc_slots s ! a
      in a < kMaximumLights \<and> k < kind_index PkCount \<and> sl_configured slot \<and>
         sl_dueMs slot ! k \<le> nowMs \<and> adm (poll_request a k slot))"

definition pollable :: "u64 \<Rightarrow> f32 \<Rightarrow> f32 \<Rightarrow> f32 \<Rightarrow> DaliScheduler \<Rightarrow> nat \<Rightarrow> nat \<Rightarrow> bool" where
  "pollable nowMs utilisation normalLimit diagnosticLimit =
     candidate (\<lambda>request. admit request utilisation normalLimit diagnosticLimit) nowMs"

text \<open>How far behind the cursor a light stands in round-robin order.\<close>

definition rr_distance :: "DaliScheduler \<Rightarrow> nat \<Rightarrow> nat" where
  "rr_distance s a = (a + kMaximumLights - unat (sc_roundRobinCursor s)) mod kMaximumLights"

lemma scan_kinds_None:
  "scan_kinds adm t a slot ks = None \<longleftrightarrow>
   (\<forall>k \<in> set ks. \<not> (sl_dueMs slot ! k \<le> t \<and> adm (poll_request a k slot)))"
  by (induction ks) (auto simp: Let_def)

lemma scan_kinds_Some:
  "sorted_wrt (<) ks \<Longrightarrow> scan_kinds adm t a slot ks = Some r \<Longrightarrow>
   \<exists>k \<in> set ks. r = poll_request a k slot \<and> sl_dueMs slot ! k \<le> t \<and> adm r \<and>
     (\<forall>j \<in> set ks. j < k \<longrightarrow> \<not> (sl_dueMs slot ! j \<le> t \<and> adm (poll_request a j slot)))"
  by (induction ks) (auto simp: Let_def split: if_splits)

lemma slot_candidate:
  assumes "a < kMaximumLights" "sl_configured (sc_slots s ! a)"
  shows "scan_kinds adm t a (sc_slots s ! a) [0..<6] = None \<longleftrightarrow> (\<forall>k. \<not> candidate adm t s a k)"
  using assms by (auto simp: scan_kinds_None candidate_def Let_def)

abbreviation rr_slot :: "DaliScheduler \<Rightarrow> nat \<Rightarrow> nat" where
  "rr_slot s offset \<equiv> (unat (sc_roundRobinCursor s) + offset) mod kMaximumLights"

lemma scan_slots_None:
  "fst (scan_slots adm t s offs) = None \<Longrightarrow>
   snd (scan_slots adm t s offs) = s \<and> (\<forall>off \<in> set offs. \<forall>k. \<not> candidate adm t s (rr_slot s off) k)"
proof (induction offs)
  case (Cons off rest)
  show ?case
  proof (cases "sl_configured (sc_slots s ! rr_slot s off)")
    case True
    then have "scan_kinds adm t (rr_slot s off) (sc_slots s ! rr_slot s off) [0..<kind_index PkCount] = None"
      using Cons.prems by (auto simp: Let_def split: option.splits)
    then have "\<forall>k. \<not> candidate adm t s (rr_slot s off) k"
      using True by (simp add: slot_candidate)
    then show ?thesis using Cons True by (auto simp: Let_def split: option.splits)
  next
    case False
    then show ?thesis using Cons by (auto simp: Let_def candidate_def)
  qed
qed simp

lemma scan_slots_Some:
  "sorted_wrt (<) offs \<Longrightarrow> scan_slots adm t s offs = (Some r, s') \<Longrightarrow>
   \<exists>off \<in> set offs. \<exists>k. candidate adm t s (rr_slot s off) k \<and>
     r = poll_request (rr_slot s off) k (sc_slots s ! rr_slot s off) \<and>
     s' = s\<lparr>sc_roundRobinCursor := word_of_nat ((rr_slot s off + 1) mod kMaximumLights)\<rparr> \<and>
     (\<forall>j < k. \<not> candidate adm t s (rr_slot s off) j) \<and>
     (\<forall>off' \<in> set offs. off' < off \<longrightarrow> (\<forall>j. \<not> candidate adm t s (rr_slot s off') j))"
proof (induction offs)
  case (Cons off rest)
  let ?a = "rr_slot s off" and ?slot = "sc_slots s ! rr_slot s off"
  show ?case
  proof (cases "sl_configured ?slot \<and>
      scan_kinds adm t ?a ?slot [0..<kind_index PkCount] \<noteq> None")
    case True
    then obtain q where q: "scan_kinds adm t ?a ?slot [0..<kind_index PkCount] = Some q" by auto
    have "r = q" and s': "s' = s\<lparr>sc_roundRobinCursor := word_of_nat ((?a + 1) mod kMaximumLights)\<rparr>"
      using Cons.prems(2) True q by (auto simp: Let_def)
    moreover obtain k where "k < kind_index PkCount" "q = poll_request ?a k ?slot"
      "sl_dueMs ?slot ! k \<le> t" "adm q"
      "\<forall>j < k. \<not> (sl_dueMs ?slot ! j \<le> t \<and> adm (poll_request ?a j ?slot))"
      using scan_kinds_Some [OF sorted_wrt_upt q] by auto
    moreover from this have "candidate adm t s ?a k" "\<forall>j < k. \<not> candidate adm t s ?a j"
      using True by (auto simp: candidate_def Let_def)
    moreover have "\<forall>off' \<in> set (off # rest). \<not> off' < off" using Cons.prems(1) by auto
    ultimately show ?thesis by (intro bexI [of _ off] exI [of _ k]) auto
  next
    case False
    have none: "\<not> candidate adm t s ?a k" for k
      using False slot_candidate [of ?a s adm t] by (auto simp: candidate_def Let_def)
    have "scan_slots adm t s rest = (Some r, s')"
      using Cons.prems(2) False by (auto simp: Let_def split: option.splits)
    from Cons.IH [OF _ this] Cons.prems(1) none show ?thesis by auto
  qed
qed simp

lemma mod_below_twice: "x < 2 * m \<Longrightarrow> x mod m = (if x < m then x else x - m)" for x m :: nat
  by (auto simp: le_mod_geq)

lemma rr_distance_slot:
  assumes "sched_inv s"
  shows "off < kMaximumLights \<Longrightarrow> rr_distance s (rr_slot s off) = off"
    and "a < kMaximumLights \<Longrightarrow> rr_slot s (rr_distance s a) = a"
    and "rr_distance s a < kMaximumLights"
proof -
  have c: "unat (sc_roundRobinCursor s) < 64" using assms by (simp add: sched_inv_def kMaximumLights_def)
  show "off < kMaximumLights \<Longrightarrow> rr_distance s (rr_slot s off) = off"
    "a < kMaximumLights \<Longrightarrow> rr_slot s (rr_distance s a) = a" "rr_distance s a < kMaximumLights"
    using c by (simp_all add: rr_distance_def kMaximumLights_def mod_below_twice)
qed

lemma pollable_slot: "pollable t u nl dl s a k \<Longrightarrow> a < kMaximumLights"
  by (simp add: pollable_def candidate_def Let_def)

lemma next_poll_None:
  assumes "sched_inv s" "next_poll t u nl dl s = (None, s')"
  shows "s' = s \<and> \<not> pollable t u nl dl s a k"
proof -
  have "s' = s" "\<forall>off < kMaximumLights. \<forall>k. \<not> pollable t u nl dl s (rr_slot s off) k"
    using assms(2) scan_slots_None [of "\<lambda>r. admit r u nl dl" t s "[0..<kMaximumLights]"]
    by (auto simp: next_poll_def pollable_def)
  then show ?thesis using pollable_slot rr_distance_slot(2,3) [OF assms(1)] by metis
qed

lemma next_poll_Some:
  assumes "sched_inv s" "next_poll t u nl dl s = (Some r, s')"
  shows "\<exists>a k. pollable t u nl dl s a k \<and> r = poll_request a k (sc_slots s ! a) \<and>
    s' = s\<lparr>sc_roundRobinCursor := word_of_nat ((a + 1) mod 64)\<rparr> \<and>
    (\<forall>a' k'. pollable t u nl dl s a' k' \<longrightarrow> rr_distance s a < rr_distance s a' \<or> a' = a \<and> k \<le> k')"
proof -
  let ?cand = "pollable t u nl dl s"
  obtain off k where off: "off < kMaximumLights" "?cand (rr_slot s off) k"
    "r = poll_request (rr_slot s off) k (sc_slots s ! rr_slot s off)"
    "s' = s\<lparr>sc_roundRobinCursor := word_of_nat ((rr_slot s off + 1) mod kMaximumLights)\<rparr>"
    "\<forall>j < k. \<not> ?cand (rr_slot s off) j" "\<forall>off' < off. \<forall>j. \<not> ?cand (rr_slot s off') j"
    using assms(2) scan_slots_Some [OF sorted_wrt_upt, of "\<lambda>r. admit r u nl dl" t s 0 kMaximumLights r s']
    by (auto simp: next_poll_def pollable_def)
  have "rr_distance s (rr_slot s off) < rr_distance s a' \<or> a' = rr_slot s off \<and> k \<le> k'"
    if c: "?cand a' k'" for a' k'
  proof -
    have a': "rr_slot s (rr_distance s a') = a'"
      using rr_distance_slot(2) [OF assms(1)] pollable_slot c by metis
    then have "\<not> rr_distance s a' < off" using off(6) c by metis
    moreover have "a' = rr_slot s off \<and> k \<le> k'" if "rr_distance s a' = off"
      using a' that off(5) c by (metis not_le_imp_less)
    ultimately show ?thesis using rr_distance_slot(1) [OF assms(1) off(1)] by force
  qed
  then show ?thesis using off(2-4) by (auto simp: kMaximumLights_def)
qed

lemma rr_step:
  fixes a b c :: nat
  assumes "a < 64" "b < 64" "c < 64" "a \<noteq> b" "(b + 64 - c) mod 64 < (a + 64 - c) mod 64"
  shows "(a + 64 - (b + 1) mod 64) mod 64 < (a + 64 - c) mod 64"
  using assms by (auto simp: mod_below_twice split: if_splits)

lemma next_poll_progress:
  assumes "sched_inv s" and "pollable t u nl dl s a k"
    and cursor: "sc_roundRobinCursor s' = sc_roundRobinCursor (snd (next_poll t u nl dl s))"
  shows "(\<exists>r. fst (next_poll t u nl dl s) = Some r \<and> unat (po_address r) = a) \<or>
    rr_distance s' a < rr_distance s a"
proof (cases "fst (next_poll t u nl dl s)")
  case (Some r)
  then obtain b j where b: "pollable t u nl dl s b j" "r = poll_request b j (sc_slots s ! b)"
    "sc_roundRobinCursor s' = word_of_nat ((b + 1) mod 64)" 
    "rr_distance s b < rr_distance s a \<or> a = b"
    using next_poll_Some [OF assms(1), of t u nl dl r] cursor assms(2)
    by (cases "next_poll t u nl dl s") fastforce
  have lt: "a < 64" "b < 64" "unat (sc_roundRobinCursor s) < 64"
    using assms(1,2) b(1) by (simp_all add: pollable_def candidate_def Let_def kMaximumLights_def sched_inv_def)
  have c': "unat (sc_roundRobinCursor s') = (b + 1) mod 64"
    using unat_of_nat_slot [of "(b + 1) mod 64"] b(3) by (simp add: kMaximumLights_def)
  show ?thesis
  proof (cases "a = b")
    case True
    then show ?thesis using Some b(2) lt unat_of_nat_slot [of b]
      by (simp add: poll_request_def kMaximumLights_def)
  next
    case False
    then have "rr_distance s b < rr_distance s a" using b(4) by blast
    then have "rr_distance s' a < rr_distance s a"
      using rr_step [OF lt False] by (simp add: rr_distance_def c' kMaximumLights_def)
    then show ?thesis by blast
  qed
next
  case None
  then show ?thesis using next_poll_None [OF assms(1), of t u nl dl] assms(2)
    by (cases "next_poll t u nl dl s") auto
qed

lemma interval_bounds:
  assumes "kind \<noteq> PkCount"
  shows "2000 \<le> intervalFor kind ctx t" "intervalFor kind ctx t \<le> 86400000"
  using assms by (cases kind; simp add: Let_def word_le_nat_alt)+

section \<open>Properties\<close>

text \<open>
  C12: what \<open>next\<close> returns. Nothing, and no change, exactly when no configured light has a
  due and admitted poll; otherwise the request of a candidate at the smallest round-robin
  distance from the cursor and, in that light, the first kind in declaration order, and the
  cursor moves right behind that light while no due time changes.
\<close>

theorem next_poll_exact:
  assumes "sched_inv s"
  shows "(case next_poll t u nl dl s of
      (None, s') \<Rightarrow> s' = s \<and> (\<forall>a k. \<not> pollable t u nl dl s a k)
    | (Some r, s') \<Rightarrow> \<exists>a k. pollable t u nl dl s a k \<and> r = poll_request a k (sc_slots s ! a) \<and>
        s' = s\<lparr>sc_roundRobinCursor := word_of_nat ((a + 1) mod 64)\<rparr> \<and>
        (\<forall>a' k'. pollable t u nl dl s a' k' \<longrightarrow> rr_distance s a < rr_distance s a' \<or> a' = a \<and> k \<le> k'))"
  using next_poll_None [OF assms] next_poll_Some [OF assms]
  by (fastforce split: prod.splits option.splits)

text \<open>
  C13: no light is starved. Along any sequence of calls in which a light keeps an admissible
  due poll (whatever \<open>configure\<close> and \<open>complete\<close> do in between, they leave the cursor alone),
  one of 64 consecutive calls of \<open>next\<close> serves that light.
\<close>

theorem next_poll_fair:
  fixes s :: "nat \<Rightarrow> DaliScheduler"
  assumes "\<And>i. sched_inv (s i)"
    and "\<And>i. sc_roundRobinCursor (s (Suc i)) =
      sc_roundRobinCursor (snd (next_poll (t i) (u i) (nl i) (dl i) (s i)))"
    and "\<And>i. i < 64 \<Longrightarrow> \<exists>k. pollable (t i) (u i) (nl i) (dl i) (s i) a k"
  shows "\<exists>i < 64. \<exists>r. fst (next_poll (t i) (u i) (nl i) (dl i) (s i)) = Some r \<and> unat (po_address r) = a"
proof (rule ccontr)
  let ?served = "\<lambda>i. \<exists>r. fst (next_poll (t i) (u i) (nl i) (dl i) (s i)) = Some r \<and> unat (po_address r) = a"
  assume "\<not> (\<exists>i < 64. ?served i)"
  then have step: "rr_distance (s (Suc i)) a < rr_distance (s i) a" if "i < 64" for i
    using next_poll_progress [OF assms(1) _ assms(2)] assms(3) that by blast
  have "n \<le> 64 \<Longrightarrow> rr_distance (s n) a + n \<le> rr_distance (s 0) a" for n
  proof (induction n)
    case (Suc n)
    then show ?case using step [of n] by simp
  qed simp
  from this [of 64] rr_distance_slot(3) [OF assms(1), of 0 a] show False
    by (simp add: kMaximumLights_def)
qed

text \<open>
  C14: \<open>complete\<close> makes the poll wait for its interval and touches nothing else. Every
  interval lies between 2 s and 24 h; unless the 64-bit clock is within a day of its end the
  completed poll is pollable again exactly from \<open>nowMs\<close> plus the interval on, and every
  other poll of every light is pollable as before.
\<close>

theorem complete_reschedules:
  assumes "sched_inv s" and "unat (po_address r) = a" and "a < 64" and "po_kind r \<noteq> PkCount"
    and "sl_configured (sc_slots s ! a)" and "t \<le> - 86400001"
  shows "2000 \<le> intervalFor (po_kind r) (sl_context (sc_slots s ! a)) t \<and>
    intervalFor (po_kind r) (sl_context (sc_slots s ! a)) t \<le> 86400000 \<and>
    (pollable t' u nl dl (complete r t s) a (kind_index (po_kind r)) \<longleftrightarrow>
      unat t + unat (intervalFor (po_kind r) (sl_context (sc_slots s ! a)) t) \<le> unat t' \<and>
      admit (poll_request a (kind_index (po_kind r)) (sc_slots s ! a)) u nl dl) \<and>
    ((b, k) = (a, kind_index (po_kind r)) \<or>
      pollable t' u nl dl (complete r t s) b k = pollable t' u nl dl s b k)"
proof -
  let ?i = "intervalFor (po_kind r) (sl_context (sc_slots s ! a)) t"
  let ?k = "kind_index (po_kind r)" and ?slot = "sc_slots s ! a"
  have i: "2000 \<le> ?i" "?i \<le> 86400000" by (rule interval_bounds [OF assms(4)])+
  have len: "a < length (sc_slots s)" "length (sl_dueMs ?slot) = 6"
    using assms(1,3) by (simp_all add: sched_inv_def kMaximumLights_def list_all_length)
  have k: "?k < 6" using assms(4) by (cases "po_kind r") simp_all
  let ?new = "?slot\<lparr>sl_dueMs := (sl_dueMs ?slot)[?k := t + ?i]\<rparr>"
  have c: "complete r t s = s\<lparr>sc_slots := (sc_slots s)[a := ?new]\<rparr>"
    using assms by (simp add: complete_def kMaximumLights_def Let_def)
  have wrap: "unat (t + ?i) = unat t + unat ?i"
    using assms(6) i(2) by (simp add: word_le_nat_alt unat_word_ariths)
  have "pollable t' u nl dl (complete r t s) a ?k \<longleftrightarrow>
      unat t + unat ?i \<le> unat t' \<and> admit (poll_request a ?k ?slot) u nl dl"
    using len k assms(3,5)
    by (simp add: c pollable_def candidate_def Let_def kMaximumLights_def poll_request_def
        word_le_nat_alt [of "t + ?i"] wrap)
  moreover have "(b, k) = (a, ?k) \<or>
      pollable t' u nl dl (complete r t s) b k = pollable t' u nl dl s b k"
    using len k by (cases "b = a")
      (auto simp: c pollable_def candidate_def Let_def poll_request_def)
  ultimately show ?thesis using i by blast
qed

text \<open>
  Configuring a light makes exactly its status poll due, with high priority or, for a
  light with a warning or recent fault, critical; an address of 64 or more changes nothing,
  and no other light is touched.
\<close>

theorem configure_status_first:
  assumes "sched_inv s" and "t \<le> - 86400001"
  shows "(64 \<le> unat a \<or>
      pollable t u nl dl (configure a ctx t s) (unat a) k =
        (k = 0 \<and> admit \<lparr>po_address = a, po_kind = PkStatus,
          po_priority = (if pc_warningActive ctx \<or> pc_recentFault ctx then PpCritical else PpHigh),
          po_estimatedDurationMs = 100\<rparr> u nl dl)) \<and>
    (unat a < 64 \<or> configure a ctx t s = s) \<and>
    (b = unat a \<or> pollable t' u nl dl (configure a ctx t s) b k' = pollable t' u nl dl s b k')"
proof (cases "unat a < 64")
  case True
  have len: "length (sc_slots s) = 64" using assms(1) by (simp add: sched_inv_def kMaximumLights_def)
  have later: "t < t + d" if "0 < d" "d \<le> 86400000" for d :: u64
    using that assms(2) by (simp add: word_le_nat_alt word_less_nat_alt unat_word_ariths)
  have k: "k = 0 \<or> k = 1 \<or> k = 2 \<or> k = 3 \<or> k = 4 \<or> k = 5" if "k < 6"
    using that by arith
  have "pollable t u nl dl (configure a ctx t s) (unat a) k =
      (k = 0 \<and> admit (poll_request (unat a) 0 \<lparr>sl_configured = True, sl_context = ctx, sl_dueMs = d\<rparr>) u nl dl)" for d
    using True len k later [of 60000] later [of 30000] later [of 21600000] later [of 86400000]
    by (auto simp: pollable_def candidate_def configure_def Let_def kMaximumLights_def poll_request_def
        not_le nth_list_update)
  moreover have "b = unat a \<or> pollable t' u nl dl (configure a ctx t s) b k' = pollable t' u nl dl s b k'"
    using True len
    by (auto simp: pollable_def candidate_def configure_def Let_def kMaximumLights_def poll_request_def)
  ultimately show ?thesis using True
    by (simp add: poll_request_def kind_at_def priorityFor_def)
next
  case False
  then show ?thesis by (simp add: configure_def kMaximumLights_def)
qed

section \<open>The properties on a concrete scheduler\<close>

text \<open>Light 5 with a recent fault, configured at time 1000; half of the bus in use.\<close>

definition watched_context :: LightPollContext where
  "watched_context = LightPollContext_init\<lparr>pc_recentFault := True, pc_observationStartedMs := 1000\<rparr>"

definition one_light :: DaliScheduler where
  "one_light = configure 5 watched_context 1000 DaliScheduler_init"

definition half_load :: f32 where
  "half_load = f32_lit (1 / 2)"

lemma one_light_inv: "sched_inv one_light"
  by (simp add: one_light_def keeps)

lemma one_light_next: 
  "next_poll 1000 half_load (f32_lit 1) (f32_lit 1) one_light =
     (Some \<lparr>po_address = 5, po_kind = PkStatus, po_priority = PpCritical, po_estimatedDurationMs = 100\<rparr>,
      one_light\<lparr>sc_roundRobinCursor := 6\<rparr>)"
  by code_simp

lemma one_light_pollable: "pollable 1000 half_load (f32_lit 1) (f32_lit 1) one_light 5 0"
  by code_simp

theorem next_poll_exact_witness:
  "\<exists>a k. pollable 1000 half_load (f32_lit 1) (f32_lit 1) one_light a k \<and>
     po_address (poll_request a k (sc_slots one_light ! a)) = 5"
proof -
  from next_poll_exact [OF one_light_inv, of 1000 half_load "f32_lit 1" "f32_lit 1"]
  obtain a k where "pollable 1000 half_load (f32_lit 1) (f32_lit 1) one_light a k"
    "\<lparr>po_address = 5, po_kind = PkStatus, po_priority = PpCritical, po_estimatedDurationMs = 100\<rparr> =
      poll_request a k (sc_slots one_light ! a)"
    by (auto simp: one_light_next)
  then show ?thesis by (metis PollRequest.select_convs(1))
qed

definition poll_trace :: "nat \<Rightarrow> DaliScheduler" where
  "poll_trace i = ((\<lambda>s. snd (next_poll 1000 half_load (f32_lit 1) (f32_lit 1) s)) ^^ i) one_light"

lemma poll_trace_inv: "sched_inv (poll_trace i)"
  by (induction i) (simp_all add: poll_trace_def one_light_inv keeps)

lemma next_poll_slots: "sched_inv s \<Longrightarrow> sc_slots (snd (next_poll t u nl dl s)) = sc_slots s"
  using next_poll_Some [of s t u nl dl] next_poll_None [of s t u nl dl]
  by (cases "next_poll t u nl dl s"; cases "fst (next_poll t u nl dl s)") fastforce+

lemma poll_trace_slots: "sc_slots (poll_trace i) = sc_slots one_light"
  using next_poll_slots [OF poll_trace_inv] by (induction i) (simp_all add: poll_trace_def)

theorem next_poll_fair_witness:
  "\<exists>i < 64. \<exists>r. fst (next_poll 1000 half_load (f32_lit 1) (f32_lit 1) (poll_trace i)) = Some r \<and>
     unat (po_address r) = 5"
proof (rule next_poll_fair [where t = "\<lambda>_. 1000" and u = "\<lambda>_. half_load" and nl = "\<lambda>_. f32_lit 1"
      and dl = "\<lambda>_. f32_lit 1", OF poll_trace_inv])
  show "\<exists>k. pollable 1000 half_load (f32_lit 1) (f32_lit 1) (poll_trace i) 5 k" for i
    using one_light_pollable by (intro exI [of _ 0]) (simp add: pollable_def candidate_def poll_trace_slots)
qed (simp add: poll_trace_def)

theorem complete_reschedules_witness:
  "pollable 3000 half_load (f32_lit 1) (f32_lit 1)
     (complete (poll_request 5 0 (sc_slots one_light ! 5)) 1000 one_light) 5 0 \<and>
   \<not> pollable 2999 half_load (f32_lit 1) (f32_lit 1)
     (complete (poll_request 5 0 (sc_slots one_light ! 5)) 1000 one_light) 5 0"
proof -
  let ?r = "poll_request 5 0 (sc_slots one_light ! 5)"
  have r: "po_kind ?r = PkStatus" "unat (po_address ?r) = 5" "sl_configured (sc_slots one_light ! 5)"
    "intervalFor PkStatus (sl_context (sc_slots one_light ! 5)) 1000 = 2000"
    by code_simp+
  have "po_kind ?r \<noteq> PkCount" "(1000 :: u64) \<le> - 86400001" using r by (simp_all add: word_le_nat_alt)
  from complete_reschedules [OF one_light_inv r(2) _ this(1) r(3) this(2)]
  have "pollable t' half_load (f32_lit 1) (f32_lit 1) (complete ?r 1000 one_light) 5 0 \<longleftrightarrow>
      3000 \<le> unat t' \<and> admit (poll_request 5 0 (sc_slots one_light ! 5)) half_load (f32_lit 1) (f32_lit 1)" for t'
    using r by simp
  moreover have "admit (poll_request 5 0 (sc_slots one_light ! 5)) half_load (f32_lit 1) (f32_lit 1)"
    by code_simp
  ultimately show ?thesis by simp
qed

theorem configure_status_first_witness:
  "pollable 1000 half_load (f32_lit 1) (f32_lit 1) (configure 9 watched_context 1000 one_light) 9 0"
proof -
  have t: "(1000 :: u64) \<le> - 86400001" by (simp add: word_le_nat_alt)
  have "admit \<lparr>po_address = 9, po_kind = PkStatus,
      po_priority = (if pc_warningActive watched_context \<or> pc_recentFault watched_context
        then PpCritical else PpHigh),
      po_estimatedDurationMs = 100\<rparr> half_load (f32_lit 1) (f32_lit 1)" by code_simp
  then show ?thesis using configure_status_first [OF one_light_inv t, of 9] by simp
qed

end
