(* ===== verification/Device_Manager.thy ===== *)
theory Device_Manager
  imports App_Adapters
begin

text \<open>
  Discovery and capability detection, \<open>dali_device_manager.h/.cpp\<close>. The registry is an array
  of 64 optional records with a count, a scan asks every short address once and reports
  lifecycle changes in a batch of fixed capacity. The function-local \<open>static\<close> array of
  \<open>scanPresence\<close> is one object shared by all managers: it is passed in and returned.
\<close>

section \<open>Data\<close>

datatype DeviceLifecycle = DlUnknown | DlPresent | DlMissing | DlDuplicateAddress

datatype CapabilityState = CsUnknown | CsSupported | CsUnsupported

datatype CapabilityFeature =
    CfBasicStatus | CfDeviceType | CfVersion | CfPhysicalMinimum | CfEnergy | CfPower | CfCurrent
  | CfTemperature | CfOperatingHours | CfFailureCounters | CfDiagnostics | CfIdentification | CfCount

fun feature_index :: "CapabilityFeature \<Rightarrow> nat" where
  "feature_index CfBasicStatus = 0"
| "feature_index CfDeviceType = 1"
| "feature_index CfVersion = 2"
| "feature_index CfPhysicalMinimum = 3"
| "feature_index CfEnergy = 4"
| "feature_index CfPower = 5"
| "feature_index CfCurrent = 6"
| "feature_index CfTemperature = 7"
| "feature_index CfOperatingHours = 8"
| "feature_index CfFailureCounters = 9"
| "feature_index CfDiagnostics = 10"
| "feature_index CfIdentification = 11"
| "feature_index CfCount = 12"

record CapabilityEntry =
  ce_state :: CapabilityState
  ce_consecutiveNoResponses :: u8

type_synonym DaliCapabilityMap = "CapabilityEntry list"

definition DaliCapabilityMap_init :: DaliCapabilityMap where
  "DaliCapabilityMap_init =
     replicate (feature_index CfCount) \<lparr>ce_state = CsUnknown, ce_consecutiveNoResponses = 0\<rparr>"

definition cap_at :: "DaliCapabilityMap \<Rightarrow> CapabilityFeature \<Rightarrow> CapabilityEntry" where
  "cap_at m feature = m ! feature_index feature"

record DaliDeviceRecord =
  dv_address :: ShortAddress
  dv_lifecycle :: DeviceLifecycle
  dv_present :: bool
  dv_missedPresenceChecks :: u8
  dv_firstSeenUptimeMs :: u64
  dv_lastSeenUptimeMs :: u64
  dv_capabilities :: DaliCapabilityMap
  dv_realtime :: LightRealtimeData
  dv_lifetime :: LightLifetimeData
  dv_health :: LightHealthData
  dv_deviceType :: "u8 Reading"
  dv_version :: "u8 Reading"
  dv_physicalMinimum :: "u8 Reading"

definition DaliDeviceRecord_new :: "ShortAddress \<Rightarrow> u64 \<Rightarrow> DaliDeviceRecord" where
  "DaliDeviceRecord_new shortAddress nowMs =
     \<lparr>dv_address = shortAddress, dv_lifecycle = DlUnknown, dv_present = False,
      dv_missedPresenceChecks = 0, dv_firstSeenUptimeMs = nowMs, dv_lastSeenUptimeMs = nowMs,
      dv_capabilities = DaliCapabilityMap_init,
      dv_realtime = LightRealtimeData_init\<lparr>rt_shortAddress := sa_value shortAddress\<rparr>,
      dv_lifetime = LightLifetimeData_init, dv_health = LightHealthData_init,
      dv_deviceType = Reading_init 0, dv_version = Reading_init 0, dv_physicalMinimum = Reading_init 0\<rparr>"

datatype DiscoveryChangeType =
  DcDeviceDiscovered | DcDeviceMissing | DcDeviceRecovered | DcDuplicateAddressSuspected

record DiscoveryChange =
  dg_type :: DiscoveryChangeType
  dg_address :: ShortAddress
  dg_uptimeMs :: u64

definition DiscoveryChange_init :: DiscoveryChange where
  "DiscoveryChange_init =
     \<lparr>dg_type = DcDeviceDiscovered, dg_address = ShortAddress 0, dg_uptimeMs = 0\<rparr>"

record DiscoveryBatch =
  db_changes :: "DiscoveryChange list"
  db_size :: nat

definition kDiscoveryCapacity :: nat where
  "kDiscoveryCapacity = 64"

definition DiscoveryBatch_init :: DiscoveryBatch where
  "DiscoveryBatch_init = \<lparr>db_changes = replicate kDiscoveryCapacity DiscoveryChange_init, db_size = 0\<rparr>"

definition batch_add :: "DiscoveryChange \<Rightarrow> DiscoveryBatch \<Rightarrow> bool \<times> DiscoveryBatch" where
  "batch_add change b =
     (if db_size b = kDiscoveryCapacity then (False, b)
      else (True, b\<lparr>db_changes := (db_changes b)[db_size b := change], db_size := db_size b + 1\<rparr>))"

record DaliDeviceRegistry =
  rg_records :: "DaliDeviceRecord option list"
  rg_count :: nat

definition kRegistryCapacity :: nat where
  "kRegistryCapacity = 64"

definition DaliDeviceRegistry_init :: DaliDeviceRegistry where
  "DaliDeviceRegistry_init = \<lparr>rg_records = replicate kRegistryCapacity None, rg_count = 0\<rparr>"

section \<open>The registry\<close>

definition rg_find :: "ShortAddress \<Rightarrow> DaliDeviceRegistry \<Rightarrow> DaliDeviceRecord option" where
  "rg_find address rg = rg_records rg ! unat (sa_value address)"

definition rg_upsert :: "ShortAddress \<Rightarrow> u64 \<Rightarrow> DaliDeviceRegistry \<Rightarrow> DaliDeviceRegistry" where
  "rg_upsert address nowMs rg =
     (case rg_records rg ! unat (sa_value address) of
        None \<Rightarrow> rg\<lparr>rg_records := (rg_records rg)[unat (sa_value address) :=
                   Some (DaliDeviceRecord_new address nowMs)], rg_count := rg_count rg + 1\<rparr>
      | Some r \<Rightarrow> rg\<lparr>rg_records := (rg_records rg)[unat (sa_value address) :=
                   Some (r\<lparr>dv_lastSeenUptimeMs := nowMs\<rparr>)]\<rparr>)"

text \<open>Writing through the pointer or reference that \<open>find\<close> and \<open>upsert\<close> return.\<close>

definition rg_modify ::
  "ShortAddress \<Rightarrow> (DaliDeviceRecord \<Rightarrow> DaliDeviceRecord) \<Rightarrow> DaliDeviceRegistry \<Rightarrow> DaliDeviceRegistry"
where
  "rg_modify address f rg = rg\<lparr>rg_records :=
     (rg_records rg)[unat (sa_value address) := map_option f (rg_records rg ! unat (sa_value address))]\<rparr>"

section \<open>Scanning\<close>

record 'c DaliDeviceManager =
  dm_client :: 'c
  dm_registry :: DaliDeviceRegistry

definition isValidResponse :: "DaliQueryResult \<Rightarrow> bool" where
  "isValidResponse result \<longleftrightarrow> qr_outcome result = QoOk \<and> hasValue (qr_response result)"

definition isBusFailure :: "DaliQueryResult \<Rightarrow> bool" where
  "isBusFailure result \<longleftrightarrow> qr_outcome result = QoBusFailure \<or> qr_phyResult result = PhyBusPowerLost"

definition mark_present :: "DaliDeviceRecord \<Rightarrow> DaliDeviceRecord" where
  "mark_present r = r\<lparr>dv_lifecycle := DlPresent, dv_present := True, dv_missedPresenceChecks := 0\<rparr>"

text \<open>\<open>if (missed < 3) ++missed\<close>.\<close>

definition missed_inc :: "u8 \<Rightarrow> u8" where
  "missed_inc missed = (if missed < 3 then missed + 1 else missed)"

text \<open>The state of the loop: the batch, the static array and the manager.\<close>

definition scan_step ::
  "'c IDaliQueryClient \<Rightarrow> u64 \<Rightarrow> nat \<Rightarrow> DiscoveryBatch \<times> bool list \<times> 'c DaliDeviceManager \<Rightarrow>
   DiscoveryBatch \<times> bool list \<times> 'c DaliDeviceManager"
where
  "scan_step client nowMs raw st =
     (let (batch, reported, m) = st;
          address = ShortAddress (word_of_nat raw);
          (result, c) = qc_query client address QueryControlGearPresent CpHigh (dm_client m);
          m = m\<lparr>dm_client := c\<rparr>;
          rg = dm_registry m;
          change = (\<lambda>t. \<lparr>dg_type = t, dg_address = address, dg_uptimeMs = nowMs\<rparr>)
      in if isValidResponse result
         then let reported = reported[raw := False]
              in case rg_find address rg of
                   None \<Rightarrow>
                     (snd (batch_add (change DcDeviceDiscovered) batch), reported,
                      m\<lparr>dm_registry := rg_modify address mark_present (rg_upsert address nowMs rg)\<rparr>)
                 | Some r \<Rightarrow>
                     ((if dv_lifecycle r = DlMissing
                       then snd (batch_add (change DcDeviceRecovered) batch) else batch), reported,
                      m\<lparr>dm_registry := rg_modify address
                         (\<lambda>r. (mark_present r)\<lparr>dv_lastSeenUptimeMs := nowMs\<rparr>) rg\<rparr>)
         else if qr_outcome result = QoCollision
         then let m = m\<lparr>dm_registry := rg_modify address (\<lambda>r. r\<lparr>dv_lifecycle := DlDuplicateAddress\<rparr>) rg\<rparr>
              in if \<not> reported ! raw
                 then (snd (batch_add (change DcDuplicateAddressSuspected) batch), reported[raw := True], m)
                 else (batch, reported, m)
         else case rg_find address rg of
                None \<Rightarrow> (batch, reported, m)
              | Some r \<Rightarrow>
                  if isBusFailure result \<or> dv_lifecycle r = DlMissing then (batch, reported, m)
                  else
                    let missed = missed_inc (dv_missedPresenceChecks r)
                    in if 3 \<le> missed
                       then (snd (batch_add (change DcDeviceMissing) batch), reported,
                             m\<lparr>dm_registry := rg_modify address (\<lambda>r. r\<lparr>dv_missedPresenceChecks := missed,
                                dv_lifecycle := DlMissing, dv_present := False\<rparr>) rg\<rparr>)
                       else (batch, reported,
                             m\<lparr>dm_registry := rg_modify address
                                (\<lambda>r. r\<lparr>dv_missedPresenceChecks := missed\<rparr>) rg\<rparr>))"

definition scanPresence ::
  "'c IDaliQueryClient \<Rightarrow> u64 \<Rightarrow> bool list \<Rightarrow> 'c DaliDeviceManager \<Rightarrow>
   DiscoveryBatch \<times> bool list \<times> 'c DaliDeviceManager"
where
  "scanPresence client nowMs reported m =
     fold (scan_step client nowMs) [0..<kRegistryCapacity] (DiscoveryBatch_init, reported, m)"

section \<open>Capability detection\<close>

text \<open>
  The lambda \<open>probe\<close>: \<open>store\<close> writes the reading through the destination pointer (nothing
  for \<open>nullptr\<close>). The record exists, as the caller has checked.
\<close>

definition probe ::
  "'c IDaliQueryClient \<Rightarrow> ShortAddress \<Rightarrow> u64 \<Rightarrow> CapabilityFeature \<Rightarrow> DaliCommand \<Rightarrow>
   (u8 Reading \<Rightarrow> DaliDeviceRecord \<Rightarrow> DaliDeviceRecord) \<Rightarrow> DaliDeviceRecord \<times> 'c \<Rightarrow> DaliDeviceRecord \<times> 'c"
where
  "probe client address nowMs feature command store st =
     (let (r, c) = st;
          entry = cap_at (dv_capabilities r) feature;
          put = (\<lambda>e r. r\<lparr>dv_capabilities := (dv_capabilities r)[feature_index feature := e]\<rparr>)
      in if ce_state entry = CsUnsupported then (r, c)
         else
           let (result, c) = qc_query client address command CpHigh c
           in if isValidResponse result
              then (store (Reading_valid (rd_value (qr_response result)) nowMs 0 False)
                      (put \<lparr>ce_state = CsSupported, ce_consecutiveNoResponses = 0\<rparr> r), c)
              else if isBusFailure result \<or> qr_outcome result = QoCollision then (r, c)
              else
                let n = (if ce_consecutiveNoResponses entry < 2 then ce_consecutiveNoResponses entry + 1
                         else ce_consecutiveNoResponses entry)
                in (put \<lparr>ce_state = (if 2 \<le> n then CsUnsupported else ce_state entry),
                         ce_consecutiveNoResponses = n\<rparr> r, c))"

definition detectCoreCapabilities ::
  "'c IDaliQueryClient \<Rightarrow> ShortAddress \<Rightarrow> u64 \<Rightarrow> 'c DaliDeviceManager \<Rightarrow>
   DiscoveryBatch \<times> 'c DaliDeviceManager"
where
  "detectCoreCapabilities client address nowMs m =
     (case rg_find address (dm_registry m) of
        None \<Rightarrow> (DiscoveryBatch_init, m)
      | Some r \<Rightarrow>
          let st0 = (r, dm_client m);
              st1 = probe client address nowMs CfBasicStatus QueryStatus (\<lambda>v r. r) st0;
              st2 = probe client address nowMs CfDeviceType QueryDeviceType
                      (\<lambda>v r. r\<lparr>dv_deviceType := v\<rparr>) st1;
              st3 = probe client address nowMs CfVersion QueryVersionNumber
                      (\<lambda>v r. r\<lparr>dv_version := v\<rparr>) st2;
              (r4, c4) = probe client address nowMs CfPhysicalMinimum QueryPhysicalMinimum
                      (\<lambda>v r. r\<lparr>dv_physicalMinimum := v\<rparr>) st3
          in (DiscoveryBatch_init,
              m\<lparr>dm_client := c4, dm_registry := rg_modify address (\<lambda>_. r4) (dm_registry m)\<rparr>))"

section \<open>Well-formedness\<close>

definition record_inv :: "nat \<Rightarrow> DaliDeviceRecord \<Rightarrow> bool" where
  "record_inv i r \<longleftrightarrow> dv_address r = ShortAddress (word_of_nat i) \<and>
     rt_shortAddress (dv_realtime r) = word_of_nat i \<and> dv_missedPresenceChecks r \<le> 3 \<and>
     (dv_lifecycle r = DlMissing \<longrightarrow> \<not> dv_present r \<and> dv_missedPresenceChecks r = 3) \<and>
     (dv_lifecycle r = DlPresent \<longrightarrow> dv_present r \<and> dv_missedPresenceChecks r < 3) \<and>
     length (dv_capabilities r) = feature_index CfCount"

definition reg_inv :: "DaliDeviceRegistry \<Rightarrow> bool" where
  "reg_inv rg \<longleftrightarrow> length (rg_records rg) = kRegistryCapacity \<and>
     rg_count rg = length (filter (\<lambda>r. r \<noteq> None) (rg_records rg)) \<and>
     (\<forall>i < kRegistryCapacity. pred_option (record_inv i) (rg_records rg ! i))"

text \<open>Address \<open>i\<close> as the scan makes it, and its slot.\<close>

lemma slot_index [simp]: "i < kRegistryCapacity \<Longrightarrow> unat (word_of_nat i :: u8) = i"
  by (simp add: kRegistryCapacity_def unsigned_of_nat take_bit_nat_eq_self)

lemma reg_init_inv [keeps]: "reg_inv DaliDeviceRegistry_init"
  by (simp add: reg_inv_def DaliDeviceRegistry_init_def)

lemma record_new_inv [keeps]: "record_inv i (DaliDeviceRecord_new (ShortAddress (word_of_nat i)) t)"
  by (simp add: record_inv_def DaliDeviceRecord_new_def DaliCapabilityMap_init_def)

lemma upsert_inv [keeps]:
  assumes "reg_inv rg" "i < kRegistryCapacity"
  shows "reg_inv (rg_upsert (ShortAddress (word_of_nat i)) t rg)"
proof (cases "rg_records rg ! i")
  case None
  then show ?thesis
    using assms length_filter_update [of i "rg_records rg" "\<lambda>r. r \<noteq> None"]
    by (auto simp: reg_inv_def rg_upsert_def nth_list_update keeps)
next
  case (Some r)
  have "record_inv i r" using assms Some by (force simp: reg_inv_def)
  then have "record_inv i (r\<lparr>dv_lastSeenUptimeMs := t\<rparr>)" by (simp add: record_inv_def)
  then show ?thesis
    using assms Some length_filter_update [of i "rg_records rg" "\<lambda>r. r \<noteq> None"
      "Some (r\<lparr>dv_lastSeenUptimeMs := t\<rparr>)"]
    by (auto simp: reg_inv_def rg_upsert_def nth_list_update)
qed

lemma modify_inv [keeps]:
  assumes "reg_inv rg" "i < kRegistryCapacity"
    and "\<And>r. rg_records rg ! i = Some r \<Longrightarrow> record_inv i (f r)"
  shows "reg_inv (rg_modify (ShortAddress (word_of_nat i)) f rg)"
  using assms length_filter_update [of i "rg_records rg" "\<lambda>r. r \<noteq> None" "map_option f (rg_records rg ! i)"]
  by (cases "rg_records rg ! i") (auto simp: reg_inv_def rg_modify_def nth_list_update)

definition batch_list :: "DiscoveryBatch \<Rightarrow> DiscoveryChange list" where
  "batch_list b = take (db_size b) (db_changes b)"

definition batch_inv :: "DiscoveryBatch \<Rightarrow> bool" where
  "batch_inv b \<longleftrightarrow> length (db_changes b) = kDiscoveryCapacity \<and> db_size b \<le> kDiscoveryCapacity"

lemma batch_init_inv [keeps]: "batch_inv DiscoveryBatch_init"
  by (simp add: batch_inv_def DiscoveryBatch_init_def)

lemma batch_init_list [simp]: "batch_list DiscoveryBatch_init = []"
  by (simp add: batch_list_def DiscoveryBatch_init_def)

lemma batch_add_inv [keeps]: "batch_inv b \<Longrightarrow> batch_inv (snd (batch_add c b))"
  by (auto simp: batch_inv_def batch_add_def)

lemma batch_add_list:
  "batch_inv b \<Longrightarrow> batch_list (snd (batch_add c b)) =
     (if db_size b = kDiscoveryCapacity then batch_list b else batch_list b @ [c])"
  by (auto simp: batch_inv_def batch_add_def batch_list_def)

text \<open>A loop over the indices of a batch is a loop over its changes.\<close>

lemma fold_batch:
  assumes "batch_inv b"
  shows "fold (\<lambda>i. f (db_changes b ! i)) [0..<db_size b] x = fold f (batch_list b) x"
proof -
  have "batch_list b = map (\<lambda>i. db_changes b ! i) [0..<db_size b]"
    using assms by (intro nth_equalityI) (auto simp: batch_list_def batch_inv_def)
  then show ?thesis by (simp add: fold_map comp_def)
qed

lemma length_batch_list: "batch_inv b \<Longrightarrow> length (batch_list b) = db_size b"
  by (simp add: batch_inv_def batch_list_def)

section \<open>The life of one address\<close>

text \<open>
  The specification of a scan, address by address: what an answer means, and how the life
  of the address (its record's lifecycle and miss count, if it has a record, and whether a
  clash was reported) goes on.
\<close>

datatype presence_answer = Heard | Clash | BusLost | Silent

definition classify :: "DaliQueryResult \<Rightarrow> presence_answer" where
  "classify result =
     (if isValidResponse result then Heard
      else if qr_outcome result = QoCollision then Clash
      else if isBusFailure result then BusLost
      else Silent)"

type_synonym light_view = "(DeviceLifecycle \<times> nat) option \<times> bool"

fun light_step :: "presence_answer \<Rightarrow> light_view \<Rightarrow> light_view \<times> DiscoveryChangeType option" where
  "light_step Heard (None, _) = ((Some (DlPresent, 0), False), Some DcDeviceDiscovered)"
| "light_step Heard (Some (l, _), _) =
     ((Some (DlPresent, 0), False), if l = DlMissing then Some DcDeviceRecovered else None)"
| "light_step Clash (s, d) =
     ((map_option (\<lambda>(l, n). (DlDuplicateAddress, n)) s, True),
      if d then None else Some DcDuplicateAddressSuspected)"
| "light_step BusLost v = (v, None)"
| "light_step Silent (None, d) = ((None, d), None)"
| "light_step Silent (Some (l, n), d) =
     (if l = DlMissing then ((Some (l, n), d), None)
      else if n < 2 then ((Some (l, Suc n), d), None)
      else ((Some (DlMissing, 3), d), Some DcDeviceMissing))"

definition light_view :: "'c DaliDeviceManager \<Rightarrow> bool list \<Rightarrow> nat \<Rightarrow> light_view" where
  "light_view m reported i =
     (map_option (\<lambda>r. (dv_lifecycle r, unat (dv_missedPresenceChecks r))) (rg_records (dm_registry m) ! i),
      reported ! i)"

section \<open>A scan lives every address once\<close>

definition scan_inv :: "nat \<Rightarrow> DiscoveryBatch \<times> bool list \<times> 'c DaliDeviceManager \<Rightarrow> bool" where
  "scan_inv n st \<longleftrightarrow> (case st of (batch, reported, m) \<Rightarrow>
     batch_inv batch \<and> db_size batch \<le> n \<and> length reported = kRegistryCapacity \<and>
     reg_inv (dm_registry m))"

definition change_at :: "u64 \<Rightarrow> nat \<Rightarrow> DiscoveryChangeType option \<Rightarrow> DiscoveryChange list" where
  "change_at nowMs i t = (case t of None \<Rightarrow> []
     | Some t \<Rightarrow> [\<lparr>dg_type = t, dg_address = ShortAddress (word_of_nat i), dg_uptimeMs = nowMs\<rparr>])"

lemma record_at:
  assumes "reg_inv rg" "i < kRegistryCapacity" "rg_records rg ! i = Some r"
  shows "record_inv i r"
  using assms by (force simp: reg_inv_def)

lemma modify_records:
  assumes "i < kRegistryCapacity"
  shows "rg_records (rg_modify (ShortAddress (word_of_nat i)) f rg) =
    (rg_records rg)[i := map_option f (rg_records rg ! i)]"
  using assms by (simp add: rg_modify_def)

lemma upsert_records:
  assumes "i < kRegistryCapacity" "rg_records rg ! i = None"
  shows "rg_records (rg_upsert (ShortAddress (word_of_nat i)) t rg) =
    (rg_records rg)[i := Some (DaliDeviceRecord_new (ShortAddress (word_of_nat i)) t)]"
  using assms by (simp add: rg_upsert_def)

lemma missed_step:
  assumes "w \<le> 3"
  shows "unat (missed_inc w) = (if unat w < 2 then Suc (unat w) else 3)"
proof (rule word_below_cases [where n = 4 and v = w and
      P = "\<lambda>w. unat (missed_inc w) = (if unat w < 2 then Suc (unat w) else 3)"])
  show "unat w < 4" using assms by (simp add: word_le_nat_alt)
qed code_simp

lemma missed_bound: "w \<le> 3 \<Longrightarrow> missed_inc w \<le> 3 \<and> (3 \<le> missed_inc w \<longleftrightarrow> 2 \<le> unat w)"
  using missed_step [of w] by (auto simp: word_le_nat_alt)

text \<open>One iteration: the answer's effect on its own address and on nothing else.\<close>

definition slot_lived ::
  "u64 \<Rightarrow> nat \<Rightarrow> 'c \<Rightarrow> light_view \<Rightarrow> DiscoveryChangeType option \<Rightarrow>
   DiscoveryBatch \<times> bool list \<times> 'c DaliDeviceManager \<Rightarrow> DiscoveryBatch \<times> bool list \<times> 'c DaliDeviceManager \<Rightarrow> bool"
where
  "slot_lived nowMs raw c v t st st' \<longleftrightarrow> (case (st, st') of ((batch, reported, m), (batch', reported', m')) \<Rightarrow>
     scan_inv (Suc raw) st' \<and> dm_client m' = c \<and> light_view m' reported' raw = v \<and>
     (\<forall>j. j \<noteq> raw \<longrightarrow> light_view m' reported' j = light_view m reported j) \<and>
     batch_list batch' = batch_list batch @ change_at nowMs raw t)"

lemma slot_livedI:
  assumes inv: "scan_inv raw (batch, reported, m)" and raw: "raw < kRegistryCapacity"
    and batch': "batch' = (case t of None \<Rightarrow> batch | Some t \<Rightarrow>
        snd (batch_add \<lparr>dg_type = t, dg_address = ShortAddress (word_of_nat raw), dg_uptimeMs = nowMs\<rparr> batch))"
    and regs: "reg_inv (dm_registry m')" "rg_records (dm_registry m') = (rg_records (dm_registry m))[raw := r]"
    and rep: "reported' = reported[raw := d]"
    and v: "v = (map_option (\<lambda>r. (dv_lifecycle r, unat (dv_missedPresenceChecks r))) r, d)"
    and c: "dm_client m' = c"
  shows "slot_lived nowMs raw c v t (batch, reported, m) (batch', reported', m')"
proof -
  have b: "batch_inv batch" "db_size batch \<le> raw" and len: "length reported = kRegistryCapacity"
      "length (rg_records (dm_registry m)) = kRegistryCapacity"
    using inv by (simp_all add: scan_inv_def reg_inv_def)
  have "db_size batch \<noteq> kDiscoveryCapacity"
    using b(2) raw by (simp add: kDiscoveryCapacity_def kRegistryCapacity_def)
  then have add: "batch_list (snd (batch_add ch batch)) = batch_list batch @ [ch]"
    "batch_inv (snd (batch_add ch batch))" "db_size (snd (batch_add ch batch)) \<le> Suc raw" for ch
    using b by (simp_all add: batch_add_list keeps) (simp add: batch_add_def)
  show ?thesis using b raw len regs add
    by (cases t) (simp_all add: slot_lived_def batch' rep v c scan_inv_def light_view_def change_at_def nth_list_update)
qed

text \<open>The three modifications of an existing record.\<close>

lemma slot_heard_inv: "record_inv i r \<Longrightarrow> record_inv i ((mark_present r)\<lparr>dv_lastSeenUptimeMs := nowMs\<rparr>)"
  by (auto simp: mark_present_def record_inv_def)

lemma slot_new_inv: "record_inv i (mark_present (DaliDeviceRecord_new (ShortAddress (word_of_nat i)) nowMs))"
  by (simp add: mark_present_def record_inv_def DaliDeviceRecord_new_def DaliCapabilityMap_init_def)

lemma slot_clash_inv: "record_inv i r \<Longrightarrow> record_inv i (r\<lparr>dv_lifecycle := DlDuplicateAddress\<rparr>)"
  by (simp add: record_inv_def)

lemma slot_missed_inv:
  assumes "record_inv i r" "dv_lifecycle r \<noteq> DlMissing"
  defines "n \<equiv> missed_inc (dv_missedPresenceChecks r)"
  shows "record_inv i (if 3 \<le> n then r\<lparr>dv_missedPresenceChecks := n, dv_lifecycle := DlMissing, dv_present := False\<rparr>
      else r\<lparr>dv_missedPresenceChecks := n\<rparr>)"
    and "unat n = (if unat (dv_missedPresenceChecks r) < 2 then Suc (unat (dv_missedPresenceChecks r)) else 3)"
    and "3 \<le> n \<longleftrightarrow> \<not> unat (dv_missedPresenceChecks r) < 2"
proof -
  have w: "dv_missedPresenceChecks r \<le> 3" using assms(1) by (simp add: record_inv_def)
  note b = missed_bound [OF w, folded n_def]
  show "unat n = (if unat (dv_missedPresenceChecks r) < 2 then Suc (unat (dv_missedPresenceChecks r)) else 3)"
    unfolding n_def by (rule missed_step [OF w])
  show "3 \<le> n \<longleftrightarrow> \<not> unat (dv_missedPresenceChecks r) < 2" using b by auto
  have "3 \<le> n \<Longrightarrow> n = 3" using b by (simp add: order.antisym)
  then show "record_inv i (if 3 \<le> n then r\<lparr>dv_missedPresenceChecks := n, dv_lifecycle := DlMissing, dv_present := False\<rparr>
      else r\<lparr>dv_missedPresenceChecks := n\<rparr>)"
    using assms(1,2) b by (auto simp: record_inv_def)
qed

lemma scan_step_heard:
  assumes inv: "scan_inv raw (batch, reported, m)" and raw: "raw < kRegistryCapacity"
    and q: "qc_query client (ShortAddress (word_of_nat raw)) QueryControlGearPresent CpHigh (dm_client m) = (result, c)"
    and valid: "isValidResponse result" and ls: "light_step Heard (light_view m reported raw) = (v, t)"
  shows "slot_lived nowMs raw c v t (batch, reported, m) (scan_step client nowMs raw (batch, reported, m))"
proof -
  let ?a = "ShortAddress (word_of_nat raw)" and ?rg = "dm_registry m"
  have rg: "reg_inv ?rg" "length (rg_records ?rg) = kRegistryCapacity" using inv by (simp_all add: scan_inv_def reg_inv_def)
  show ?thesis
  proof (cases "rg_records ?rg ! raw")
    case None
    have recs: "rg_records (rg_modify ?a mark_present (rg_upsert ?a nowMs ?rg)) =
        (rg_records ?rg)[raw := Some (mark_present (DaliDeviceRecord_new ?a nowMs))]"
      using raw None rg by (simp add: modify_records upsert_records)
    have "reg_inv (rg_modify ?a mark_present (rg_upsert ?a nowMs ?rg))"
      by (rule modify_inv [OF upsert_inv [OF rg(1) raw] raw])
        (use None raw rg slot_new_inv in \<open>auto simp: upsert_records\<close>)
    then show ?thesis unfolding scan_step_def Let_def prod.case q
      using raw rg ls None valid
      by (auto simp: rg_find_def light_view_def recs mark_present_def DaliDeviceRecord_new_def
          intro!: slot_livedI [OF inv raw])
  next
    case (Some r)
    have "reg_inv (rg_modify ?a (\<lambda>r. (mark_present r)\<lparr>dv_lastSeenUptimeMs := nowMs\<rparr>) ?rg)"
      using record_at [OF rg(1) raw] slot_heard_inv by (intro modify_inv [OF rg(1) raw]) blast
    then show ?thesis unfolding scan_step_def Let_def prod.case q
      using raw rg ls Some valid
      by (auto simp: rg_find_def light_view_def modify_records mark_present_def
          intro!: slot_livedI [OF inv raw])
  qed
qed

lemma scan_step_clash:
  assumes inv: "scan_inv raw (batch, reported, m)" and raw: "raw < kRegistryCapacity"
    and q: "qc_query client (ShortAddress (word_of_nat raw)) QueryControlGearPresent CpHigh (dm_client m) = (result, c)"
    and clash: "\<not> isValidResponse result" "qr_outcome result = QoCollision"
    and ls: "light_step Clash (light_view m reported raw) = (v, t)"
  shows "slot_lived nowMs raw c v t (batch, reported, m) (scan_step client nowMs raw (batch, reported, m))"
proof -
  let ?rg = "dm_registry m"
  have rg: "reg_inv ?rg" using inv by (simp add: scan_inv_def)
  have "reg_inv (rg_modify (ShortAddress (word_of_nat raw)) (\<lambda>r. r\<lparr>dv_lifecycle := DlDuplicateAddress\<rparr>) ?rg)"
    using record_at [OF rg raw] slot_clash_inv by (intro modify_inv [OF rg raw]) blast
  moreover have "reported ! raw \<Longrightarrow> reported = reported[raw := True]" by (metis (full_types) list_update_id)
  ultimately show ?thesis unfolding scan_step_def Let_def prod.case q
    using raw ls clash
    by (cases "rg_records ?rg ! raw"; cases "reported ! raw")
      (auto simp: light_view_def modify_records
        intro!: slot_livedI [OF inv raw])
qed

text \<open>An iteration that leaves the record and the flag alone.\<close>

lemma slot_untouched:
  assumes inv: "scan_inv raw (batch, reported, m)" and raw: "raw < kRegistryCapacity"
  shows "slot_lived nowMs raw c (light_view m reported raw) None (batch, reported, m) (batch, reported, m\<lparr>dm_client := c\<rparr>)"
  using inv by (intro slot_livedI [OF inv raw, where r = "rg_records (dm_registry m) ! raw" and d = "reported ! raw"])
    (simp_all add: light_view_def scan_inv_def)

lemma scan_step_missed:
  assumes inv: "scan_inv raw (batch, reported, m)" and raw: "raw < kRegistryCapacity"
    and q: "qc_query client (ShortAddress (word_of_nat raw)) QueryControlGearPresent CpHigh (dm_client m) = (result, c)"
    and silent: "classify result = Silent" and r: "rg_records (dm_registry m) ! raw = Some r" "dv_lifecycle r \<noteq> DlMissing"
    and ls: "light_step Silent (light_view m reported raw) = (v, t)"
  shows "slot_lived nowMs raw c v t (batch, reported, m) (scan_step client nowMs raw (batch, reported, m))"
proof -
  let ?rg = "dm_registry m" and ?a = "ShortAddress (word_of_nat raw)" and ?n = "missed_inc (dv_missedPresenceChecks r)"
  let ?f = "\<lambda>r. if 3 \<le> ?n then r\<lparr>dv_missedPresenceChecks := ?n, dv_lifecycle := DlMissing, dv_present := False\<rparr>
      else r\<lparr>dv_missedPresenceChecks := ?n\<rparr>"
  have rg: "reg_inv ?rg" using inv by (simp add: scan_inv_def)
  note n = slot_missed_inv [OF record_at [OF rg raw r(1)] r(2)]
  have res: "\<not> isValidResponse result" "qr_outcome result \<noteq> QoCollision" "\<not> isBusFailure result"
    using silent by (auto simp: classify_def split: if_splits)
  have step: "scan_step client nowMs raw (batch, reported, m) =
      ((case t of None \<Rightarrow> batch | Some t \<Rightarrow> snd (batch_add \<lparr>dg_type = t, dg_address = ?a, dg_uptimeMs = nowMs\<rparr> batch)),
       reported, m\<lparr>dm_client := c, dm_registry := rg_modify ?a ?f ?rg\<rparr>)"
    unfolding scan_step_def Let_def prod.case q using r res raw ls n(3)
    by (auto simp: rg_find_def light_view_def split: if_splits)
  have "reg_inv (rg_modify ?a ?f ?rg)" using n(1) r(1) by (intro modify_inv [OF rg raw]) auto
  then show ?thesis unfolding step
    using raw ls r n(2,3) inv
    by (intro slot_livedI [OF inv raw, where r = "Some (?f r)" and d = "reported ! raw"])
      (auto simp: light_view_def modify_records scan_inv_def split: if_splits)
qed

lemma scan_step_slot:
  assumes inv: "scan_inv raw (batch, reported, m)" and raw: "raw < kRegistryCapacity"
    and q: "qc_query client (ShortAddress (word_of_nat raw)) QueryControlGearPresent CpHigh (dm_client m) = (result, c)"
    and st: "scan_step client nowMs raw (batch, reported, m) = (batch', reported', m')"
    and ls: "light_step (classify result) (light_view m reported raw) = (v, t)"
  shows "scan_inv (Suc raw) (batch', reported', m') \<and> dm_client m' = c \<and>
    light_view m' reported' raw = v \<and>
    (\<forall>j. j \<noteq> raw \<longrightarrow> light_view m' reported' j = light_view m reported j) \<and>
    batch_list batch' = batch_list batch @ change_at nowMs raw t"
proof -
  note same = slot_untouched [OF inv raw, of nowMs c]
  note step = scan_step_def Let_def prod.case q
  have "slot_lived nowMs raw c v t (batch, reported, m) (scan_step client nowMs raw (batch, reported, m))"
  proof (cases "classify result")
    case Heard
    with ls show ?thesis by (intro scan_step_heard [OF inv raw q]) (auto simp: classify_def split: if_splits)
  next
    case Clash
    with ls show ?thesis by (intro scan_step_clash [OF inv raw q]) (auto simp: classify_def split: if_splits)
  next
    case BusLost
    then have "scan_step client nowMs raw (batch, reported, m) = (batch, reported, m\<lparr>dm_client := c\<rparr>)"
      unfolding step by (auto simp: classify_def split: if_splits option.splits)
    with ls BusLost same show ?thesis by simp
  next
    case Silent
    show ?thesis
    proof (cases "\<exists>r. rg_records (dm_registry m) ! raw = Some r \<and> dv_lifecycle r \<noteq> DlMissing")
      case True
      then obtain r where r: "rg_records (dm_registry m) ! raw = Some r" "dv_lifecycle r \<noteq> DlMissing" by blast
      show ?thesis by (rule scan_step_missed [OF inv raw q Silent r]) (use ls Silent in simp)
    next
      case False
      then have "scan_step client nowMs raw (batch, reported, m) = (batch, reported, m\<lparr>dm_client := c\<rparr>)"
        unfolding step using Silent raw by (auto simp: classify_def rg_find_def split: if_splits option.splits)
      moreover have "v = light_view m reported raw" "t = None" using False ls Silent
        by (cases "rg_records (dm_registry m) ! raw"; auto simp: light_view_def)+
      ultimately show ?thesis using same by simp
    qed
  qed
  then show ?thesis unfolding st slot_lived_def prod.case .
qed

text \<open>The answers of one scan, in address order, and the client afterwards.\<close>

primrec asked :: "'c IDaliQueryClient \<Rightarrow> 'c \<Rightarrow> nat \<Rightarrow> DaliQueryResult list \<times> 'c" where
  "asked client c 0 = ([], c)"
| "asked client c (Suc n) =
     (let (rs, c1) = asked client c n;
          (r, c2) = qc_query client (ShortAddress (word_of_nat n)) QueryControlGearPresent CpHigh c1
      in (rs @ [r], c2))"

lemma length_asked [simp]: "length (fst (asked client c n)) = n"
  by (induction n) (simp_all add: case_prod_beta)

lemma asked_Suc:
  "fst (asked client c (Suc n)) = fst (asked client c n) @
     [fst (qc_query client (ShortAddress (word_of_nat n)) QueryControlGearPresent CpHigh (snd (asked client c n)))]"
  by (simp add: case_prod_beta)

lemma asked_prefix: "i < n \<Longrightarrow> n \<le> n' \<Longrightarrow> fst (asked client c n') ! i = fst (asked client c n) ! i"
  by (induction n') (auto simp del: asked.simps simp: asked_Suc le_Suc_eq nth_append)

definition life_of ::
  "'c IDaliQueryClient \<Rightarrow> bool list \<Rightarrow> 'c DaliDeviceManager \<Rightarrow> nat \<Rightarrow> light_view \<times> DiscoveryChangeType option"
where
  "life_of client reported m i =
     light_step (classify (fst (asked client (dm_client m) kRegistryCapacity) ! i)) (light_view m reported i)"

lemma scan_prefix:
  assumes "reg_inv (dm_registry m)" "length reported = kRegistryCapacity" "n \<le> kRegistryCapacity"
    and "fold (scan_step client nowMs) [0..<n] (DiscoveryBatch_init, reported, m) = (batch, reported', m')"
  shows "scan_inv n (batch, reported', m') \<and> dm_client m' = snd (asked client (dm_client m) n) \<and>
    (\<forall>i. light_view m' reported' i =
      (if i < n then fst (life_of client reported m i) else light_view m reported i)) \<and>
    batch_list batch = concat (map (\<lambda>i. change_at nowMs i (snd (life_of client reported m i))) [0..<n])"
  using assms(3,4)
proof (induction n arbitrary: batch reported' m')
  case 0
  then show ?case using assms(1,2) by (simp add: scan_inv_def keeps) (auto simp: DiscoveryBatch_init_def)
next
  case (Suc n)
  obtain b1 r1 m1 where f: "fold (scan_step client nowMs) [0..<n] (DiscoveryBatch_init, reported, m) = (b1, r1, m1)"
    by (cases "fold (scan_step client nowMs) [0..<n] (DiscoveryBatch_init, reported, m)")
  then have st: "scan_step client nowMs n (b1, r1, m1) = (batch, reported', m')" using Suc.prems(2) by simp
  have n: "n < kRegistryCapacity" using Suc.prems(1) by simp
  note IH = Suc.IH [OF less_imp_le [OF n] f]
  obtain result c where q: "qc_query client (ShortAddress (word_of_nat n)) QueryControlGearPresent CpHigh
      (dm_client m1) = (result, c)"
    by (cases "qc_query client (ShortAddress (word_of_nat n)) QueryControlGearPresent CpHigh (dm_client m1)")
  have as: "asked client (dm_client m) (Suc n) = (fst (asked client (dm_client m) n) @ [result], c)"
    using q IH by (simp add: case_prod_beta)
  have "fst (asked client (dm_client m) kRegistryCapacity) ! n = result"
    using asked_prefix [of n "Suc n" kRegistryCapacity client "dm_client m"] Suc.prems(1) as
    by (simp add: nth_append)
  then have life: "life_of client reported m n = light_step (classify result) (light_view m1 r1 n)"
    using IH by (simp add: life_of_def)
  obtain v t where vt: "light_step (classify result) (light_view m1 r1 n) = (v, t)"
    by (cases "light_step (classify result) (light_view m1 r1 n)")
  note step = scan_step_slot [OF _ n q st vt]
  show ?case using IH step as life vt by (auto simp: less_Suc_eq)
qed

lemma scan_batch_inv:
  assumes "reg_inv (dm_registry m)" "length reported = kRegistryCapacity"
    and "scanPresence client nowMs reported m = (batch, reported', m')"
  shows "batch_inv batch"
proof -
  have "scan_inv kRegistryCapacity (batch, reported', m')"
    using scan_prefix [OF assms(1,2) order.refl, of client nowMs batch reported' m'] assms(3)
    by (simp add: scanPresence_def)
  then show ?thesis by (simp add: scan_inv_def)
qed

lemma scan_slots:
  assumes "reg_inv (dm_registry m)" "length reported = kRegistryCapacity"
    and "scanPresence client nowMs reported m = (batch, reported', m')"
  shows "reg_inv (dm_registry m')" "length reported' = kRegistryCapacity"
    and "dm_client m' = snd (asked client (dm_client m) kRegistryCapacity)"
    and "i < kRegistryCapacity \<Longrightarrow> light_view m' reported' i = fst (life_of client reported m i)"
    and "batch_list batch =
      concat (map (\<lambda>i. change_at nowMs i (snd (life_of client reported m i))) [0..<kRegistryCapacity])"
  using scan_prefix [OF assms(1,2) order.refl, of client nowMs batch reported' m'] assms(3)
  by (simp_all add: scanPresence_def scan_inv_def)

lemma change_at_mem:
  assumes "i < kRegistryCapacity" "j < kRegistryCapacity"
  shows "\<lparr>dg_type = ty, dg_address = ShortAddress (word_of_nat i), dg_uptimeMs = nowMs\<rparr> \<in>
      set (change_at nowMs j t) \<longleftrightarrow> i = j \<and> t = Some ty"
proof -
  have "(word_of_nat i :: u8) = word_of_nat j \<longleftrightarrow> i = j"
    using slot_index [OF assms(1)] slot_index [OF assms(2)] by metis
  then show ?thesis by (auto simp: change_at_def split: option.splits)
qed

lemma change_reported:
  assumes i: "i < kRegistryCapacity"
  shows "\<lparr>dg_type = ty, dg_address = ShortAddress (word_of_nat i), dg_uptimeMs = nowMs\<rparr> \<in>
      set (concat (map (\<lambda>i. change_at nowMs i (f i)) [0..<kRegistryCapacity])) \<longleftrightarrow> f i = Some ty"
    (is "?c \<in> set (concat (map ?g _)) \<longleftrightarrow> _")
proof -
  have "?c \<in> set (concat (map ?g [0..<kRegistryCapacity])) \<longleftrightarrow> (\<exists>j < kRegistryCapacity. ?c \<in> set (?g j))"
    by (simp only: set_concat set_map set_upt) auto
  also have "\<dots> \<longleftrightarrow> f i = Some ty" using change_at_mem [OF i] i by metis
  finally show ?thesis .
qed

section \<open>Repeated scans\<close>

text \<open>Static array and manager after \<open>k\<close> scans at the times \<open>nowMs 0, nowMs 1, ...\<close>\<close>

primrec scan_state ::
  "'c IDaliQueryClient \<Rightarrow> (nat \<Rightarrow> u64) \<Rightarrow> bool list \<Rightarrow> 'c DaliDeviceManager \<Rightarrow> nat \<Rightarrow>
   bool list \<times> 'c DaliDeviceManager"
where
  "scan_state client nowMs reported m 0 = (reported, m)"
| "scan_state client nowMs reported m (Suc k) =
     (let (r, m') = scan_state client nowMs reported m k in snd (scanPresence client (nowMs k) r m'))"

definition scan_batch where
  "scan_batch client nowMs reported m k =
     (let (r, m') = scan_state client nowMs reported m k
      in batch_list (fst (scanPresence client (nowMs k) r m')))"

definition scan_answer where
  "scan_answer client nowMs reported m k i =
     classify (fst (asked client (dm_client (snd (scan_state client nowMs reported m k))) kRegistryCapacity) ! i)"

definition scan_view where
  "scan_view client nowMs reported m k i =
     (let (r, m') = scan_state client nowMs reported m k in light_view m' r i)"

lemma scan_state_inv:
  assumes "reg_inv (dm_registry m)" "length reported = kRegistryCapacity"
  shows "case scan_state client nowMs reported m k of (r, m') \<Rightarrow>
    reg_inv (dm_registry m') \<and> length r = kRegistryCapacity"
proof (induction k)
  case (Suc k)
  obtain r m' where k: "scan_state client nowMs reported m k = (r, m')"
    by (cases "scan_state client nowMs reported m k")
  obtain b r2 m2 where s: "scanPresence client (nowMs k) r m' = (b, r2, m2)"
    by (cases "scanPresence client (nowMs k) r m'")
  show ?case using Suc k s scan_slots(1,2) [OF _ _ s] by simp
qed (use assms in simp)

text \<open>One more scan, seen from one address.\<close>

lemma scan_view_step:
  assumes "reg_inv (dm_registry m)" "length reported = kRegistryCapacity" and i: "i < kRegistryCapacity"
  shows "scan_view client nowMs reported m (Suc k) i =
      fst (light_step (scan_answer client nowMs reported m k i) (scan_view client nowMs reported m k i))"
    and "\<lparr>dg_type = ty, dg_address = ShortAddress (word_of_nat i), dg_uptimeMs = nowMs k\<rparr> \<in>
      set (scan_batch client nowMs reported m k) \<longleftrightarrow>
      snd (light_step (scan_answer client nowMs reported m k i) (scan_view client nowMs reported m k i)) = Some ty"
proof -
  obtain r m' where k: "scan_state client nowMs reported m k = (r, m')"
    by (cases "scan_state client nowMs reported m k")
  obtain b r2 m2 where s: "scanPresence client (nowMs k) r m' = (b, r2, m2)"
    by (cases "scanPresence client (nowMs k) r m'")
  have inv: "reg_inv (dm_registry m')" "length r = kRegistryCapacity"
    using scan_state_inv [OF assms(1,2), of client nowMs k] k by simp_all
  have life: "life_of client r m' i =
      light_step (scan_answer client nowMs reported m k i) (scan_view client nowMs reported m k i)"
    using k by (simp add: life_of_def scan_answer_def scan_view_def)
  show "scan_view client nowMs reported m (Suc k) i =
      fst (light_step (scan_answer client nowMs reported m k i) (scan_view client nowMs reported m k i))"
    using scan_slots(4) [OF inv s i] k s life by (simp add: scan_view_def)
  show "\<lparr>dg_type = ty, dg_address = ShortAddress (word_of_nat i), dg_uptimeMs = nowMs k\<rparr> \<in>
      set (scan_batch client nowMs reported m k) \<longleftrightarrow>
      snd (light_step (scan_answer client nowMs reported m k i) (scan_view client nowMs reported m k i)) = Some ty"
    using scan_slots(5) [OF inv s] change_reported [OF i] k s life by (simp add: scan_batch_def)
qed

lemma silences_view:
  assumes inv: "reg_inv (dm_registry m)" "length reported = kRegistryCapacity" and i: "i < kRegistryCapacity"
    and start: "scan_view client nowMs reported m 0 i = (Some (DlPresent, 0), d)"
    and answers: "\<And>j. j < k \<Longrightarrow> scan_answer client nowMs reported m j i \<in> {Silent, BusLost}"
  shows "scan_view client nowMs reported m k i =
    (let n = card {j. j < k \<and> scan_answer client nowMs reported m j i = Silent}
     in if n < 3 then (Some (DlPresent, n), d) else (Some (DlMissing, 3), d))"
  using answers
proof (induction k)
  case 0
  then show ?case using start by simp
next
  case (Suc k)
  let ?S = "\<lambda>k. {j. j < k \<and> scan_answer client nowMs reported m j i = Silent}"
  have fin: "finite (?S k)" by simp
  have S: "?S (Suc k) = (if scan_answer client nowMs reported m k i = Silent then insert k (?S k) else ?S k)"
    by (auto simp: less_Suc_eq)
  have IH: "scan_view client nowMs reported m k i =
      (if card (?S k) < 3 then (Some (DlPresent, card (?S k)), d) else (Some (DlMissing, 3), d))"
    using Suc by (simp add: Let_def)
  have ans: "scan_answer client nowMs reported m k i = Silent \<or> scan_answer client nowMs reported m k i = BusLost"
    using Suc.prems [of k] by auto
  show ?case
    using scan_view_step(1) [OF inv i, of client nowMs k, unfolded IH] ans fin
    by (cases "card (?S k) < 2"; cases "card (?S k) < 3") (auto simp: S Let_def card_insert_if)
qed

section \<open>Clients that keep their contract\<close>

context dali_query_client
begin

lemma classify_outcome:
  assumes "cinv c"
  shows "classify (fst (qc_query client a cmd prio c)) =
    (case qr_outcome (fst (qc_query client a cmd prio c)) of
       QoOk \<Rightarrow> Heard | QoCollision \<Rightarrow> Clash | QoBusFailure \<Rightarrow> BusLost | _ \<Rightarrow> Silent)"
  using query_value [OF assms, of a cmd prio] query_bus_lost [OF assms, of a cmd prio]
  by (auto simp: classify_def isValidResponse_def isBusFailure_def split: DaliQueryOutcome.split)

text \<open>A client that can only report a lost bus makes a scan a no-op.\<close>

lemma lost_bus_scan:
  assumes lost: "\<And>c a cmd prio. dead c \<Longrightarrow> cinv c \<and> dead (snd (qc_query client a cmd prio c)) \<and>
      qr_outcome (fst (qc_query client a cmd prio c)) = QoBusFailure"
    and "dead (dm_client m)"
  shows "\<exists>c. dead c \<and> scanPresence client nowMs reported m = (DiscoveryBatch_init, reported, m\<lparr>dm_client := c\<rparr>)"
proof -
  have step: "\<exists>c. dead c \<and> scan_step client nowMs raw (b, reported, m) = (b, reported, m\<lparr>dm_client := c\<rparr>)"
    if "dead (dm_client m)" for b raw and m :: "'c DaliDeviceManager"
  proof -
    let ?q = "qc_query client (ShortAddress (word_of_nat raw)) QueryControlGearPresent CpHigh (dm_client m)"
    have q: "cinv (dm_client m)" "dead (snd ?q)" "qr_outcome (fst ?q) = QoBusFailure" using lost [OF that] by auto
    then have "\<not> isValidResponse (fst ?q)" "isBusFailure (fst ?q)"
      by (simp_all add: isValidResponse_def isBusFailure_def)
    then show ?thesis using q
      by (cases ?q) (auto simp: scan_step_def Let_def split: option.splits)
  qed
  have "\<exists>c. dead c \<and> fold (scan_step client nowMs) xs (b, reported, m) = (b, reported, m\<lparr>dm_client := c\<rparr>)"
    if "dead (dm_client m)" for b xs and m :: "'c DaliDeviceManager"
    using that
  proof (induction xs arbitrary: m)
    case Nil
    then show ?case by (intro exI [of _ "dm_client m"]) simp
  next
    case (Cons x xs)
    obtain c where c: "dead c" "scan_step client nowMs x (b, reported, m) = (b, reported, m\<lparr>dm_client := c\<rparr>)"
      using step [OF Cons.prems] by blast
    then show ?case using Cons.IH [of "m\<lparr>dm_client := c\<rparr>"] by simp
  qed
  from this [OF assms(2)] show ?thesis by (simp add: scanPresence_def)
qed

end

text \<open>The pipeline client on the simulated bus, when the bus has lost its power.\<close>

definition unpowered ::
  "(SimulatedDaliPhy, 'd, 'j) bus_ops \<Rightarrow> (SimulatedDaliPhy, 'd, 'j) PipelineQueryClient \<Rightarrow> bool"
where
  "unpowered ops c \<longleftrightarrow> ops_phy ops = sim_phy \<and> pl_idle (pc_pipeline c) \<and>
     pc_timeoutMs c \<noteq> 0 \<and> pc_maximumRetries c \<le> kAbsoluteMaxRetries \<and>
     (let h = sp_health (bus_phy (pl_bus (pc_pipeline c))) in ph_initialised h \<and> \<not> ph_busPowered h)"

lemma unpowered_query:
  assumes "unpowered ops c"
  shows "unpowered ops (snd (pipeline_query ops a cmd prio c)) \<and>
    qr_outcome (fst (pipeline_query ops a cmd prio c)) = QoBusFailure"
proof -
  let ?r = "query_request a cmd prio c" and ?w = "pl_bus (pc_pipeline c)"
  have r: "request_valid ?r" using assms by (simp add: unpowered_def request_valid_def query_request_def)
  have "exchange ops ?r ?w = (PhyBusPowerLost, 0, ?w)"
    using assms by (simp add: unpowered_def exchange_def sim_phy_def sim_transmit_def Let_def)
  then obtain res where e: "execute ops ?r ?w = (res, ?w)" and
    res: "tr_status res = TsBusPowerLost" "tr_lastPhyResult res = PhyBusPowerLost"
    by (simp add: execute_valid [OF r] execute_loop.simps [of ops ?r 0] isRetryable_def Let_def)
  from pipeline_query_idle [OF _ e] assms res show ?thesis
    by (auto simp: unpowered_def answer_of_result_def outcomeFromResult_def Let_def)
qed

section \<open>What capability detection learns\<close>

definition core_features :: "CapabilityFeature list" where
  "core_features = [CfBasicStatus, CfDeviceType, CfVersion, CfPhysicalMinimum]"

definition caps_of :: "'c DaliDeviceManager \<Rightarrow> ShortAddress \<Rightarrow> DaliCapabilityMap" where
  "caps_of m address = (case rg_find address (dm_registry m) of
     None \<Rightarrow> [] | Some r \<Rightarrow> dv_capabilities r)"

lemma classify_cases:
  "classify r = Silent \<longleftrightarrow> \<not> isValidResponse r \<and> qr_outcome r \<noteq> QoCollision \<and> \<not> isBusFailure r"
  "classify r \<in> {Clash, BusLost} \<longleftrightarrow> \<not> isValidResponse r \<and> (qr_outcome r = QoCollision \<or> isBusFailure r)"
  by (auto simp: classify_def)

lemma probe_unsupported:
  "ce_state (cap_at (dv_capabilities r) f) = CsUnsupported \<Longrightarrow> probe client a t f cmd store (r, c) = (r, c)"
  by (simp add: probe_def)

lemma probe_silent:
  assumes "classify (fst (qc_query client a cmd CpHigh c)) = Silent"
    and "cap_at (dv_capabilities r) f = \<lparr>ce_state = CsUnknown, ce_consecutiveNoResponses = n\<rparr>" and "n < 2"
  shows "probe client a t f cmd store (r, c) =
    (r\<lparr>dv_capabilities := (dv_capabilities r)[feature_index f :=
        \<lparr>ce_state = (if n = 1 then CsUnsupported else CsUnknown), ce_consecutiveNoResponses = n + 1\<rparr>]\<rparr>,
     snd (qc_query client a cmd CpHigh c))"
proof -
  have "unat n = 0 \<or> unat n = 1" using assms(3) by (simp add: word_less_nat_alt) linarith
  then have "n = 0 \<or> n = 1" by (simp add: word_unat_eq_iff)
  moreover have "\<not> isValidResponse (fst (qc_query client a cmd CpHigh c))"
    "qr_outcome (fst (qc_query client a cmd CpHigh c)) \<noteq> QoCollision"
    "\<not> isBusFailure (fst (qc_query client a cmd CpHigh c))"
    using assms(1) by (simp_all add: classify_cases)
  ultimately show ?thesis
    by (elim disjE) (simp_all add: probe_def assms(2) case_prod_beta word_le_nat_alt [of 2 1])
qed

lemma probe_disturbed:
  assumes "classify (fst (qc_query client a cmd CpHigh c)) \<in> {Clash, BusLost}"
  shows "fst (probe client a t f cmd store (r, c)) = r"
  using assms unfolding classify_cases(2)
  by (auto simp: probe_def Let_def split: prod.splits)

text \<open>A round in which all four core features are still unknown and nothing is answered.\<close>

definition put_core :: "CapabilityEntry \<Rightarrow> DaliCapabilityMap \<Rightarrow> DaliCapabilityMap" where
  "put_core e m = m[0 := e, 1 := e, 2 := e, 3 := e]"

definition core_are :: "CapabilityEntry \<Rightarrow> DaliCapabilityMap \<Rightarrow> bool" where
  "core_are e m \<longleftrightarrow> length m = 12 \<and> list_all (\<lambda>f. cap_at m f = e) core_features"

lemma put_core_are [simp]: "core_are e m \<Longrightarrow> core_are e' (put_core e' m)"
  by (simp add: core_are_def put_core_def core_features_def cap_at_def)

lemma silent_round:
  assumes silent: "\<And>c a cmd. classify (fst (qc_query client a cmd CpHigh c)) = Silent"
    and "rg_find a (dm_registry m) = Some r"
    and core: "core_are \<lparr>ce_state = CsUnknown, ce_consecutiveNoResponses = n\<rparr> (dv_capabilities r)" and n: "n < 2"
  shows "\<exists>c r'. snd (detectCoreCapabilities client a t m) =
      m\<lparr>dm_client := c, dm_registry := rg_modify a (\<lambda>_. r') (dm_registry m)\<rparr> \<and>
    core_are \<lparr>ce_state = (if n = 1 then CsUnsupported else CsUnknown), ce_consecutiveNoResponses = n + 1\<rparr>
      (dv_capabilities r')"
proof -
  let ?e = "\<lparr>ce_state = (if n = 1 then CsUnsupported else CsUnknown), ce_consecutiveNoResponses = n + 1\<rparr>"
  let ?r' = "r\<lparr>dv_capabilities := put_core ?e (dv_capabilities r)\<rparr>"
  have at: "cap_at (dv_capabilities r) f = \<lparr>ce_state = CsUnknown, ce_consecutiveNoResponses = n\<rparr>"
    if "f \<in> set core_features" for f
    using core that by (simp add: core_are_def list_all_iff)
  have len: "length (dv_capabilities r) = 12" using core by (simp add: core_are_def)
  note p = probe_silent [OF silent _ n]
  obtain c where "snd (detectCoreCapabilities client a t m) =
      m\<lparr>dm_client := c, dm_registry := rg_modify a (\<lambda>_. ?r') (dm_registry m)\<rparr>"
    using assms(2) at [of CfBasicStatus] at [of CfDeviceType] at [of CfVersion] at [of CfPhysicalMinimum] len
    by (simp add: detectCoreCapabilities_def Let_def core_features_def p cap_at_def put_core_def
        split: prod.splits)
  then show ?thesis using put_core_are [OF core, of ?e]
    by (intro exI [of _ c] exI [of _ ?r'] conjI) simp_all
qed

lemma unsupported_round:
  assumes "rg_find a (dm_registry m) = Some r" "core_are e (dv_capabilities r)" "ce_state e = CsUnsupported"
  shows "detectCoreCapabilities client a t m =
    (DiscoveryBatch_init, m\<lparr>dm_registry := rg_modify a (\<lambda>_. r) (dm_registry m)\<rparr>)"
  using assms by (simp add: detectCoreCapabilities_def Let_def probe_unsupported core_are_def core_features_def)

lemma find_modify:
  assumes "reg_inv rg" "unat (sa_value a) < kRegistryCapacity" "rg_find a rg = Some r"
  shows "rg_find a (rg_modify a f rg) = Some (f r)"
    and "rg_modify a g (rg_modify a f rg) = rg_modify a (\<lambda>r. g (f r)) rg"
    and "rg_modify a (\<lambda>_. r) rg = rg"
  using assms by (auto simp: rg_find_def rg_modify_def reg_inv_def option.map_comp comp_def list_update_same_conv)

section \<open>Properties\<close>

text \<open>
  C15: one scan asks every short address exactly once, in order, and lives each address once.
  The registry stays well-formed with its count the number of records, the life of every
  address goes on as \<open>light_step\<close> prescribes for the class of its answer, and the batch holds
  exactly the resulting changes in address order: none is dropped by the capacity of 64.
\<close>

theorem scan_lives_each_address:
  assumes "reg_inv (dm_registry m)" and "length reported = 64"
    and "scanPresence client nowMs reported m = (batch, reported', m')"
  shows "reg_inv (dm_registry m') \<and> length reported' = 64 \<and>
    dm_client m' = snd (asked client (dm_client m) 64) \<and>
    (\<forall>i < 64. light_view m' reported' i = fst (life_of client reported m i)) \<and>
    batch_list batch = concat (map (\<lambda>i. change_at nowMs i (snd (life_of client reported m i))) [0..<64])"
  using scan_slots [of m reported client nowMs batch reported' m'] assms
  by (simp add: kRegistryCapacity_def)

text \<open>
  C18: hysteresis. While a present device without misses answers nothing (scans that lose
  the bus count neither way), \<open>DeviceMissing\<close> is reported for it at scan \<open>k\<close> exactly when
  that scan is its third silent one: not earlier, and never again afterwards.
\<close>

theorem missing_on_third_silence:
  assumes "reg_inv (dm_registry m)" and "length reported = 64" and "i < 64"
    and "light_view m reported i = (Some (DlPresent, 0), d)"
    and "\<And>j. j \<le> k \<Longrightarrow> scan_answer client nowMs reported m j i \<in> {Silent, BusLost}"
  shows "\<lparr>dg_type = DcDeviceMissing, dg_address = ShortAddress (word_of_nat i), dg_uptimeMs = nowMs k\<rparr> \<in>
      set (scan_batch client nowMs reported m k) \<longleftrightarrow>
    scan_answer client nowMs reported m k i = Silent \<and>
      card {j. j \<le> k \<and> scan_answer client nowMs reported m j i = Silent} = 3"
proof -
  let ?a = "\<lambda>j. scan_answer client nowMs reported m j i"
  let ?S = "{j. j < k \<and> ?a j = Silent}"
  have K: "kRegistryCapacity = 64" by (simp add: kRegistryCapacity_def)
  have start: "scan_view client nowMs reported m 0 i = (Some (DlPresent, 0), d)"
    using assms(4) by (simp add: scan_view_def)
  have view: "scan_view client nowMs reported m k i =
      (if card ?S < 3 then (Some (DlPresent, card ?S), d) else (Some (DlMissing, 3), d))"
    using silences_view [OF _ _ _ start, of k] assms K by (simp add: Let_def)
  have S: "{j. j \<le> k \<and> ?a j = Silent} = (if ?a k = Silent then insert k ?S else ?S)"
    by (auto simp: le_less)
  have fin: "finite ?S" by simp
  have "?a k = Silent \<or> ?a k = BusLost" using assms(5) [of k] by simp
  then show ?thesis
    using scan_view_step(2) [of m reported i DcDeviceMissing nowMs k client, unfolded view] assms(1-3) fin K
    by (cases "card ?S < 2"; cases "card ?S < 3") (auto simp: S card_insert_if)
qed

text \<open>A missing device that clashes and then falls silent is reported missing once more.\<close>

lemma clash_repeats_missing:
  assumes "reg_inv (dm_registry m)" and "length reported = kRegistryCapacity" and "i < kRegistryCapacity"
    and "light_view m reported i = (Some (DlMissing, 3), d)"
    and "scan_answer client nowMs reported m 0 i = Clash" and "scan_answer client nowMs reported m 1 i = Silent"
  shows "\<lparr>dg_type = DcDeviceMissing, dg_address = ShortAddress (word_of_nat i), dg_uptimeMs = nowMs 1\<rparr> \<in>
    set (scan_batch client nowMs reported m 1)"
proof -
  note step = scan_view_step [OF assms(1-3), where client = client and nowMs = nowMs]
  have "scan_view client nowMs reported m 0 i = (Some (DlMissing, 3), d)"
    using assms(4) by (simp add: scan_view_def)
  then have "scan_view client nowMs reported m 1 i = (Some (DlDuplicateAddress, 3), True)"
    using step(1) [of 0] assms(5) by simp
  then show ?thesis using step(2) [where k = 1] assms(6) by simp
qed

text \<open>
  The flags of reported clashes are a static of the function, shared by all managers: what one
  manager reported, another with a registry of its own never does.
\<close>

lemma shared_clash_flag:
  assumes "reg_inv (dm_registry m)" and "length reported = kRegistryCapacity" and i: "i < kRegistryCapacity"
    and "reg_inv (dm_registry other)" and "scan_answer client nowMs reported m 0 i = Clash"
  defines "flags \<equiv> fst (scan_state client nowMs reported m 1)"
  assumes "scan_answer client' nowMs' flags other 0 i = Clash"
  shows "\<lparr>dg_type = DcDuplicateAddressSuspected, dg_address = ShortAddress (word_of_nat i), dg_uptimeMs = nowMs' 0\<rparr>
    \<notin> set (scan_batch client' nowMs' flags other 0)"
proof -
  have "snd (scan_view client nowMs reported m 1 i)"
    using scan_view_step(1) [OF assms(1,2) i, of client nowMs 0] assms(5)
    by (cases "scan_view client nowMs reported m 0 i") simp
  then have "flags ! i"
    by (cases "scan_state client nowMs reported m 1") (simp add: scan_view_def light_view_def flags_def)
  then have "snd (light_step Clash (scan_view client' nowMs' flags other 0 i)) = None"
    by (simp add: scan_view_def light_view_def)
  moreover have "length flags = kRegistryCapacity"
    using scan_state_inv [OF assms(1,2), of client nowMs 1]
    by (simp add: flags_def case_prod_beta)
  ultimately show ?thesis using scan_view_step(2) [OF assms(4) _ i] assms(7) by auto
qed

text \<open>
  A clash hides a recovery. When a device that was reported missing first answers with a
  collision and then answers again, no \<open>DeviceRecovered\<close> is ever reported for it, although it
  is listed as present afterwards.
\<close>

theorem clash_hides_recovery:
  assumes "reg_inv (dm_registry m)" and "length reported = 64" and "i < 64"
    and "light_view m reported i = (Some (DlMissing, 3), d)"
    and "scan_answer client nowMs reported m 0 i = Clash" and "scan_answer client nowMs reported m 1 i = Heard"
  shows "\<lparr>dg_type = DcDeviceRecovered, dg_address = ShortAddress (word_of_nat i), dg_uptimeMs = nowMs 0\<rparr> \<notin>
      set (scan_batch client nowMs reported m 0) \<and>
    \<lparr>dg_type = DcDeviceRecovered, dg_address = ShortAddress (word_of_nat i), dg_uptimeMs = nowMs 1\<rparr> \<notin>
      set (scan_batch client nowMs reported m 1) \<and>
    scan_view client nowMs reported m 2 i = (Some (DlPresent, 0), False)"
proof -
  have inv: "reg_inv (dm_registry m)" "length reported = kRegistryCapacity" "i < kRegistryCapacity"
    using assms(1-3) by (simp_all add: kRegistryCapacity_def)
  note step = scan_view_step [OF inv, where client = client and nowMs = nowMs]
  have v0: "scan_view client nowMs reported m 0 i = (Some (DlMissing, 3), d)"
    using assms(4) by (simp add: scan_view_def)
  have v1: "scan_view client nowMs reported m 1 i = (Some (DlDuplicateAddress, 3), True)"
    using step(1) [of 0] v0 assms(5) by simp
  show ?thesis
    using step(2) [where k = 0] step(2) [where k = 1] step(1) [of 1] v0 v1 assms(5,6)
    by (simp add: numeral_2_eq_2)
qed

text \<open>
  C19: no alarm storm. When the simulated bus has lost its power, a scan through the pipeline
  client reports no change at all and leaves every device record, the device count and the
  clash flags as they were, however many devices are registered.
\<close>

theorem bus_loss_scan_silent:
  assumes "unpowered ops (dm_client m)"
  shows "\<exists>c. unpowered ops c \<and> scanPresence (pipeline_client ops) nowMs reported m =
    (DiscoveryBatch_init, reported, m\<lparr>dm_client := c\<rparr>)"
  using assms
  by (intro pq.lost_bus_scan) (simp_all add: pipeline_client_def unpowered_query)

text \<open>
  C20: a device that never answers is not asked forever. On a fresh record the first silent
  round only counts, the second marks the four core features unsupported, and from then on
  detection sends no query at all: client and manager stay exactly as they are.
\<close>

theorem capabilities_give_up:
  assumes "\<And>c a cmd. classify (fst (qc_query client a cmd CpHigh c)) = Silent"
    and "reg_inv (dm_registry m)" and "unat (sa_value a) < 64"
    and "rg_find a (dm_registry m) = Some r" and "dv_capabilities r = DaliCapabilityMap_init"
    and "m1 = snd (detectCoreCapabilities client a t1 m)"
    and "m2 = snd (detectCoreCapabilities client a t2 m1)"
  shows "list_all (\<lambda>f. ce_state (cap_at (caps_of m1 a) f) = CsUnknown) core_features \<and>
    list_all (\<lambda>f. ce_state (cap_at (caps_of m2 a) f) = CsUnsupported) core_features \<and>
    detectCoreCapabilities client a t3 m2 = (DiscoveryBatch_init, m2)"
proof -
  let ?e = "\<lambda>s n. \<lparr>ce_state = s, ce_consecutiveNoResponses = n\<rparr>"
  have K: "unat (sa_value a) < kRegistryCapacity" using assms(3) by (simp add: kRegistryCapacity_def)
  note mod = find_modify [OF assms(2) K assms(4)]
  have "core_are (?e CsUnknown 0) (dv_capabilities r)"
    by (simp add: assms(5) core_are_def core_features_def DaliCapabilityMap_init_def cap_at_def)
  from silent_round [OF assms(1,4) this, of t1] obtain c1 r1 where
    r1: "core_are (?e CsUnknown 1) (dv_capabilities r1)" and
    m1: "m1 = m\<lparr>dm_client := c1, dm_registry := rg_modify a (\<lambda>_. r1) (dm_registry m)\<rparr>"
    using assms(6) by auto
  have f1: "rg_find a (dm_registry m1) = Some r1" using m1 mod(1) by simp
  obtain c2 r2 where r2: "core_are (?e CsUnsupported 2) (dv_capabilities r2)" and
    m2: "m2 = m1\<lparr>dm_client := c2, dm_registry := rg_modify a (\<lambda>_. r2) (dm_registry m1)\<rparr>"
    using silent_round [OF assms(1) f1 r1, of t2] assms(7) by (auto simp: word_less_nat_alt)
  have m2': "dm_registry m2 = rg_modify a (\<lambda>_. r2) (dm_registry m)" using m2 m1 mod(2) by simp
  have f2: "rg_find a (dm_registry m2) = Some r2" using m2' mod(1) by simp
  have "rg_modify a (\<lambda>_. r2) (dm_registry m2) = dm_registry m2" using m2' mod(2) by simp
  then have "detectCoreCapabilities client a t3 m2 = (DiscoveryBatch_init, m2)"
    using unsupported_round [OF f2 r2] by simp
  then show ?thesis using f1 f2 r1 r2 by (simp add: caps_of_def core_are_def list_all_iff)
qed

text \<open>
  Bus trouble teaches nothing. When every query of a round clashes or finds the bus lost,
  detection leaves the whole registry as it was.
\<close>

theorem capabilities_survive_bus_faults:
  assumes "\<And>c a cmd. classify (fst (qc_query client a cmd CpHigh c)) \<in> {Clash, BusLost}"
  shows "dm_registry (snd (detectCoreCapabilities client a t m)) = dm_registry m \<and>
    fst (detectCoreCapabilities client a t m) = DiscoveryBatch_init"
proof (cases "rg_find a (dm_registry m)")
  case None
  then show ?thesis by (simp add: detectCoreCapabilities_def)
next
  case (Some r)
  have p: "fst (probe client a t f cmd store st) = fst st" for f cmd store st
    using probe_disturbed [OF assms] by (cases st) simp
  have "rg_modify a (\<lambda>_. r) (dm_registry m) = dm_registry m"
  proof -
    have "map_option (\<lambda>_. r) (rg_records (dm_registry m) ! unat (sa_value a)) =
        rg_records (dm_registry m) ! unat (sa_value a)"
      using Some by (simp add: rg_find_def)
    then show ?thesis by (simp only: rg_modify_def list_update_id) simp
  qed
  then show ?thesis using Some by (simp add: detectCoreCapabilities_def Let_def case_prod_beta p)
qed

section \<open>Concrete scans\<close>

text \<open>A client that plays a list of answers, and nothing when the list is used up.\<close>

definition reply :: "DaliQueryOutcome \<Rightarrow> DaliQueryResult" where
  "reply outcome = \<lparr>qr_outcome = outcome,
     qr_response = (if outcome = QoOk then Reading_valid 255 0 0 False else Reading_invalid 0),
     qr_attempts = 1, qr_phyResult = (if outcome = QoOk then PhyOk else if outcome = QoBusFailure
       then PhyBusPowerLost else PhyTimeout)\<rparr>"

definition scripted_client :: "DaliQueryOutcome list IDaliQueryClient" where
  "scripted_client = \<lparr>qc_query = (\<lambda>a cmd prio c. case c of
     [] \<Rightarrow> (reply QoNoResponse, []) | x # xs \<Rightarrow> (reply x, xs))\<rparr>"

text \<open>Address 3 is known: present without misses, or missing.\<close>

definition known_device :: "DeviceLifecycle \<Rightarrow> DaliDeviceRecord" where
  "known_device l = (DaliDeviceRecord_new (ShortAddress 3) 0)\<lparr>dv_lifecycle := l,
     dv_present := (l = DlPresent), dv_missedPresenceChecks := (if l = DlPresent then 0 else 3)\<rparr>"

definition known_manager :: "DeviceLifecycle \<Rightarrow> DaliQueryOutcome list \<Rightarrow> DaliQueryOutcome list DaliDeviceManager" where
  "known_manager l c = \<lparr>dm_client = c, dm_registry = \<lparr>rg_records =
     (replicate kRegistryCapacity None)[3 := Some (known_device l)], rg_count = 1\<rparr>\<rparr>"

lemma known_manager_inv: "l \<in> {DlPresent, DlMissing} \<Longrightarrow> reg_inv (dm_registry (known_manager l c))"
  using length_filter_update [of 3 "replicate kRegistryCapacity None" "\<lambda>r. r \<noteq> None" "Some (known_device l)"]
  by (auto simp: reg_inv_def known_manager_def kRegistryCapacity_def nth_list_update record_inv_def
      known_device_def DaliDeviceRecord_new_def DaliCapabilityMap_init_def)

lemma known_manager_view:
  "light_view (known_manager DlPresent c) (replicate 64 False) 3 = (Some (DlPresent, 0), False)"
  "light_view (known_manager DlMissing c) (replicate 64 False) 3 = (Some (DlMissing, 3), False)"
  by (simp_all add: light_view_def known_manager_def known_device_def DaliDeviceRecord_new_def
      kRegistryCapacity_def)

theorem scan_lives_each_address_witness:
  "reg_inv (dm_registry (snd (snd (scanPresence scripted_client 1000 (replicate 64 False)
     (known_manager DlPresent [])))))"
proof -
  let ?s = "scanPresence scripted_client 1000 (replicate 64 False) (known_manager DlPresent [])"
  have "?s = (fst ?s, fst (snd ?s), snd (snd ?s))" by simp
  from scan_lives_each_address [OF known_manager_inv _ this] show ?thesis by simp
qed

theorem missing_on_third_silence_witness:
  "\<lparr>dg_type = DcDeviceMissing, dg_address = ShortAddress 3, dg_uptimeMs = 3000\<rparr> \<in>
     set (scan_batch scripted_client (\<lambda>k. 1000 * (word_of_nat k + 1)) (replicate 64 False)
       (known_manager DlPresent []) 2)"
proof -
  let ?t = "\<lambda>k. 1000 * (word_of_nat k + 1)"
  let ?a = "\<lambda>j. scan_answer scripted_client ?t (replicate 64 False) (known_manager DlPresent []) j 3"
  have "?a 0 = Silent" "?a 1 = Silent" "?a 2 = Silent" by code_simp+
  then have a: "j \<le> 2 \<Longrightarrow> ?a j = Silent" for j by (auto simp: numeral_2_eq_2 le_Suc_eq)
  then have "{j. j \<le> 2 \<and> ?a j = Silent} = {..2}" by auto
  then show ?thesis
    using missing_on_third_silence [OF known_manager_inv _ _ known_manager_view(1), of 2 scripted_client ?t "[]"] a
    by simp
qed

theorem clash_hides_recovery_witness:
  "scan_view scripted_client (\<lambda>k. 0) (replicate 64 False)
     (known_manager DlMissing (replicate 3 QoNoResponse @ QoCollision # replicate 63 QoNoResponse @ [QoOk])) 2 3
   = (Some (DlPresent, 0), False)"
proof -
  let ?c = "replicate 3 QoNoResponse @ QoCollision # replicate 63 QoNoResponse @ [QoOk]"
  have "scan_answer scripted_client (\<lambda>k. 0) (replicate 64 False) (known_manager DlMissing ?c) 0 3 = Clash"
    by code_simp
  moreover have "scan_answer scripted_client (\<lambda>k. 0) (replicate 64 False) (known_manager DlMissing ?c) 1 3 = Heard"
    by code_simp
  ultimately show ?thesis
    using clash_hides_recovery [OF known_manager_inv _ _ known_manager_view(2), of scripted_client "\<lambda>k. 0" ?c]
    by simp
qed

definition unpowered_manager :: "(SimulatedDaliPhy, u32 list, u32) PipelineQueryClient DaliDeviceManager" where
  "unpowered_manager = \<lparr>dm_client = (fresh_client [])\<lparr>pc_pipeline := pipeline_init
     ((scripted_bus [])\<lparr>bus_phy := setBusPowered False (bus_phy (scripted_bus []))\<rparr>)\<rparr>,
     dm_registry = dm_registry (known_manager DlPresent [])\<rparr>"

theorem bus_loss_scan_silent_witness:
  "fst (scanPresence (pipeline_client log_ops) 5000 (replicate 64 False) unpowered_manager) =
     DiscoveryBatch_init \<and>
   dm_registry (snd (snd (scanPresence (pipeline_client log_ops) 5000 (replicate 64 False)
     unpowered_manager))) = dm_registry (known_manager DlPresent [])"
proof -
  have "unpowered log_ops (dm_client unpowered_manager)"
    by (simp add: unpowered_def unpowered_manager_def fresh_client_def kAbsoluteMaxRetries_def)
      (simp add: pipeline_init_def setBusPowered_def scripted_bus_def sim_init_def log_ops_def app_ops_def
        SimulatedDaliPhy_init_def Let_def)
  from bus_loss_scan_silent [OF this, of 5000 "replicate 64 False"] show ?thesis
    by (auto simp: unpowered_manager_def)
qed

text \<open>A client that always has the same outcome.\<close>

definition constant_client :: "DaliQueryOutcome \<Rightarrow> nat IDaliQueryClient" where
  "constant_client outcome = \<lparr>qc_query = (\<lambda>a cmd prio c. (reply outcome, c + 1))\<rparr>"

definition constant_manager :: "nat DaliDeviceManager" where
  "constant_manager = \<lparr>dm_client = 0, dm_registry = dm_registry (known_manager DlPresent [])\<rparr>"

lemma constant_manager_find: "rg_find (ShortAddress 3) (dm_registry constant_manager) = Some (known_device DlPresent)"
  by (simp add: rg_find_def constant_manager_def known_manager_def kRegistryCapacity_def)

theorem capabilities_give_up_witness:
  "snd (detectCoreCapabilities (constant_client QoNoResponse) (ShortAddress 3) 30
     (snd (detectCoreCapabilities (constant_client QoNoResponse) (ShortAddress 3) 20
       (snd (detectCoreCapabilities (constant_client QoNoResponse) (ShortAddress 3) 10 constant_manager))))) =
   snd (detectCoreCapabilities (constant_client QoNoResponse) (ShortAddress 3) 20
     (snd (detectCoreCapabilities (constant_client QoNoResponse) (ShortAddress 3) 10 constant_manager)))"
proof -
  have silent: "classify (fst (qc_query (constant_client QoNoResponse) a cmd CpHigh c)) = Silent" for a cmd c
    by (simp add: constant_client_def reply_def classify_def isValidResponse_def isBusFailure_def)
  have inv: "reg_inv (dm_registry constant_manager)"
    using known_manager_inv [of DlPresent "[]"] by (simp add: constant_manager_def)
  have caps: "dv_capabilities (known_device DlPresent) = DaliCapabilityMap_init"
    by (simp add: known_device_def DaliDeviceRecord_new_def)
  show ?thesis
    using capabilities_give_up [OF silent inv _ constant_manager_find caps refl refl, of 10 20 30] by simp
qed

theorem capabilities_survive_bus_faults_witness:
  "dm_registry (snd (detectCoreCapabilities (constant_client QoBusFailure) (ShortAddress 3) 10 constant_manager)) =
     dm_registry constant_manager"
  by (rule conjunct1 [OF capabilities_survive_bus_faults])
    (simp add: constant_client_def reply_def classify_def isValidResponse_def isBusFailure_def)

end
