(* ===== verification/Health_Engine.thy ===== *)
theory Health_Engine
  imports Core_Types
begin

text \<open>
  Fault persistence and health scoring, \<open>light_health_engine.h/.cpp\<close>: a counter pair that
  debounces a sampled condition, and the binary32 score of a light with its state and fault
  flags.
\<close>

section \<open>FaultPersistence\<close>

record FaultPersistence =
  fp_warningSamples :: u8
  fp_faultSamples :: u8
  fp_recoverySamples :: u8
  fp_abnormalCount :: u8
  fp_consecutiveAbnormal :: u8
  fp_consecutiveHealthy :: u8
  fp_warningActive :: bool
  fp_faultActive :: bool

definition FaultPersistence_new :: "u8 \<Rightarrow> u8 \<Rightarrow> u8 \<Rightarrow> FaultPersistence" where
  "FaultPersistence_new warningSamples faultSamples recoverySamples =
     \<lparr>fp_warningSamples = warningSamples, fp_faultSamples = faultSamples,
      fp_recoverySamples = recoverySamples, fp_abnormalCount = 0, fp_consecutiveAbnormal = 0,
      fp_consecutiveHealthy = 0, fp_warningActive = False, fp_faultActive = False\<rparr>"

definition inc255 :: "u8 \<Rightarrow> u8" where
  "inc255 n = (if n < 255 then n + 1 else n)"

definition warningActive :: "FaultPersistence \<Rightarrow> bool" where
  [simp]: "warningActive p = fp_warningActive p"

definition faultActive :: "FaultPersistence \<Rightarrow> bool" where
  [simp]: "faultActive p = fp_faultActive p"

definition abnormalCount :: "FaultPersistence \<Rightarrow> u8" where
  [simp]: "abnormalCount p = fp_abnormalCount p"

definition observe :: "bool \<Rightarrow> FaultPersistence \<Rightarrow> bool \<times> FaultPersistence" where
  "observe abnormal p =
     (let oldWarning = fp_warningActive p;
          p1 = (if abnormal
                then p\<lparr>fp_abnormalCount := inc255 (fp_abnormalCount p),
                       fp_consecutiveAbnormal := inc255 (fp_consecutiveAbnormal p),
                       fp_consecutiveHealthy := 0\<rparr>
                else
                  let q = p\<lparr>fp_abnormalCount := 0, fp_consecutiveAbnormal := 0,
                            fp_consecutiveHealthy := inc255 (fp_consecutiveHealthy p)\<rparr>
                  in if fp_recoverySamples q \<le> fp_consecutiveHealthy q
                     then q\<lparr>fp_warningActive := False, fp_faultActive := False\<rparr> else q);
          p2 = (if fp_warningSamples p1 \<le> fp_abnormalCount p1
                then p1\<lparr>fp_warningActive := True\<rparr> else p1);
          p3 = (if fp_faultSamples p2 \<le> fp_consecutiveAbnormal p2
                then p2\<lparr>fp_faultActive := True\<rparr> else p2)
      in (oldWarning \<noteq> fp_warningActive p3, p3))"

definition observe_all :: "bool list \<Rightarrow> FaultPersistence \<Rightarrow> FaultPersistence" where
  "observe_all samples p = fold (\<lambda>x q. snd (observe x q)) samples p"

subsection \<open>Debouncing, declaratively\<close>

text \<open>The length of the last run of samples equal to \<open>v\<close>.\<close>

definition last_run :: "bool \<Rightarrow> bool list \<Rightarrow> nat" where
  "last_run v xs = length (takeWhile (\<lambda>x. x = v) (rev xs))"

text \<open>
  A condition is up after \<open>xs\<close> when at some point its last \<open>n\<close> samples were all abnormal and
  at no later point the last \<open>r\<close> samples were all healthy.
\<close>

definition debounced :: "nat \<Rightarrow> nat \<Rightarrow> bool list \<Rightarrow> bool" where
  "debounced n r xs \<longleftrightarrow> (\<exists>i \<le> length xs. n \<le> last_run True (take i xs) \<and>
     (\<forall>j \<in> {Suc i..length xs}. last_run False (take j xs) < r))"

lemma debounced_iff:
  "debounced n r xs \<longleftrightarrow> (\<exists>i \<le> length xs. n \<le> last_run True (take i xs) \<and>
     (\<forall>j. i < j \<and> j \<le> length xs \<longrightarrow> last_run False (take j xs) < r))"
  by (simp add: debounced_def Ball_def Suc_le_eq)

lemma last_run_snoc [simp]: "last_run v (xs @ [x]) = (if x = v then Suc (last_run v xs) else 0)"
  by (simp add: last_run_def)

lemma last_run_Nil [simp]: "last_run v [] = 0"
  by (simp add: last_run_def)

lemma debounced_Nil [simp]: "debounced n r [] \<longleftrightarrow> n = 0"
  by (simp add: debounced_def)

lemma all_upto_Suc: "(\<forall>j. i < j \<and> j \<le> Suc n \<longrightarrow> P j) \<longleftrightarrow> (i < Suc n \<longrightarrow> P (Suc n)) \<and> (\<forall>j. i < j \<and> j \<le> n \<longrightarrow> P j)"
  by (auto simp: le_Suc_eq)

lemma ex_upto_Suc: "(\<exists>i \<le> Suc n. P i) \<longleftrightarrow> P (Suc n) \<or> (\<exists>i \<le> n. P i)"
  by (auto simp: le_Suc_eq)

lemma debounced_snoc:
  assumes "0 < n" "0 < r"
  shows "debounced n r (xs @ [x]) \<longleftrightarrow>
    (if x then n \<le> Suc (last_run True xs) \<or> debounced n r xs
     else Suc (last_run False xs) < r \<and> debounced n r xs)"
proof -
  let ?ys = "xs @ [x]"
  have T: "take j ?ys = take j xs" if "j \<le> length xs" for j using that by simp
  have W: "take (Suc (length xs)) ?ys = ?ys" by simp
  have "(\<exists>i \<le> length xs. n \<le> last_run True (take i ?ys) \<and> last_run False ?ys < r \<and>
        (\<forall>j. i < j \<and> j \<le> length xs \<longrightarrow> last_run False (take j ?ys) < r)) \<longleftrightarrow>
      last_run False ?ys < r \<and> debounced n r xs"
    unfolding debounced_iff using T by (metis (no_types, lifting))
  then have "debounced n r ?ys \<longleftrightarrow> n \<le> last_run True ?ys \<or> (last_run False ?ys < r \<and> debounced n r xs)"
    unfolding debounced_iff [of n r ?ys] length_append_singleton ex_upto_Suc all_upto_Suc W
    by (auto simp: less_Suc_eq_le simp del: take_append last_run_snoc)
  then show ?thesis using assms by simp
qed

text \<open>What the counters of an object hold after the samples \<open>xs\<close>.\<close>

definition sat255 :: "nat \<Rightarrow> u8" where
  "sat255 n = word_of_nat (min 255 n)"

lemma unat_sat255 [simp]: "unat (sat255 n) = min 255 n"
  by (simp add: sat255_def unsigned_of_nat take_bit_nat_eq_self)

lemma sat255_0 [simp]: "sat255 0 = 0"
  by (simp add: sat255_def)

lemma inc255_sat [simp]: "inc255 (sat255 n) = sat255 (Suc n)"
proof (cases "n < 255")
  case True
  then have "sat255 n < 255" by (simp add: word_less_nat_alt)
  then show ?thesis using True by (simp add: inc255_def sat255_def)
next
  case False
  then show ?thesis by (simp add: inc255_def sat255_def)
qed

lemma threshold: "w \<le> sat255 n \<longleftrightarrow> unat w \<le> n"
proof -
  have "unat w < 2 ^ LENGTH(8)" by (rule unsigned_less)
  then show ?thesis by (auto simp: word_le_nat_alt)
qed

definition persistence_of :: "u8 \<Rightarrow> u8 \<Rightarrow> u8 \<Rightarrow> bool list \<Rightarrow> FaultPersistence" where
  "persistence_of w f r xs =
     \<lparr>fp_warningSamples = w, fp_faultSamples = f, fp_recoverySamples = r,
      fp_abnormalCount = sat255 (last_run True xs),
      fp_consecutiveAbnormal = sat255 (last_run True xs),
      fp_consecutiveHealthy = sat255 (last_run False xs),
      fp_warningActive = debounced (unat w) (unat r) xs,
      fp_faultActive = debounced (unat f) (unat r) xs\<rparr>"

lemma observe_persistence_of:
  assumes "w \<noteq> 0" "f \<noteq> 0" "r \<noteq> 0"
  shows "observe x (persistence_of w f r xs) =
    (debounced (unat w) (unat r) xs \<noteq> debounced (unat w) (unat r) (xs @ [x]), persistence_of w f r (xs @ [x]))"
proof -
  have pos: "0 < unat w" "0 < unat f" "0 < unat r" using assms by (simp_all add: unat_gt_0)
  then show ?thesis using assms
    by (cases x) (auto simp: observe_def persistence_of_def Let_def threshold debounced_snoc)
qed

lemma observe_all_persistence:
  assumes "w \<noteq> 0" "f \<noteq> 0" "r \<noteq> 0"
  shows "observe_all xs (FaultPersistence_new w f r) = persistence_of w f r xs"
proof (induction xs rule: rev_induct)
  case Nil
  then show ?case using assms
    by (simp add: observe_all_def FaultPersistence_new_def persistence_of_def unat_eq_0)
next
  case (snoc x xs)
  then show ?case using observe_persistence_of [OF assms] by (simp add: observe_all_def)
qed

section \<open>LightHealthEngine\<close>

record HealthObservation =
  ho_present :: bool
  ho_commandedOn :: bool
  ho_lampFailure :: bool
  ho_gearFailure :: bool
  ho_thermalWarning :: bool
  ho_thermalCritical :: bool
  ho_currentDrift :: bool
  ho_powerDrift :: bool
  ho_intermittentFault :: bool
  ho_poorCommunication :: bool

definition HealthObservation_init :: HealthObservation where
  "HealthObservation_init =
     \<lparr>ho_present = True, ho_commandedOn = False, ho_lampFailure = False, ho_gearFailure = False,
      ho_thermalWarning = False, ho_thermalCritical = False, ho_currentDrift = False,
      ho_powerDrift = False, ho_intermittentFault = False, ho_poorCommunication = False\<rparr>"

record HealthScoringConfig =
  hc_confirmedLampFailure :: f32
  hc_confirmedGearFailure :: f32
  hc_deviceMissing :: f32
  hc_criticalTemperature :: f32
  hc_intermittentFailure :: f32
  hc_currentDeviation :: f32
  hc_powerDeviation :: f32
  hc_thermalWarning :: f32
  hc_poorCommunication :: f32
  hc_recoveryStep :: f32

definition HealthScoringConfig_init :: HealthScoringConfig where
  "HealthScoringConfig_init =
     \<lparr>hc_confirmedLampFailure = f32_lit 80, hc_confirmedGearFailure = f32_lit 80,
      hc_deviceMissing = f32_lit 70, hc_criticalTemperature = f32_lit 60,
      hc_intermittentFailure = f32_lit 40, hc_currentDeviation = f32_lit 25,
      hc_powerDeviation = f32_lit 25, hc_thermalWarning = f32_lit 20,
      hc_poorCommunication = f32_lit 15, hc_recoveryStep = f32_lit 1\<rparr>"

record HealthEvaluation =
  he_healthScore :: f32
  he_state :: LightState
  he_activeFaultFlags :: u32

record LightHealthEngine =
  hn_config :: HealthScoringConfig
  hn_score :: f32

definition LightHealthEngine_new :: "HealthScoringConfig \<Rightarrow> LightHealthEngine" where
  "LightHealthEngine_new config = \<lparr>hn_config = config, hn_score = f32_lit 100\<rparr>"

text \<open>Lines 29 to 53: the deductions and the flags, in the order the code accumulates them.\<close>

definition deduct :: "bool \<Rightarrow> f32 \<Rightarrow> u32 \<Rightarrow> f32 \<times> u32 \<Rightarrow> f32 \<times> u32" where
  "deduct condition amount flag df =
     (if condition then (f32_add (fst df) amount, snd df OR flag) else df)"

definition deductions_flags :: "HealthScoringConfig \<Rightarrow> HealthObservation \<Rightarrow> f32 \<times> u32" where
  "deductions_flags config observation =
     (let d0 = (F_Zero False, 0);
          d1 = deduct (ho_lampFailure observation) (hc_confirmedLampFailure config) (push_bit 0 1) d0;
          d2 = deduct (ho_gearFailure observation) (hc_confirmedGearFailure config) (push_bit 1 1) d1;
          d3 = deduct (\<not> ho_present observation) (hc_deviceMissing config) (push_bit 2 1) d2;
          d4 = (if ho_thermalCritical observation
                then deduct True (hc_criticalTemperature config) (push_bit 3 1) d3
                else deduct (ho_thermalWarning observation) (hc_thermalWarning config) (push_bit 4 1) d3);
          d5 = deduct (ho_intermittentFault observation) (hc_intermittentFailure config) 0 d4;
          d6 = deduct (ho_currentDrift observation) (hc_currentDeviation config) 0 d5;
          d7 = deduct (ho_powerDrift observation) (hc_powerDeviation config) 0 d6
      in deduct (ho_poorCommunication observation) (hc_poorCommunication config) 0 d7)"

text \<open>Lines 55 to 60: the score after the deductions.\<close>

definition next_score :: "f32 \<Rightarrow> f32 \<Rightarrow> f32 \<Rightarrow> f32" where
  "next_score recoveryStep deductions score =
     (let target = f32_max (F_Zero False) (f32_sub (f32_lit 100) deductions)
      in if f32_lt target score then f32_max target (f32_sub score deductions)
         else if f32_lt score (f32_lit 100) \<and> f32_eq deductions (F_Zero False)
         then f32_min (f32_lit 100) (f32_add score recoveryStep)
         else score)"

definition evaluate :: "HealthObservation \<Rightarrow> LightHealthEngine \<Rightarrow> HealthEvaluation \<times> LightHealthEngine" where
  "evaluate observation e =
     (let (deductions, flags) = deductions_flags (hn_config e) observation;
          score = next_score (hc_recoveryStep (hn_config e)) deductions (hn_score e);
          state = (if \<not> ho_present observation then LsMissing
                   else if ho_lampFailure observation \<or> ho_gearFailure observation then LsFailed
                   else if ho_thermalCritical observation \<or> f32_lt score (f32_lit 20) then LsFailed
                   else if f32_lt score (f32_lit 50) then LsServiceRequired
                   else if f32_lt (F_Zero False) deductions then LsWarning
                   else if \<not> ho_commandedOn observation then LsOffCommanded
                   else LsOnHealthy)
      in (\<lparr>he_healthScore = score, he_state = state, he_activeFaultFlags = flags\<rparr>,
          e\<lparr>hn_score := score\<rparr>))"

section \<open>Deductions\<close>

text \<open>A weight of the scoring: a float that is not negative and not a NaN.\<close>

definition weight :: "f32 \<Rightarrow> bool" where
  "weight x \<longleftrightarrow> f32_ok x \<and> f32_le (F_Zero False) x"

definition config_ok :: "HealthScoringConfig \<Rightarrow> bool" where
  "config_ok c \<longleftrightarrow> list_all weight
     [hc_confirmedLampFailure c, hc_confirmedGearFailure c, hc_deviceMissing c, hc_criticalTemperature c,
      hc_intermittentFailure c, hc_currentDeviation c, hc_powerDeviation c, hc_thermalWarning c,
      hc_poorCommunication c, hc_recoveryStep c]"

text \<open>Every deduction of the configuration is strictly positive.\<close>

definition config_positive :: "HealthScoringConfig \<Rightarrow> bool" where
  "config_positive c \<longleftrightarrow> config_ok c \<and> list_all (f32_lt (F_Zero False))
     [hc_confirmedLampFailure c, hc_confirmedGearFailure c, hc_deviceMissing c, hc_criticalTemperature c,
      hc_intermittentFailure c, hc_currentDeviation c, hc_powerDeviation c, hc_thermalWarning c,
      hc_poorCommunication c]"

definition no_fault :: "HealthObservation \<Rightarrow> bool" where
  "no_fault o' \<longleftrightarrow> ho_present o' \<and> \<not> ho_lampFailure o' \<and> \<not> ho_gearFailure o' \<and>
     \<not> ho_thermalWarning o' \<and> \<not> ho_thermalCritical o' \<and> \<not> ho_currentDrift o' \<and>
     \<not> ho_powerDrift o' \<and> \<not> ho_intermittentFault o' \<and> \<not> ho_poorCommunication o'"

lemma weight_add:
  assumes "weight a" "weight b"
  shows "weight (f32_add a b)" "f32_le a (f32_add a b)" "f32_le b (f32_add a b)"
proof -
  have up: "f32_le x (f32_add x y)" if "weight x" "weight y" for x y
  proof (cases "f32_finite x")
    case True
    then show ?thesis using f32_add_ge that by (auto simp: weight_def)
  next
    case False
    then have "x = F_Inf False" using that by (cases x) (auto simp: weight_def f32_le_def)
    then show ?thesis using that by (cases y) (auto simp: weight_def f32_le_def)
  qed
  have comm: "f32_add a b = f32_add b a" by (cases a; cases b) (auto simp: add.commute)
  show "f32_le a (f32_add a b)" "f32_le b (f32_add a b)" using up assms comm by metis+
  then show "weight (f32_add a b)" using assms f32_le_trans by (auto simp: weight_def)
qed

lemma weight_deduct:
  assumes "weight (fst df)" "weight amount"
  shows "weight (fst (deduct cond amount flag df)) \<and> f32_le (fst df) (fst (deduct cond amount flag df)) \<and>
    (cond \<longrightarrow> f32_le amount (fst (deduct cond amount flag df)))"
  using assms weight_add [OF assms] f32_le_refl [of "fst df"] by (auto simp: deduct_def weight_def)

lemma deductions_healthy:
  "no_fault o' \<Longrightarrow> deductions_flags c o' = (F_Zero False, 0)"
  by (simp add: no_fault_def deductions_flags_def deduct_def Let_def)

text \<open>The deductions as a list: a condition, its weight and its flag.\<close>

definition deduction_list :: "HealthScoringConfig \<Rightarrow> HealthObservation \<Rightarrow> (bool \<times> f32 \<times> u32) list" where
  "deduction_list c o' =
     [(ho_lampFailure o', hc_confirmedLampFailure c, push_bit 0 1),
      (ho_gearFailure o', hc_confirmedGearFailure c, push_bit 1 1),
      (\<not> ho_present o', hc_deviceMissing c, push_bit 2 1),
      (ho_thermalCritical o', hc_criticalTemperature c, push_bit 3 1),
      (\<not> ho_thermalCritical o' \<and> ho_thermalWarning o', hc_thermalWarning c, push_bit 4 1),
      (ho_intermittentFault o', hc_intermittentFailure c, 0),
      (ho_currentDrift o', hc_currentDeviation c, 0),
      (ho_powerDrift o', hc_powerDeviation c, 0),
      (ho_poorCommunication o', hc_poorCommunication c, 0)]"

lemma deductions_fold:
  "deductions_flags c o' =
     fold (\<lambda>(cond, amount, flag). deduct cond amount flag) (deduction_list c o') (F_Zero False, 0)"
  by (cases "ho_thermalCritical o'") (simp_all add: deductions_flags_def deduction_list_def Let_def deduct_def)

lemma fold_deduct:
  assumes "list_all (\<lambda>(cond, amount, flag). weight amount) xs" "weight (fst df)"
    and "df' = fold (\<lambda>(cond, amount, flag). deduct cond amount flag) xs df"
  shows "weight (fst df') \<and> f32_le (fst df) (fst df') \<and>
    (\<forall>(cond, amount, flag) \<in> set xs. cond \<longrightarrow> f32_le amount (fst df'))"
  using assms
proof (induction xs arbitrary: df)
  case Nil
  then show ?case using f32_le_refl [of "fst df"] by (auto simp: weight_def)
next
  case (Cons x xs)
  obtain cond amount flag where x: "x = (cond, amount, flag)" using prod_cases3 by blast
  note d = weight_deduct [of df amount cond flag]
  have "weight amount" using Cons.prems(1) x by simp
  with d Cons.prems(2) have step: "weight (fst (deduct cond amount flag df))"
    "f32_le (fst df) (fst (deduct cond amount flag df))" "cond \<longrightarrow> f32_le amount (fst (deduct cond amount flag df))"
    by auto
  from Cons.IH [OF _ step(1)] Cons.prems(1,3) x have
    "weight (fst df')" "f32_le (fst (deduct cond amount flag df)) (fst df')"
    "\<forall>(cond, amount, flag) \<in> set xs. cond \<longrightarrow> f32_le amount (fst df')" by auto
  with step(2,3) x show ?case by (auto intro: f32_le_trans)
qed

lemma deductions_bounds:
  assumes "config_ok c"
  shows "weight (fst (deductions_flags c o'))"
    and "\<not> no_fault o' \<Longrightarrow> config_positive c \<Longrightarrow> f32_lt (F_Zero False) (fst (deductions_flags c o'))"
proof -
  have "list_all (\<lambda>(cond, amount, flag). weight amount) (deduction_list c o')"
    using assms by (simp add: config_ok_def deduction_list_def)
  moreover have "weight (fst (F_Zero False, 0 :: u32))" by (simp add: weight_def f32_le_def)
  ultimately have b: "weight (fst (deductions_flags c o'))"
    "\<forall>(cond, amount, flag) \<in> set (deduction_list c o'). cond \<longrightarrow> f32_le amount (fst (deductions_flags c o'))"
    using fold_deduct [OF _ _ deductions_fold, of c o'] by blast+
  show "weight (fst (deductions_flags c o'))" by (rule b(1))
  assume "\<not> no_fault o'" "config_positive c"
  then have "\<exists>(cond, amount, flag) \<in> set (deduction_list c o'). cond \<and> f32_lt (F_Zero False) amount"
    by (auto simp: deduction_list_def no_fault_def config_positive_def)
  with b(2) show "f32_lt (F_Zero False) (fst (deductions_flags c o'))" using f32_lt_le_trans by fast
qed

section \<open>The score\<close>

definition score_ok :: "f32 \<Rightarrow> bool" where
  "score_ok s \<longleftrightarrow> f32_ok s \<and> f32_le (F_Zero False) s \<and> f32_le s (f32_lit 100)"

lemma hundred: "f32_lit 100 = F_Num 100"
  by code_simp

lemma score_ok_finite: "score_ok s \<Longrightarrow> f32_finite s"
  using f32_finite_between [of "F_Zero False" s "F_Num 100"] by (simp add: score_ok_def hundred)

lemma sub_weight:
  assumes "f32_ok a" "f32_finite a" "weight d"
  shows "f32_ok (f32_sub a d)" "f32_le (f32_sub a d) a" "f32_sub a d \<noteq> F_NaN"
proof -
  show le: "f32_le (f32_sub a d) a" using f32_sub_le assms by (auto simp: weight_def)
  then show "f32_sub a d \<noteq> F_NaN" by auto
qed (use assms in \<open>simp add: weight_def\<close>)

text \<open>The floor of one evaluation: \<open>max(0, 100 - deductions)\<close>.\<close>

definition score_target :: "f32 \<Rightarrow> f32" where
  "score_target d = f32_max (F_Zero False) (f32_sub (f32_lit 100) d)"

lemma score_target_ok:
  assumes "weight d"
  shows "score_ok (score_target d)"
proof -
  have h: "f32_ok (F_Num 100)" "f32_finite (F_Num 100)" using f32_round_ok [of 100] hundred by simp_all
  note sub = sub_weight [OF h assms]
  have "f32_le (F_Zero False) (F_Num 100)" by (simp add: f32_le_def)
  then show ?thesis
    using sub f32_max_ge(1) [of "F_Zero False" "f32_sub (F_Num 100) d"] f32_max_least [OF _ sub(2)]
    unfolding score_ok_def score_target_def hundred by simp
qed

lemma score_target_0: "score_target (F_Zero False) = F_Num 100"
proof -
  have "f32_sub (F_Num 100) (F_Zero False) = F_Num 100" using hundred by (simp add: f32_sub_def)
  moreover have "f32_lt (F_Zero False) (F_Num 100)" by (simp add: f32_lt_def f32_le_def)
  ultimately show ?thesis by (simp add: score_target_def hundred f32_max_def)
qed

lemma next_score_down:
  assumes "score_ok s" "weight d" "f32_lt (score_target d) s"
  shows "score_ok (next_score step d s)" "f32_le (score_target d) (next_score step d s)"
    "f32_le (next_score step d s) s"
proof -
  have s: "f32_ok s" "f32_finite s" using assms(1) score_ok_finite by (auto simp: score_ok_def)
  note sub = sub_weight [OF s assms(2)] and t = score_target_ok [OF assms(2)]
  have tn: "score_target d \<noteq> F_NaN" using t by (auto simp: score_ok_def)
  have eq: "next_score step d s = f32_max (score_target d) (f32_sub s d)"
    using assms(3) by (simp add: next_score_def score_target_def Let_def)
  show up: "f32_le (next_score step d s) s"
    unfolding eq using sub(2) f32_lt_imp_le [OF assms(3)] by (intro f32_max_least)
  show lo: "f32_le (score_target d) (next_score step d s)" unfolding eq using f32_max_ge(1) [OF tn sub(3)] .
  show "score_ok (next_score step d s)"
    using t assms(1) f32_le_trans [OF _ lo] f32_le_trans [OF up] sub(1)
    unfolding score_ok_def by (simp add: eq)
qed

lemma next_score_up:
  assumes "score_ok s" "weight step"
  shows "next_score step (F_Zero False) s =
      (if f32_lt s (F_Num 100) then f32_min (F_Num 100) (f32_add s step) else s)"
    and "score_ok (next_score step (F_Zero False) s)" "f32_le s (next_score step (F_Zero False) s)"
proof -
  have s: "f32_ok s" "f32_finite s" "f32_le s (F_Num 100)"
    using assms(1) score_ok_finite by (auto simp: score_ok_def hundred)
  have "\<not> f32_lt (F_Num 100) s" using s(3) by (simp add: f32_lt_def)
  then show eq: "next_score step (F_Zero False) s =
      (if f32_lt s (F_Num 100) then f32_min (F_Num 100) (f32_add s step) else s)"
    using score_target_0 by (simp add: next_score_def score_target_def Let_def hundred f32_eq_def)
  have add: "f32_le s (f32_add s step)" using f32_add_ge [OF s(1,2)] assms(2) unfolding weight_def by blast
  then have nn: "f32_add s step \<noteq> F_NaN" by auto
  have "f32_le s (f32_min (F_Num 100) (f32_add s step))" by (rule f32_min_greatest [OF s(3) add])
  then show le: "f32_le s (next_score step (F_Zero False) s)"
    using s by (simp add: eq) auto
  have "f32_le (next_score step (F_Zero False) s) (F_Num 100)"
    using f32_min_le(1) [OF _ nn, of "F_Num 100"] s(3) by (simp add: eq)
  moreover have "f32_ok (next_score step (F_Zero False) s)"
    using assms(2) s hundred f32_round_ok [of 100] by (simp add: eq weight_def)
  ultimately show "score_ok (next_score step (F_Zero False) s)"
    using assms(1) f32_le_trans [OF _ le] by (auto simp: score_ok_def hundred)
qed

lemma next_score_ok:
  assumes "score_ok s" "weight d" "weight step"
  shows "score_ok (next_score step d s)"
proof (cases "f32_lt (score_target d) s")
  case True
  then show ?thesis using next_score_down(1) assms by blast
next
  case False
  have s: "f32_ok s" "f32_finite s" "f32_le s (F_Num 100)" "f32_le (F_Zero False) s"
    using assms(1) score_ok_finite by (auto simp: score_ok_def hundred)
  have add: "f32_le s (f32_add s step)"
    using f32_add_ge [OF s(1,2)] assms(3) unfolding weight_def by blast
  moreover have "f32_add s step \<noteq> F_NaN" using add by auto
  ultimately have "score_ok (f32_min (F_Num 100) (f32_add s step))"
    using f32_min_greatest [OF s(3) add] f32_le_trans [OF s(4)] f32_min_le(1) [of "F_Num 100" "f32_add s step"]
      assms(3) s(1) hundred f32_round_ok [of 100]
    by (auto simp: score_ok_def weight_def)
  then show ?thesis
    using False assms(1) by (simp add: next_score_def score_target_def Let_def hundred)
qed

definition engine_ok :: "LightHealthEngine \<Rightarrow> bool" where
  "engine_ok e \<longleftrightarrow> config_ok (hn_config e) \<and> score_ok (hn_score e)"

lemma evaluate_config [frames]: "hn_config (snd (evaluate o' e)) = hn_config e"
  by (simp add: evaluate_def Let_def split: prod.splits)

lemma evaluate_score:
  "hn_score (snd (evaluate o' e)) =
     next_score (hc_recoveryStep (hn_config e)) (fst (deductions_flags (hn_config e) o')) (hn_score e)"
  "he_healthScore (fst (evaluate o' e)) = hn_score (snd (evaluate o' e))"
  by (simp_all add: evaluate_def Let_def split: prod.splits)

lemma evaluate_state:
  "he_state (fst (evaluate o' e)) =
     (let score = hn_score (snd (evaluate o' e)); d = fst (deductions_flags (hn_config e) o') in
      if \<not> ho_present o' then LsMissing
      else if ho_lampFailure o' \<or> ho_gearFailure o' then LsFailed
      else if ho_thermalCritical o' \<or> f32_lt score (f32_lit 20) then LsFailed
      else if f32_lt score (f32_lit 50) then LsServiceRequired
      else if f32_lt (F_Zero False) d then LsWarning
      else if \<not> ho_commandedOn o' then LsOffCommanded else LsOnHealthy)"
  by (cases "deductions_flags (hn_config e) o'") (simp add: evaluate_def Let_def)

lemma evaluate_ok [keeps]: "engine_ok e \<Longrightarrow> engine_ok (snd (evaluate o' e))"
  using next_score_ok deductions_bounds(1)
  by (auto simp: engine_ok_def evaluate_config evaluate_score config_ok_def)

definition evaluate_all :: "HealthObservation list \<Rightarrow> LightHealthEngine \<Rightarrow> LightHealthEngine" where
  "evaluate_all observations e = fold (\<lambda>o' e. snd (evaluate o' e)) observations e"

section \<open>Properties\<close>

text \<open>
  C21: persistence debounces. For any history of samples and nonzero thresholds the warning
  (fault) is active exactly when at some point the last \<open>warningSamples\<close> (\<open>faultSamples\<close>)
  samples were all abnormal and at no later point the last \<open>recoverySamples\<close> were all healthy,
  the counters are the current runs, capped at 255, and \<open>observe\<close> returns whether the
  warning changed.
\<close>

theorem persistence_debounces:
  assumes "w \<noteq> 0" and "f \<noteq> 0" and "r \<noteq> 0"
  shows "warningActive (observe_all xs (FaultPersistence_new w f r)) = debounced (unat w) (unat r) xs \<and>
    faultActive (observe_all xs (FaultPersistence_new w f r)) = debounced (unat f) (unat r) xs \<and>
    unat (abnormalCount (observe_all xs (FaultPersistence_new w f r))) = min 255 (last_run True xs) \<and>
    fst (observe x (observe_all xs (FaultPersistence_new w f r))) =
      (debounced (unat w) (unat r) xs \<noteq> debounced (unat w) (unat r) (xs @ [x]))"
  using observe_all_persistence [OF assms, of xs] observe_persistence_of [OF assms, of x xs]
  by (simp add: persistence_of_def)

text \<open>
  Three abnormal samples out of five do not raise a warning with three warning samples, when
  healthy samples lie between them: the abnormal count restarts at every healthy sample.
\<close>

lemma three_of_five_is_not_enough:
  "\<not> fp_warningActive (observe_all [True, False, True, False, True] (FaultPersistence_new 3 5 10))"
  by code_simp

theorem persistence_debounces_witness:
  "debounced 3 10 [False, True, True, True, False] \<and> \<not> debounced 5 10 [False, True, True, True, False]"
proof -
  let ?xs = "[False, True, True, True, False]"
  have "fp_warningActive (observe_all ?xs (FaultPersistence_new 3 5 10))"
    "\<not> fp_faultActive (observe_all ?xs (FaultPersistence_new 3 5 10))"
    by code_simp+
  then show ?thesis using persistence_debounces [of 3 5 10 ?xs] by simp
qed

text \<open>
  C22: the health score stays a number between 0 and 100. From any score in range, with any
  configuration of non-negative weights (even ones whose sum overflows binary32), every
  sequence of observations leaves the score in range.
\<close>

theorem score_in_range:
  assumes "engine_ok e"
  shows "f32_le (F_Zero False) (hn_score (evaluate_all os e)) \<and> f32_le (hn_score (evaluate_all os e)) (f32_lit 100) \<and>
    f32_finite (hn_score (evaluate_all os e))"
proof -
  have "engine_ok (evaluate_all os e)"
    using assms unfolding evaluate_all_def by (induction os arbitrary: e) (simp_all add: keeps)
  then show ?thesis using score_ok_finite by (simp add: engine_ok_def score_ok_def)
qed

lemma default_engine_ok: "engine_ok (LightHealthEngine_new HealthScoringConfig_init)"
  by code_simp

theorem score_in_range_witness:
  "f32_le (F_Zero False) (hn_score (evaluate_all [HealthObservation_init\<lparr>ho_lampFailure := True,
     ho_gearFailure := True\<rparr>] (LightHealthEngine_new HealthScoringConfig_init)))"
  using score_in_range [OF default_engine_ok] by blast

text \<open>
  C23: the score moves the right way. A faultless observation never lowers it (it adds the
  recovery step, up to 100). With positive weights a faulty one never raises it, and lowers
  it at most to \<open>100 - deductions\<close> (or 0): repeating the same fault does not sink it further.
\<close>

theorem score_direction:
  assumes "engine_ok e" and "config_positive (hn_config e)" and "evaluate o' e = (r, e')"
  shows "if no_fault o'
    then f32_le (hn_score e) (hn_score e') \<and>
      hn_score e' = (if f32_lt (hn_score e) (f32_lit 100)
        then f32_min (f32_lit 100) (f32_add (hn_score e) (hc_recoveryStep (hn_config e))) else hn_score e)
    else f32_le (hn_score e') (hn_score e) \<and>
      (hn_score e' = hn_score e \<or>
       f32_le (f32_max (F_Zero False) (f32_sub (f32_lit 100) (fst (deductions_flags (hn_config e) o'))))
         (hn_score e'))"
proof -
  let ?d = "fst (deductions_flags (hn_config e) o')" and ?step = "hc_recoveryStep (hn_config e)"
  have ok: "score_ok (hn_score e)" "weight ?step" "weight ?d" "config_ok (hn_config e)"
    using assms(1) deductions_bounds(1) by (simp_all add: engine_ok_def config_ok_def)
  have e': "hn_score e' = next_score ?step ?d (hn_score e)" using evaluate_score(1) [of o' e] assms(3) by simp
  show ?thesis
  proof (cases "no_fault o'")
    case True
    then show ?thesis using next_score_up [OF ok(1,2)] deductions_healthy [OF True] e' by (simp add: hundred)
  next
    case False
    then have "\<not> f32_eq ?d (F_Zero False)"
      using deductions_bounds(2) [OF ok(4) False assms(2)] by (auto simp: f32_lt_def f32_eq_def)
    moreover have "f32_le (hn_score e) (hn_score e)" using ok(1) by (auto simp: score_ok_def)
    ultimately show ?thesis
      using False next_score_down(2,3) [OF ok(1,3), of ?step]
      by (cases "f32_lt (score_target ?d) (hn_score e)")
        (simp_all add: e' score_target_def, simp add: next_score_def score_target_def Let_def)
  qed
qed

lemma default_config_positive: "config_positive HealthScoringConfig_init"
  by code_simp

theorem score_direction_witness:
  "f32_le (hn_score (snd (evaluate (HealthObservation_init\<lparr>ho_poorCommunication := True\<rparr>)
     (LightHealthEngine_new HealthScoringConfig_init)))) (f32_lit 100)"
proof -
  let ?e = "LightHealthEngine_new HealthScoringConfig_init"
  have "config_positive (hn_config ?e)" using default_config_positive by (simp add: LightHealthEngine_new_def)
  from score_direction [OF default_engine_ok this, of "HealthObservation_init\<lparr>ho_poorCommunication := True\<rparr>"]
  show ?thesis
    by (cases "evaluate (HealthObservation_init\<lparr>ho_poorCommunication := True\<rparr>) ?e")
      (simp add: no_fault_def, simp add: LightHealthEngine_new_def)
qed

text \<open>
  The state and the flags of an evaluation tell its observation. Each fault bit is set
  exactly for its fault (a critical temperature masks the warning bit); an absent light is
  \<open>Missing\<close>, a present one \<open>Failed\<close> exactly with a lamp, gear or critical thermal fault or a
  score below 20; and the healthy states are given exactly without any fault and with a score
  of at least 50.
\<close>

theorem evaluate_state_flags:
  assumes "engine_ok e" and "config_positive (hn_config e)" and "evaluate o' e = (r, e')"
  shows "he_activeFaultFlags r = (if ho_lampFailure o' then 1 else 0) OR (if ho_gearFailure o' then 2 else 0) OR
      (if ho_present o' then 0 else 4) OR
      (if ho_thermalCritical o' then 8 else if ho_thermalWarning o' then 16 else 0) \<and>
    (he_state r = LsMissing) = (\<not> ho_present o') \<and>
    (he_state r = LsFailed) = (ho_present o' \<and> (ho_lampFailure o' \<or> ho_gearFailure o' \<or>
      ho_thermalCritical o' \<or> f32_lt (hn_score e') (f32_lit 20))) \<and>
    (he_state r = LsOnHealthy \<or> he_state r = LsOffCommanded) =
      (no_fault o' \<and> \<not> f32_lt (hn_score e') (f32_lit 50)) \<and>
    he_healthScore r = hn_score e'"
proof -
  let ?d = "fst (deductions_flags (hn_config e) o')"
  have r: "r = fst (evaluate o' e)" "e' = snd (evaluate o' e)" using assms(3) by simp_all
  have flags: "snd (deductions_flags (hn_config e) o') = (if ho_lampFailure o' then 1 else 0) OR
      (if ho_gearFailure o' then 2 else 0) OR (if ho_present o' then 0 else 4) OR
      (if ho_thermalCritical o' then 8 else if ho_thermalWarning o' then 16 else 0)"
    by (simp add: deductions_flags_def deduct_def Let_def)
  have d: "f32_lt (F_Zero False) ?d \<longleftrightarrow> \<not> no_fault o'"
    using deductions_bounds(2) [OF _ _ assms(2)] deductions_healthy [of o' "hn_config e"] assms(1)
    by (auto simp: engine_ok_def)
  have "f32_le (f32_lit 20) (f32_lit 50)" by code_simp
  then have s: "f32_lt x (f32_lit 20) \<Longrightarrow> f32_lt x (f32_lit 50)" for x by (rule f32_lt_le_trans [rotated])
  note st = evaluate_state [of o' e, folded r, unfolded Let_def]
  have "he_activeFaultFlags r = snd (deductions_flags (hn_config e) o')"
    by (simp add: r evaluate_def Let_def split: prod.splits)
  moreover have "(he_state r = LsMissing) = (\<not> ho_present o')" unfolding st by simp
  moreover have "(he_state r = LsFailed) = (ho_present o' \<and> (ho_lampFailure o' \<or> ho_gearFailure o' \<or>
      ho_thermalCritical o' \<or> f32_lt (hn_score e') (f32_lit 20)))" unfolding st by simp
  moreover have "(he_state r = LsOnHealthy \<or> he_state r = LsOffCommanded) =
      (no_fault o' \<and> \<not> f32_lt (hn_score e') (f32_lit 50))"
    unfolding st d no_fault_def by (simp split: if_split) (use s in blast)
  moreover have "he_healthScore r = hn_score e'" by (simp add: r evaluate_score(2))
  ultimately show ?thesis using flags by simp
qed

theorem evaluate_state_flags_witness:
  "he_state (fst (evaluate (HealthObservation_init\<lparr>ho_present := False\<rparr>)
     (LightHealthEngine_new HealthScoringConfig_init))) = LsMissing"
proof -
  let ?e = "LightHealthEngine_new HealthScoringConfig_init"
  have "config_positive (hn_config ?e)" using default_config_positive by (simp add: LightHealthEngine_new_def)
  from evaluate_state_flags [OF default_engine_ok this, of "HealthObservation_init\<lparr>ho_present := False\<rparr>"]
  show ?thesis by (cases "evaluate (HealthObservation_init\<lparr>ho_present := False\<rparr>) ?e") simp
qed

end
