(* ===== verification/Event_Manager.thy ===== *)
theory Event_Manager
  imports Core_Types
begin

text \<open>
  Active events, \<open>event_manager.h/.cpp\<close>: 128 slots, at most one active event for an address
  and an event type, severities that escalate, acknowledgements and reminders. The slots are
  shown to implement a partial map from (address, type) to the active event.
\<close>

section \<open>Searching an array\<close>

text \<open>The index of the first element with a property: a range-\<open>for\<close> that returns from its body.\<close>

fun first_index :: "('a \<Rightarrow> bool) \<Rightarrow> 'a list \<Rightarrow> nat option" where
  "first_index P [] = None"
| "first_index P (x # xs) = (if P x then Some 0 else map_option Suc (first_index P xs))"

lemma first_index_None: "first_index P xs = None \<longleftrightarrow> (\<forall>i < length xs. \<not> P (xs ! i))"
  by (induction xs) (auto simp: less_Suc_eq_0_disj)

lemma first_index_Some:
  "first_index P xs = Some i \<Longrightarrow> i < length xs \<and> P (xs ! i) \<and> (\<forall>j < i. \<not> P (xs ! j))"
  by (induction xs arbitrary: i) (auto simp: less_Suc_eq_0_disj split: if_splits)

section \<open>Data\<close>

datatype EventAction = EaActivated | EaEscalated | EaCleared | EaReminder

record EventTransition =
  et_event :: LightEvent
  et_action :: EventAction
  et_acknowledged :: bool

record ActiveEvent =
  ae_used :: bool
  ae_event :: LightEvent
  ae_acknowledged :: bool
  ae_lastEmitted :: u64

definition ActiveEvent_init :: ActiveEvent where
  "ActiveEvent_init = \<lparr>ae_used = False, ae_event = LightEvent_init, ae_acknowledged = False,
     ae_lastEmitted = 0\<rparr>"

record EventManager =
  em_active :: "ActiveEvent list"
  em_nextEventId :: u32

definition kEventCapacity :: nat where
  "kEventCapacity = 128"

definition EventManager_init :: EventManager where
  "EventManager_init = \<lparr>em_active = replicate kEventCapacity ActiveEvent_init, em_nextEventId = 1\<rparr>"

section \<open>Operations\<close>

definition em_find :: "u8 \<Rightarrow> LightEventType \<Rightarrow> EventManager \<Rightarrow> nat option" where
  "em_find address type em = first_index (\<lambda>item. ae_used item \<and>
     ev_shortAddress (ae_event item) = address \<and> ev_type (ae_event item) = type) (em_active em)"

definition em_raise :: "LightEvent \<Rightarrow> EventManager \<Rightarrow> EventTransition option \<times> EventManager" where
  "em_raise event em =
     (case em_find (ev_shortAddress event) (ev_type event) em of
        None \<Rightarrow>
          (case first_index (\<lambda>item. \<not> ae_used item) (em_active em) of
             None \<Rightarrow> (None, em)
           | Some i \<Rightarrow>
               let (event, em) =
                     (if ev_eventId event = 0
                      then (event\<lparr>ev_eventId := em_nextEventId em\<rparr>,
                            em\<lparr>em_nextEventId := em_nextEventId em + 1\<rparr>)
                      else (event, em))
               in (Some \<lparr>et_event = event, et_action = EaActivated, et_acknowledged = False\<rparr>,
                   em\<lparr>em_active := (em_active em)[i := \<lparr>ae_used = True, ae_event = event,
                        ae_acknowledged = False, ae_lastEmitted = ev_timestamp event\<rparr>]\<rparr>))
      | Some i \<Rightarrow>
          let existing = em_active em ! i
          in if severity_code (ev_severity (ae_event existing)) < severity_code (ev_severity event)
             then (Some \<lparr>et_event = event, et_action = EaEscalated,
                         et_acknowledged = ae_acknowledged existing\<rparr>,
                   em\<lparr>em_active := (em_active em)[i := existing\<lparr>ae_event := event,
                        ae_lastEmitted := ev_timestamp event\<rparr>]\<rparr>)
             else (None, em\<lparr>em_active := (em_active em)[i := existing\<lparr>ae_event := event\<rparr>]\<rparr>))"

definition em_clear ::
  "u8 \<Rightarrow> LightEventType \<Rightarrow> u64 \<Rightarrow> EventManager \<Rightarrow> EventTransition option \<times> EventManager"
where
  "em_clear address type timestamp em =
     (case em_find address type em of
        None \<Rightarrow> (None, em)
      | Some i \<Rightarrow>
          let existing = em_active em ! i;
              event = (ae_event existing)\<lparr>ev_timestamp := timestamp\<rparr>
          in (Some \<lparr>et_event = event, et_action = EaCleared,
                    et_acknowledged = ae_acknowledged existing\<rparr>,
              em\<lparr>em_active := (em_active em)[i := existing\<lparr>ae_event := event, ae_used := False\<rparr>]\<rparr>))"

definition em_acknowledge :: "u8 \<Rightarrow> LightEventType \<Rightarrow> EventManager \<Rightarrow> bool \<times> EventManager" where
  "em_acknowledge address type em =
     (case em_find address type em of
        None \<Rightarrow> (False, em)
      | Some i \<Rightarrow> (True, em\<lparr>em_active :=
          (em_active em)[i := (em_active em ! i)\<lparr>ae_acknowledged := True\<rparr>]\<rparr>))"

definition reminder_due :: "u64 \<Rightarrow> u64 \<Rightarrow> ActiveEvent \<Rightarrow> bool" where
  "reminder_due timestamp intervalMs item \<longleftrightarrow>
     \<not> (\<not> ae_used item \<or> timestamp < ae_lastEmitted item \<or>
        timestamp - ae_lastEmitted item < intervalMs)"

definition em_reminder :: "u64 \<Rightarrow> u64 \<Rightarrow> EventManager \<Rightarrow> EventTransition option \<times> EventManager" where
  "em_reminder timestamp intervalMs em =
     (case first_index (reminder_due timestamp intervalMs) (em_active em) of
        None \<Rightarrow> (None, em)
      | Some i \<Rightarrow>
          let item = em_active em ! i;
              item = item\<lparr>ae_lastEmitted := timestamp,
                          ae_event := (ae_event item)\<lparr>ev_timestamp := timestamp\<rparr>\<rparr>
          in (Some \<lparr>et_event = ae_event item, et_action = EaReminder,
                    et_acknowledged = ae_acknowledged item\<rparr>,
              em\<lparr>em_active := (em_active em)[i := item]\<rparr>))"

definition em_activeCount :: "EventManager \<Rightarrow> nat" where
  "em_activeCount em = length (filter ae_used (em_active em))"

section \<open>The slots as a map\<close>

type_synonym event_key = "u8 \<times> LightEventType"

definition slot_key :: "ActiveEvent \<Rightarrow> event_key" where
  "slot_key item = (ev_shortAddress (ae_event item), ev_type (ae_event item))"

definition slot_value :: "ActiveEvent \<Rightarrow> LightEvent \<times> bool \<times> u64" where
  "slot_value item = (ae_event item, ae_acknowledged item, ae_lastEmitted item)"

definition em_map :: "EventManager \<Rightarrow> event_key \<rightharpoonup> LightEvent \<times> bool \<times> u64" where
  "em_map em k = map_option (\<lambda>i. slot_value (em_active em ! i)) (em_find (fst k) (snd k) em)"

text \<open>No two used slots hold the same key.\<close>

definition unique_keys :: "ActiveEvent list \<Rightarrow> bool" where
  "unique_keys xs \<longleftrightarrow> (\<forall>i < length xs. \<forall>j < length xs.
     ae_used (xs ! i) \<and> ae_used (xs ! j) \<and> slot_key (xs ! i) = slot_key (xs ! j) \<longrightarrow> i = j)"

definition em_inv :: "EventManager \<Rightarrow> bool" where
  "em_inv em \<longleftrightarrow> length (em_active em) = kEventCapacity \<and> unique_keys (em_active em)"

lemma em_find_iff:
  assumes "unique_keys (em_active em)"
  shows "em_find a t em = Some i \<longleftrightarrow>
    i < length (em_active em) \<and> ae_used (em_active em ! i) \<and> slot_key (em_active em ! i) = (a, t)"
proof
  assume "em_find a t em = Some i"
  then show "i < length (em_active em) \<and> ae_used (em_active em ! i) \<and> slot_key (em_active em ! i) = (a, t)"
    unfolding em_find_def by (auto dest!: first_index_Some simp: slot_key_def)
next
  assume i: "i < length (em_active em) \<and> ae_used (em_active em ! i) \<and> slot_key (em_active em ! i) = (a, t)"
  then have "em_find a t em \<noteq> None" by (auto simp: em_find_def first_index_None slot_key_def)
  then obtain j where j: "em_find a t em = Some j" by auto
  then have "j < length (em_active em) \<and> ae_used (em_active em ! j) \<and> slot_key (em_active em ! j) = (a, t)"
    unfolding em_find_def by (auto dest!: first_index_Some simp: slot_key_def)
  with i assms have "j = i" unfolding unique_keys_def by metis
  with j show "em_find a t em = Some i" by simp
qed

lemma em_map_iff:
  assumes "unique_keys (em_active em)"
  shows "em_map em k = Some v \<longleftrightarrow> (\<exists>i < length (em_active em). ae_used (em_active em ! i) \<and>
    slot_key (em_active em ! i) = k \<and> slot_value (em_active em ! i) = v)"
  using em_find_iff [OF assms, of "fst k" "snd k"] by (auto simp: em_map_def)

text \<open>
  Writing a slot. \<open>i\<close> was free or held \<open>k\<close>, and no other slot holds \<open>k\<close>: then the map
  changes at \<open>k\<close> only.
\<close>

lemma em_map_write:
  assumes inv: "unique_keys (em_active em)" and i: "i < length (em_active em)"
    and own: "ae_used (em_active em ! i) \<longrightarrow> slot_key (em_active em ! i) = slot_key y"
    and free: "\<not> ae_used (em_active em ! i) \<longrightarrow> em_map em (slot_key y) = None"
    and em': "em_active em' = (em_active em)[i := y]"
  shows "unique_keys (em_active em')"
    and "em_map em' = (em_map em)(slot_key y := (if ae_used y then Some (slot_value y) else None))"
proof -
  let ?xs = "em_active em"
  have other: "\<not> (ae_used (?xs ! j) \<and> slot_key (?xs ! j) = slot_key y)" if "j < length ?xs" "j \<noteq> i" for j
  proof (cases "ae_used (?xs ! i)")
    case True
    then show ?thesis using inv own that i unfolding unique_keys_def by metis
  next
    case False
    then show ?thesis using free em_map_iff [OF inv, of "slot_key y"] that by (metis not_None_eq)
  qed
  show u: "unique_keys (em_active em')"
    unfolding unique_keys_def em' length_list_update
  proof (intro allI impI)
    fix a b assume "a < length ?xs" "b < length ?xs" "ae_used (?xs[i := y] ! a) \<and> ae_used (?xs[i := y] ! b) \<and>
      slot_key (?xs[i := y] ! a) = slot_key (?xs[i := y] ! b)"
    then show "a = b" using other inv unfolding unique_keys_def
      by (cases "a = i"; cases "b = i") (auto simp: nth_list_update)
  qed
  show "em_map em' = (em_map em)(slot_key y := (if ae_used y then Some (slot_value y) else None))"
  proof
    fix k
    have "em_map em' k = Some v \<longleftrightarrow>
        ((em_map em)(slot_key y := (if ae_used y then Some (slot_value y) else None))) k = Some v" for v
    proof (cases "k = slot_key y")
      case True
      then show ?thesis using other i unfolding em_map_iff [OF u] em'
        by (auto simp: nth_list_update)
    next
      case False
      then show ?thesis using own i unfolding em_map_iff [OF u] em'
        by (auto simp: em_map_iff [OF inv] nth_list_update)
    qed
    then show "em_map em' k = ((em_map em)(slot_key y := (if ae_used y then Some (slot_value y) else None))) k"
      by (metis not_None_eq)
  qed
qed

lemma em_init_inv [keeps]: "em_inv EventManager_init"
  by (simp add: em_inv_def EventManager_init_def unique_keys_def ActiveEvent_init_def)

lemma em_init_map [simp]: "em_map EventManager_init k = None"
  by (simp add: em_map_def em_find_def first_index_None EventManager_init_def ActiveEvent_init_def)

text \<open>Counting used slots counts their keys; \<open>activeCount\<close> counts the keys of the map.\<close>

lemma card_slot_keys:
  assumes u: "unique_keys xs" and P: "\<And>x. P x \<Longrightarrow> ae_used x"
  shows "card ((\<lambda>i. slot_key (xs ! i)) ` {i. i < length xs \<and> P (xs ! i)}) = length (filter P xs)"
proof -
  have "inj_on (\<lambda>i. slot_key (xs ! i)) {i. i < length xs \<and> P (xs ! i)}"
    using u P unfolding inj_on_def unique_keys_def by blast
  then show ?thesis by (simp add: card_image length_filter_conv_card)
qed

lemma activeCount_dom:
  assumes "em_inv em"
  shows "finite (dom (em_map em))" "card (dom (em_map em)) = em_activeCount em"
proof -
  let ?xs = "em_active em"
  have u: "unique_keys ?xs" using assms by (simp add: em_inv_def)
  have img: "(\<lambda>i. slot_key (?xs ! i)) ` {i. i < length ?xs \<and> ae_used (?xs ! i)} = dom (em_map em)"
  proof (rule set_eqI)
    fix k show "k \<in> (\<lambda>i. slot_key (?xs ! i)) ` {i. i < length ?xs \<and> ae_used (?xs ! i)} \<longleftrightarrow> k \<in> dom (em_map em)"
      unfolding domIff not_None_eq em_map_iff [OF u] image_iff by blast
  qed
  show "finite (dom (em_map em))" unfolding img [symmetric] by simp
  show "card (dom (em_map em)) = em_activeCount em"
    unfolding img [symmetric] em_activeCount_def by (rule card_slot_keys [OF u])
qed

lemma activeCount_bound: "em_inv em \<Longrightarrow> em_activeCount em \<le> kEventCapacity"
  using length_filter_le [of ae_used "em_active em"] by (simp add: em_activeCount_def em_inv_def)

lemma full_slots:
  assumes "em_inv em"
  shows "first_index (\<lambda>item. \<not> ae_used item) (em_active em) = None \<longleftrightarrow> em_activeCount em = kEventCapacity"
proof -
  have "em_activeCount em = length (em_active em) \<longleftrightarrow> (\<forall>x \<in> set (em_active em). ae_used x)"
    unfolding em_activeCount_def by (metis filter_True length_filter_less nat_neq_iff)
  then show ?thesis using assms by (auto simp: first_index_None em_inv_def all_set_conv_all_nth)
qed

definition event_key :: "LightEvent \<Rightarrow> event_key" where
  "event_key e = (ev_shortAddress e, ev_type e)"

lemma em_find_None: "em_find (fst k) (snd k) em = None \<longleftrightarrow> em_map em k = None"
  by (simp add: em_map_def)

lemma raise_new:
  assumes inv: "em_inv em" and k: "em_map em (event_key e) = None" and room: "em_activeCount em \<noteq> kEventCapacity"
    and e': "e' = (if ev_eventId e = 0 then e\<lparr>ev_eventId := em_nextEventId em\<rparr> else e)"
  shows "fst (em_raise e em) = Some \<lparr>et_event = e', et_action = EaActivated, et_acknowledged = False\<rparr>"
    and "em_inv (snd (em_raise e em))"
    and "em_map (snd (em_raise e em)) = (em_map em)(event_key e \<mapsto> (e', False, ev_timestamp e))"
proof -
  obtain i where i: "first_index (\<lambda>item. \<not> ae_used item) (em_active em) = Some i"
    using full_slots [OF inv] room by auto
  have f: "em_find (ev_shortAddress e) (ev_type e) em = None"
    using k em_find_None [of "event_key e" em] by (simp add: event_key_def)
  let ?y = "\<lparr>ae_used = True, ae_event = e', ae_acknowledged = False, ae_lastEmitted = ev_timestamp e'\<rparr>"
  have r: "fst (em_raise e em) = Some \<lparr>et_event = e', et_action = EaActivated, et_acknowledged = False\<rparr>"
    "em_active (snd (em_raise e em)) = (em_active em)[i := ?y]"
    using f i by (simp_all add: em_raise_def e')
  have y: "slot_key ?y = event_key e" "slot_value ?y = (e', False, ev_timestamp e)"
    by (simp_all add: slot_key_def slot_value_def event_key_def e')
  have inv': "unique_keys (em_active em)" "i < length (em_active em)" "\<not> ae_used (em_active em ! i)"
    using inv first_index_Some [OF i] by (simp_all add: em_inv_def)
  note w = em_map_write [OF inv'(1,2) _ _ r(2)]
  show "em_map (snd (em_raise e em)) = (em_map em)(event_key e \<mapsto> (e', False, ev_timestamp e))"
    using w(2) inv'(3) k y by simp
  show "em_inv (snd (em_raise e em))"
    using w(1) inv inv'(3) k y r(2) by (simp add: em_inv_def)
  show "fst (em_raise e em) = Some \<lparr>et_event = e', et_action = EaActivated, et_acknowledged = False\<rparr>"
    by (rule r(1))
qed

lemma found_slot:
  assumes "em_inv em" "em_map em k = Some v"
  obtains i where "em_find (fst k) (snd k) em = Some i" "i < length (em_active em)"
    "ae_used (em_active em ! i)" "slot_key (em_active em ! i) = k" "slot_value (em_active em ! i) = v"
proof -
  have u: "unique_keys (em_active em)" using assms(1) by (simp add: em_inv_def)
  obtain i where f: "em_find (fst k) (snd k) em = Some i" "slot_value (em_active em ! i) = v"
    using assms(2) by (auto simp: em_map_def)
  with em_find_iff [OF u, of "fst k" "snd k" i] that show thesis by simp
qed

text \<open>Replacing the slot that holds a key.\<close>

lemma write_found:
  assumes inv: "em_inv em" and "em_map em k = Some v" and f: "em_find (fst k) (snd k) em = Some i"
    and y: "slot_key y = k" and em': "em_active em' = (em_active em)[i := y]"
  shows "em_inv em'" "em_map em' = (em_map em)(k := (if ae_used y then Some (slot_value y) else None))"
proof -
  obtain j where "em_find (fst k) (snd k) em = Some j" "j < length (em_active em)"
    "ae_used (em_active em ! j)" "slot_key (em_active em ! j) = k"
    using found_slot [OF inv assms(2)] by metis
  then have i: "i < length (em_active em)" "ae_used (em_active em ! i)" "slot_key (em_active em ! i) = k"
    using f by simp_all
  have u: "unique_keys (em_active em)" using inv by (simp add: em_inv_def)
  note w = em_map_write [OF u i(1) _ _ em']
  show "em_inv em'" using w(1) i y inv em' by (simp add: em_inv_def)
  show "em_map em' = (em_map em)(k := (if ae_used y then Some (slot_value y) else None))"
    using w(2) i y by simp
qed

lemma raise_known:
  assumes inv: "em_inv em" and k: "em_map em (event_key e) = Some (old, ack, emitted)"
  shows "fst (em_raise e em) = (if ev_severity old < ev_severity e
      then Some \<lparr>et_event = e, et_action = EaEscalated, et_acknowledged = ack\<rparr> else None)"
    and "em_inv (snd (em_raise e em))"
    and "em_map (snd (em_raise e em)) = (em_map em)(event_key e \<mapsto>
      (e, ack, if ev_severity old < ev_severity e then ev_timestamp e else emitted))"
proof -
  obtain i where i: "em_find (fst (event_key e)) (snd (event_key e)) em = Some i"
    "ae_used (em_active em ! i)" "slot_value (em_active em ! i) = (old, ack, emitted)"
    using found_slot [OF inv k] by metis
  let ?y = "(em_active em ! i)\<lparr>ae_event := e, ae_lastEmitted :=
    (if ev_severity old < ev_severity e then ev_timestamp e else emitted)\<rparr>"
  have v: "ae_event (em_active em ! i) = old" "ae_acknowledged (em_active em ! i) = ack"
    "ae_lastEmitted (em_active em ! i) = emitted"
    using i(3) by (simp_all add: slot_value_def)
  have f: "em_find (ev_shortAddress e) (ev_type e) em = Some i" using i(1) by (simp add: event_key_def)
  have keep: "(em_active em ! i)\<lparr>ae_event := e\<rparr> = (em_active em ! i)\<lparr>ae_event := e, ae_lastEmitted := emitted\<rparr>"
    using v by simp
  show "fst (em_raise e em) = (if ev_severity old < ev_severity e
      then Some \<lparr>et_event = e, et_action = EaEscalated, et_acknowledged = ack\<rparr> else None)"
    using f v by (simp add: em_raise_def Let_def less_EventSeverity_def)
  have a: "em_active (snd (em_raise e em)) = (em_active em)[i := ?y]"
  proof (cases "ev_severity old < ev_severity e")
    case True
    then show ?thesis using f v by (simp add: em_raise_def Let_def less_EventSeverity_def)
  next
    case False
    then have "em_active (snd (em_raise e em)) = (em_active em)[i := (em_active em ! i)\<lparr>ae_event := e\<rparr>]"
      using f v by (simp add: em_raise_def Let_def less_EventSeverity_def)
    with False keep show ?thesis by simp
  qed
  have y: "slot_key ?y = event_key e" "ae_used ?y" "slot_value ?y =
      (e, ack, if ev_severity old < ev_severity e then ev_timestamp e else emitted)"
    using i(2) v by (simp_all add: slot_key_def event_key_def slot_value_def)
  note w = write_found [OF inv k i(1) y(1) a]
  show "em_inv (snd (em_raise e em))" by (rule w(1))
  show "em_map (snd (em_raise e em)) = (em_map em)(event_key e \<mapsto>
      (e, ack, if ev_severity old < ev_severity e then ev_timestamp e else emitted))"
    using w(2) y by simp
qed

section \<open>The specification\<close>

text \<open>What the operations do to the map, capacity included.\<close>

type_synonym events = "event_key \<rightharpoonup> LightEvent \<times> bool \<times> u64"

definition spec_raise :: "LightEvent \<Rightarrow> u32 \<Rightarrow> events \<Rightarrow> EventTransition option \<times> u32 \<times> events" where
  "spec_raise e nextId m =
     (case m (event_key e) of
        Some (old, ack, emitted) \<Rightarrow>
          if ev_severity old < ev_severity e
          then (Some \<lparr>et_event = e, et_action = EaEscalated, et_acknowledged = ack\<rparr>, nextId,
                m(event_key e \<mapsto> (e, ack, ev_timestamp e)))
          else (None, nextId, m(event_key e \<mapsto> (e, ack, emitted)))
      | None \<Rightarrow>
          if card (dom m) = kEventCapacity then (None, nextId, m)
          else if ev_eventId e = 0
          then (let e' = e\<lparr>ev_eventId := nextId\<rparr> in
                (Some \<lparr>et_event = e', et_action = EaActivated, et_acknowledged = False\<rparr>, nextId + 1,
                 m(event_key e \<mapsto> (e', False, ev_timestamp e))))
          else (Some \<lparr>et_event = e, et_action = EaActivated, et_acknowledged = False\<rparr>, nextId,
                m(event_key e \<mapsto> (e, False, ev_timestamp e))))"

definition spec_clear :: "event_key \<Rightarrow> u64 \<Rightarrow> events \<Rightarrow> EventTransition option \<times> events" where
  "spec_clear k t m = (case m k of None \<Rightarrow> (None, m) | Some (e, ack, emitted) \<Rightarrow>
     (Some \<lparr>et_event = e\<lparr>ev_timestamp := t\<rparr>, et_action = EaCleared, et_acknowledged = ack\<rparr>,
      m(k := None)))"

definition spec_acknowledge :: "event_key \<Rightarrow> events \<Rightarrow> bool \<times> events" where
  "spec_acknowledge k m = (case m k of None \<Rightarrow> (False, m) | Some (e, ack, emitted) \<Rightarrow>
     (True, m(k \<mapsto> (e, True, emitted))))"

lemma raise_full:
  assumes "em_inv em" "em_map em (event_key e) = None" "em_activeCount em = kEventCapacity"
  shows "em_raise e em = (None, em)"
  using assms full_slots [OF assms(1)] em_find_None [of "event_key e" em]
  by (simp add: em_raise_def event_key_def)

lemma raise_nextId:
  "em_nextEventId (snd (em_raise e em)) =
     (if em_map em (event_key e) = None \<and> first_index (\<lambda>item. \<not> ae_used item) (em_active em) \<noteq> None \<and>
         ev_eventId e = 0
      then em_nextEventId em + 1 else em_nextEventId em)"
  by (auto simp: em_raise_def em_map_def event_key_def Let_def split: option.splits)

lemma raise_spec:
  assumes "em_inv em"
  shows "em_inv (snd (em_raise e em))"
    and "spec_raise e (em_nextEventId em) (em_map em) =
      (fst (em_raise e em), em_nextEventId (snd (em_raise e em)), em_map (snd (em_raise e em)))"
proof -
  have "em_inv (snd (em_raise e em)) \<and> spec_raise e (em_nextEventId em) (em_map em) =
      (fst (em_raise e em), em_nextEventId (snd (em_raise e em)), em_map (snd (em_raise e em)))"
  proof (cases "em_map em (event_key e)")
    case None
    show ?thesis
    proof (cases "em_activeCount em = kEventCapacity")
      case True
      then show ?thesis using None assms
        by (simp add: spec_raise_def raise_full activeCount_dom)
    next
      case False
      note r = raise_new [OF assms None False refl]
      from False None show ?thesis
        using r assms full_slots [OF assms]
        by (simp add: spec_raise_def activeCount_dom raise_nextId Let_def)
    qed
  next
    case (Some v)
    obtain old ack emitted where v: "v = (old, ack, emitted)" using prod_cases3 by blast
    note r = raise_known [OF assms Some [unfolded v]]
    show ?thesis using r Some v by (simp add: spec_raise_def raise_nextId)
  qed
  then show "em_inv (snd (em_raise e em))" "spec_raise e (em_nextEventId em) (em_map em) =
      (fst (em_raise e em), em_nextEventId (snd (em_raise e em)), em_map (snd (em_raise e em)))"
    by simp_all
qed

lemma clear_spec:
  assumes "em_inv em"
  shows "em_inv (snd (em_clear (fst k) (snd k) t em))"
    and "spec_clear k t (em_map em) =
      (fst (em_clear (fst k) (snd k) t em), em_map (snd (em_clear (fst k) (snd k) t em)))"
proof -
  have "em_inv (snd (em_clear (fst k) (snd k) t em)) \<and> spec_clear k t (em_map em) =
      (fst (em_clear (fst k) (snd k) t em), em_map (snd (em_clear (fst k) (snd k) t em)))"
  proof (cases "em_map em k")
    case None
    then show ?thesis using assms em_find_None [of k em] by (simp add: em_clear_def spec_clear_def)
  next
    case (Some v)
    obtain i where i: "em_find (fst k) (snd k) em = Some i" "i < length (em_active em)"
      "slot_key (em_active em ! i) = k" "slot_value (em_active em ! i) = v"
      using found_slot [OF assms Some] by metis
    let ?y = "(em_active em ! i)\<lparr>ae_event := (ae_event (em_active em ! i))\<lparr>ev_timestamp := t\<rparr>, ae_used := False\<rparr>"
    have a: "em_active (snd (em_clear (fst k) (snd k) t em)) = (em_active em)[i := ?y]"
      and e: "fst (em_clear (fst k) (snd k) t em) = Some \<lparr>et_event = (ae_event (em_active em ! i))\<lparr>ev_timestamp := t\<rparr>,
        et_action = EaCleared, et_acknowledged = ae_acknowledged (em_active em ! i)\<rparr>"
      using i(1) by (simp_all add: em_clear_def Let_def)
    have "slot_key ?y = k" using i(3) by (auto simp: slot_key_def)
    from write_found [OF assms Some i(1) this a] e Some i(4) [symmetric] show ?thesis
      by (simp add: spec_clear_def slot_value_def)
  qed
  then show "em_inv (snd (em_clear (fst k) (snd k) t em))" "spec_clear k t (em_map em) =
      (fst (em_clear (fst k) (snd k) t em), em_map (snd (em_clear (fst k) (snd k) t em)))"
    by simp_all
qed

lemma acknowledge_spec:
  assumes "em_inv em"
  shows "em_inv (snd (em_acknowledge (fst k) (snd k) em))"
    and "spec_acknowledge k (em_map em) =
      (fst (em_acknowledge (fst k) (snd k) em), em_map (snd (em_acknowledge (fst k) (snd k) em)))"
proof -
  have "em_inv (snd (em_acknowledge (fst k) (snd k) em)) \<and> spec_acknowledge k (em_map em) =
      (fst (em_acknowledge (fst k) (snd k) em), em_map (snd (em_acknowledge (fst k) (snd k) em)))"
  proof (cases "em_map em k")
    case None
    then show ?thesis using assms em_find_None [of k em]
      by (simp add: em_acknowledge_def spec_acknowledge_def)
  next
    case (Some v)
    obtain i where i: "em_find (fst k) (snd k) em = Some i" "i < length (em_active em)"
      "ae_used (em_active em ! i)" "slot_key (em_active em ! i) = k" "slot_value (em_active em ! i) = v"
      using found_slot [OF assms Some] by metis
    let ?y = "(em_active em ! i)\<lparr>ae_acknowledged := True\<rparr>"
    have a: "em_active (snd (em_acknowledge (fst k) (snd k) em)) = (em_active em)[i := ?y]"
      and e: "fst (em_acknowledge (fst k) (snd k) em)"
      using i(1) by (simp_all add: em_acknowledge_def)
    have "slot_key ?y = k" using i(4) by (auto simp: slot_key_def)
    from write_found [OF assms Some i(1) this a] e Some i(3) i(5) [symmetric] show ?thesis
      by (simp add: spec_acknowledge_def slot_value_def)
  qed
  then show "em_inv (snd (em_acknowledge (fst k) (snd k) em))" "spec_acknowledge k (em_map em) =
      (fst (em_acknowledge (fst k) (snd k) em), em_map (snd (em_acknowledge (fst k) (snd k) em)))"
    by simp_all
qed

subsection \<open>Reminders\<close>

definition due_keys :: "u64 \<Rightarrow> u64 \<Rightarrow> events \<Rightarrow> event_key set" where
  "due_keys t interval m = {k. \<exists>e ack emitted. m k = Some (e, ack, emitted) \<and> emitted \<le> t \<and> interval \<le> t - emitted}"

lemma due_keys_iff:
  "k \<in> due_keys t interval m \<longleftrightarrow>
    (case m k of None \<Rightarrow> False | Some (e, ack, emitted) \<Rightarrow> emitted \<le> t \<and> interval \<le> t - emitted)"
  by (auto simp: due_keys_def split: option.splits)

lemma reminder_due_iff:
  assumes "em_inv em" "i < length (em_active em)" "ae_used (em_active em ! i)"
  shows "reminder_due t interval (em_active em ! i) \<longleftrightarrow>
    slot_key (em_active em ! i) \<in> due_keys t interval (em_map em)"
proof -
  have u: "unique_keys (em_active em)" using assms(1) by (simp add: em_inv_def)
  have "em_map em (slot_key (em_active em ! i)) = Some (slot_value (em_active em ! i))"
    using em_map_iff [OF u] assms by blast
  then show ?thesis
    using assms(3) by (auto simp: due_keys_iff slot_value_def reminder_due_def)
qed

lemma due_keys_slots:
  assumes "em_inv em"
  shows "due_keys t interval (em_map em) = (\<lambda>i. slot_key (em_active em ! i)) `
    {i. i < length (em_active em) \<and> reminder_due t interval (em_active em ! i)}"
proof (rule set_eqI)
  fix k
  have u: "unique_keys (em_active em)" using assms by (simp add: em_inv_def)
  show "k \<in> due_keys t interval (em_map em) \<longleftrightarrow> k \<in> (\<lambda>i. slot_key (em_active em ! i)) `
      {i. i < length (em_active em) \<and> reminder_due t interval (em_active em ! i)}"
  proof
    assume k: "k \<in> due_keys t interval (em_map em)"
    then obtain v where "em_map em k = Some v" by (auto simp: due_keys_def)
    from found_slot [OF assms this] obtain i where "i < length (em_active em)"
      "ae_used (em_active em ! i)" "slot_key (em_active em ! i) = k" by metis
    with k show "k \<in> (\<lambda>i. slot_key (em_active em ! i)) `
        {i. i < length (em_active em) \<and> reminder_due t interval (em_active em ! i)}"
      using reminder_due_iff [OF assms] by blast
  next
    assume "k \<in> (\<lambda>i. slot_key (em_active em ! i)) `
      {i. i < length (em_active em) \<and> reminder_due t interval (em_active em ! i)}"
    then obtain i where "i < length (em_active em)" "reminder_due t interval (em_active em ! i)"
      "slot_key (em_active em ! i) = k" by blast
    then show "k \<in> due_keys t interval (em_map em)"
      using reminder_due_iff [OF assms, of i t interval] by (simp add: reminder_due_def)
  qed
qed

lemma card_due:
  assumes "em_inv em"
  shows "card (due_keys t interval (em_map em)) = length (filter (reminder_due t interval) (em_active em))"
  unfolding due_keys_slots [OF assms]
  by (rule card_slot_keys) (use assms in \<open>simp_all add: em_inv_def reminder_due_def\<close>)

lemma reminder_idle:
  assumes "em_inv em" "due_keys t interval (em_map em) = {}"
  shows "em_reminder t interval em = (None, em)"
proof -
  have "filter (reminder_due t interval) (em_active em) = []"
    using card_due [OF assms(1), of t interval] assms(2) by simp
  then have "first_index (reminder_due t interval) (em_active em) = None"
    by (simp add: first_index_None filter_empty_conv)
  then show ?thesis by (simp add: em_reminder_def)
qed

lemma reminder_emits:
  assumes inv: "em_inv em" and due: "due_keys t interval (em_map em) \<noteq> {}"
  obtains k e ack emitted where "k \<in> due_keys t interval (em_map em)"
    "em_map em k = Some (e, ack, emitted)" "event_key e = k"
    "fst (em_reminder t interval em) =
      Some \<lparr>et_event = e\<lparr>ev_timestamp := t\<rparr>, et_action = EaReminder, et_acknowledged = ack\<rparr>"
    "em_inv (snd (em_reminder t interval em))"
    "em_map (snd (em_reminder t interval em)) = (em_map em)(k \<mapsto> (e\<lparr>ev_timestamp := t\<rparr>, ack, t))"
proof -
  have u: "unique_keys (em_active em)" using inv by (simp add: em_inv_def)
  obtain k v where "k \<in> due_keys t interval (em_map em)" "em_map em k = Some v"
    using due by (auto simp: due_keys_def)
  then obtain j where j: "j < length (em_active em)" "reminder_due t interval (em_active em ! j)"
    using found_slot [OF inv, of k v] reminder_due_iff [OF inv, of _ t interval] by metis
  then obtain i where i: "first_index (reminder_due t interval) (em_active em) = Some i"
    using first_index_None by (metis option.exhaust)
  let ?x = "em_active em ! i"
  have x: "i < length (em_active em)" "reminder_due t interval ?x" using first_index_Some [OF i] by simp_all
  then have used: "ae_used ?x" by (simp add: reminder_due_def)
  let ?k = "slot_key ?x"
  have m: "em_map em ?k = Some (ae_event ?x, ae_acknowledged ?x, ae_lastEmitted ?x)"
    using em_map_iff [OF u] x(1) used by (auto simp: slot_value_def)
  have f: "em_find (fst ?k) (snd ?k) em = Some i" using em_find_iff [OF u] x(1) used by simp
  let ?y = "?x\<lparr>ae_lastEmitted := t, ae_event := (ae_event ?x)\<lparr>ev_timestamp := t\<rparr>\<rparr>"
  have r: "fst (em_reminder t interval em) = Some \<lparr>et_event = (ae_event ?x)\<lparr>ev_timestamp := t\<rparr>,
      et_action = EaReminder, et_acknowledged = ae_acknowledged ?x\<rparr>"
    "em_active (snd (em_reminder t interval em)) = (em_active em)[i := ?y]"
    using i by (simp_all add: em_reminder_def Let_def)
  have y: "slot_key ?y = ?k" "ae_used ?y" "slot_value ?y =
      ((ae_event ?x)\<lparr>ev_timestamp := t\<rparr>, ae_acknowledged ?x, t)"
    using used by (simp_all add: slot_key_def slot_value_def)
  note w = write_found [OF inv m f y(1) r(2)]
  show thesis
  proof (rule that)
    show "?k \<in> due_keys t interval (em_map em)"
      using reminder_due_iff [OF inv x(1) used] x(2) by simp
    show "event_key (ae_event ?x) = ?k" by (simp add: event_key_def slot_key_def)
  qed (use m r(1) w y in simp_all)
qed

text \<open>A reminder takes one key out of the due ones.\<close>

lemma reminder_spends:
  assumes "0 < interval"
  shows "due_keys t interval (m(k \<mapsto> (e, ack, t))) = due_keys t interval m - {k}"
proof (rule set_eqI)
  fix k' show "k' \<in> due_keys t interval (m(k \<mapsto> (e, ack, t))) \<longleftrightarrow> k' \<in> due_keys t interval m - {k}"
    using assms by (auto simp: due_keys_iff word_gt_0)
qed

lemma finite_due: "em_inv em \<Longrightarrow> finite (due_keys t interval (em_map em))"
  by (rule finite_subset [OF _ activeCount_dom(1)]) (auto simp: due_keys_def)

text \<open>The transitions of \<open>n\<close> calls of \<open>reminder\<close> in one round.\<close>

fun run_reminders ::
  "nat \<Rightarrow> u64 \<Rightarrow> u64 \<Rightarrow> EventManager \<Rightarrow> EventTransition option list \<times> EventManager"
where
  "run_reminders 0 t interval em = ([], em)"
| "run_reminders (Suc n) t interval em =
     (let (r, em) = em_reminder t interval em;
          (rs, em) = run_reminders n t interval em
      in (r # rs, em))"

lemma reminders_drain_aux:
  assumes "em_inv em" "0 < interval" "card (due_keys t interval (em_map em)) = n"
  shows "\<exists>ts em'. run_reminders n t interval em = (map Some ts, em') \<and> em_inv em' \<and>
    set (map (\<lambda>x. event_key (et_event x)) ts) = due_keys t interval (em_map em) \<and>
    distinct (map (\<lambda>x. event_key (et_event x)) ts) \<and> (\<forall>x \<in> set ts. et_action x = EaReminder) \<and>
    due_keys t interval (em_map em') = {}"
  using assms
proof (induction n arbitrary: em)
  case 0
  then have "due_keys t interval (em_map em) = {}" using finite_due by simp
  then show ?case using 0 by simp
next
  case (Suc n)
  then have "due_keys t interval (em_map em) \<noteq> {}" by auto
  from reminder_emits [OF Suc.prems(1) this] obtain k e ack emitted where
    k: "k \<in> due_keys t interval (em_map em)" "em_map em k = Some (e, ack, emitted)" "event_key e = k"
    and r: "fst (em_reminder t interval em) =
      Some \<lparr>et_event = e\<lparr>ev_timestamp := t\<rparr>, et_action = EaReminder, et_acknowledged = ack\<rparr>"
    and inv': "em_inv (snd (em_reminder t interval em))"
    and m: "em_map (snd (em_reminder t interval em)) = (em_map em)(k \<mapsto> (e\<lparr>ev_timestamp := t\<rparr>, ack, t))"
    by metis
  have d: "due_keys t interval (em_map (snd (em_reminder t interval em))) =
      due_keys t interval (em_map em) - {k}"
    unfolding m by (rule reminder_spends [OF Suc.prems(2)])
  then have "card (due_keys t interval (em_map (snd (em_reminder t interval em)))) = n"
    using k(1) Suc.prems finite_due [OF Suc.prems(1)] by simp
  from Suc.IH [OF inv' Suc.prems(2) this] obtain ts em' where
    ts: "run_reminders n t interval (snd (em_reminder t interval em)) = (map Some ts, em')" "em_inv em'"
      "set (map (\<lambda>x. event_key (et_event x)) ts) = due_keys t interval (em_map em) - {k}"
      "distinct (map (\<lambda>x. event_key (et_event x)) ts)" "\<forall>x \<in> set ts. et_action x = EaReminder"
      "due_keys t interval (em_map em') = {}"
    unfolding d by blast
  let ?x = "\<lparr>et_event = e\<lparr>ev_timestamp := t\<rparr>, et_action = EaReminder, et_acknowledged = ack\<rparr>"
  have key: "event_key (et_event ?x) = k" using k(3) by (simp add: event_key_def)
  have run: "run_reminders (Suc n) t interval em = (map Some (?x # ts), em')"
    using r ts(1) by (simp add: case_prod_beta Let_def)
  have "set (map (\<lambda>x. event_key (et_event x)) (?x # ts)) = due_keys t interval (em_map em)"
    using ts(3) key k(1) by auto
  moreover have "k \<notin> set (map (\<lambda>x. event_key (et_event x)) ts)" unfolding ts(3) by blast
  then have "distinct (map (\<lambda>x. event_key (et_event x)) (?x # ts))"
    using ts(4) unfolding list.map(2) distinct.simps(2) key by blast
  moreover have "\<forall>x \<in> set (?x # ts). et_action x = EaReminder" using ts(5) by simp
  ultimately show ?case using run ts(2,6)
    by (intro exI [of _ "?x # ts"] exI [of _ em'] conjI) assumption+
qed

section \<open>The interface of an event store\<close>

text \<open>The number of steps up in a sequence of severities.\<close>

fun ascents :: "EventSeverity list \<Rightarrow> nat" where
  "ascents (x # y # zs) = (if x < y then 1 else 0) + ascents (y # zs)"
| "ascents _ = 0"

fun run_raises ::
  "(LightEvent \<Rightarrow> 's \<Rightarrow> EventTransition option \<times> 's) \<Rightarrow> LightEvent list \<Rightarrow> 's \<Rightarrow> EventTransition option list \<times> 's"
where
  "run_raises raises [] s = ([], s)"
| "run_raises raises (e # es) s =
     (let (r, s) = raises e s; (rs, s) = run_raises raises es s in (r # rs, s))"

text \<open>
  A store of active events: what it holds, what raising a key it holds does, and what raising
  a key it does not hold does while there is room.
\<close>

locale event_store =
  fixes raises :: "LightEvent \<Rightarrow> 's \<Rightarrow> EventTransition option \<times> 's"
    and held :: "'s \<Rightarrow> event_key \<Rightarrow> LightEvent option"
    and ok :: "'s \<Rightarrow> bool"
    and room :: "'s \<Rightarrow> bool"
  assumes raise_ok: "ok s \<Longrightarrow> ok (snd (raises e s))"
    and raise_held: "ok s \<Longrightarrow> held s (event_key e) = Some old \<Longrightarrow>
      (fst (raises e s) \<noteq> None \<longleftrightarrow> ev_severity old < ev_severity e) \<and>
      held (snd (raises e s)) (event_key e) = Some e"
    and raise_fresh: "ok s \<Longrightarrow> held s (event_key e) = None \<Longrightarrow> room s \<Longrightarrow>
      fst (raises e s) \<noteq> None \<and>
      (\<exists>e'. held (snd (raises e s)) (event_key e) = Some e' \<and> ev_severity e' = ev_severity e)"
begin

lemma reraised:
  assumes "ok s" "held s k = Some old" "\<forall>e \<in> set es. event_key e = k"
  shows "length (filter (\<lambda>r. r \<noteq> None) (fst (run_raises raises es s))) =
    ascents (ev_severity old # map ev_severity es)"
  using assms
proof (induction es arbitrary: s old)
  case (Cons e es)
  then have k: "event_key e = k" by simp
  note h = raise_held [OF Cons.prems(1), of e old, unfolded k, OF Cons.prems(2)]
  have "length (filter (\<lambda>r. r \<noteq> None) (fst (run_raises raises es (snd (raises e s))))) =
      ascents (ev_severity e # map ev_severity es)"
    using Cons.IH [OF raise_ok [OF Cons.prems(1)], of e e] h Cons.prems(3) by simp
  then show ?case using h by (simp add: case_prod_beta Let_def)
qed simp

lemma raised_afresh:
  assumes "ok s" "held s k = None" "room s" "event_key e = k" "\<forall>e \<in> set es. event_key e = k"
  shows "length (filter (\<lambda>r. r \<noteq> None) (fst (run_raises raises (e # es) s))) =
    1 + ascents (map ev_severity (e # es))"
proof -
  obtain e' where e': "held (snd (raises e s)) k = Some e'" "ev_severity e' = ev_severity e" "fst (raises e s) \<noteq> None"
    using raise_fresh [OF assms(1), of e] assms by auto
  show ?thesis using reraised [OF raise_ok [OF assms(1)] e'(1) assms(5)] e'(2,3)
    by (simp add: case_prod_beta Let_def)
qed

end

definition em_held :: "EventManager \<Rightarrow> event_key \<Rightarrow> LightEvent option" where
  "em_held em k = map_option fst (em_map em k)"

definition em_room :: "EventManager \<Rightarrow> bool" where
  "em_room em \<longleftrightarrow> em_activeCount em \<noteq> kEventCapacity"

interpretation active_events: event_store em_raise em_held em_inv em_room
proof
  fix e em old assume inv: "em_inv em"
  show "em_inv (snd (em_raise e em))" by (rule raise_spec(1) [OF inv])
  show "(fst (em_raise e em) \<noteq> None \<longleftrightarrow> ev_severity old < ev_severity e) \<and>
      em_held (snd (em_raise e em)) (event_key e) = Some e" if known: "em_held em (event_key e) = Some old"
  proof -
    obtain v where "em_map em (event_key e) = Some v" "fst v = old"
      using known unfolding em_held_def map_option_eq_Some by blast
    then have "em_map em (event_key e) = Some (old, fst (snd v), snd (snd v))" by auto
    from raise_known [OF inv this] show ?thesis by (simp add: em_held_def)
  qed
  show "fst (em_raise e em) \<noteq> None \<and> (\<exists>e'. em_held (snd (em_raise e em)) (event_key e) = Some e' \<and>
      ev_severity e' = ev_severity e)" if "em_held em (event_key e) = None" "em_room em"
    using raise_new [OF inv _ _ refl, of e] that by (simp add: em_held_def em_room_def)
qed

section \<open>Properties\<close>

text \<open>
  C24: the 128 slots implement the map of active events. Raising, clearing and acknowledging
  commute with the abstraction: an event whose (address, type) is unknown is activated and
  given the next id when it has none, unless all 128 slots are in use, in which case it is
  dropped; a known one is replaced and reported only when the new severity is higher, the
  acknowledgement kept; clearing reports and removes it; acknowledging marks it. The number of
  active events is the number of keys, the next id follows, and no key is ever stored twice.
\<close>

theorem event_slots_refine_map:
  assumes "em_inv em"
  shows "em_inv EventManager_init \<and> em_map EventManager_init = (\<lambda>k. None) \<and>
    em_activeCount em = card (dom (em_map em)) \<and>
    em_inv (snd (em_raise e em)) \<and> em_inv (snd (em_clear a ty t em)) \<and>
    em_inv (snd (em_acknowledge a ty em)) \<and>
    spec_raise e (em_nextEventId em) (em_map em) =
      (fst (em_raise e em), em_nextEventId (snd (em_raise e em)), em_map (snd (em_raise e em))) \<and>
    spec_clear (a, ty) t (em_map em) =
      (fst (em_clear a ty t em), em_map (snd (em_clear a ty t em))) \<and>
    spec_acknowledge (a, ty) (em_map em) =
      (fst (em_acknowledge a ty em), em_map (snd (em_acknowledge a ty em)))"
  using raise_spec [OF assms, of e] clear_spec [OF assms, of "(a, ty)" t]
    acknowledge_spec [OF assms, of "(a, ty)"] activeCount_dom(2) [OF assms]
  by (simp add: em_init_inv fun_eq_iff)

lemma event_slots_refine_map_witness:
  "em_inv (snd (em_raise LightEvent_init EventManager_init))"
  using event_slots_refine_map [OF em_init_inv, of LightEvent_init 0 LtCommunicationFailure 0] by simp

text \<open>
  Raising one key again and again reports its activation and then exactly the steps up
  in severity: a repetition at the same or a lower severity is silent. A lower severity still
  replaces the stored one, so each later step up is reported again.
\<close>

theorem raises_report_ascents:
  assumes "em_inv em" "em_map em (event_key e) = None" "em_activeCount em < kEventCapacity"
    and "\<forall>e' \<in> set es. event_key e' = event_key e"
  shows "length (filter (\<lambda>r. r \<noteq> None) (fst (run_raises em_raise (e # es) em))) =
    1 + ascents (map ev_severity (e # es))"
  using active_events.raised_afresh [OF assms(1) _ _ refl assms(4)] assms(2,3)
  by (simp add: em_held_def em_room_def)

lemma raises_report_ascents_witness:
  "length (filter (\<lambda>r. r \<noteq> None) (fst (run_raises em_raise
     (LightEvent_init # [LightEvent_init\<lparr>ev_severity := SevCritical\<rparr>, LightEvent_init,
        LightEvent_init\<lparr>ev_severity := SevWarning\<rparr>, LightEvent_init\<lparr>ev_severity := SevWarning\<rparr>]) EventManager_init))) = 3"
proof -
  have "em_activeCount EventManager_init < kEventCapacity" by code_simp
  then show ?thesis
    using raises_report_ascents [OF em_init_inv, of LightEvent_init
      "[LightEvent_init\<lparr>ev_severity := SevCritical\<rparr>, LightEvent_init,
        LightEvent_init\<lparr>ev_severity := SevWarning\<rparr>, LightEvent_init\<lparr>ev_severity := SevWarning\<rparr>]"]
    by (simp add: event_key_def LightEvent_init_def less_EventSeverity_def word_less_nat_alt)
qed

text \<open>
  C25: a round of reminders ends and misses nobody. With a positive interval, the calls of
  \<open>reminder\<close> at one time report each active event whose last report is at least the
  interval old exactly once, as many calls as there are such events, and the next call reports
  nothing.
\<close>

theorem reminders_drain:
  assumes "em_inv em" "0 < interval"
  shows "\<exists>ts em'. run_reminders (length (filter (reminder_due t interval) (em_active em))) t interval em
      = (map Some ts, em') \<and>
    set (map (\<lambda>x. event_key (et_event x)) ts) = due_keys t interval (em_map em) \<and>
    distinct (map (\<lambda>x. event_key (et_event x)) ts) \<and> (\<forall>x \<in> set ts. et_action x = EaReminder) \<and>
    em_reminder t interval em' = (None, em')"
proof -
  obtain ts em' where "run_reminders (length (filter (reminder_due t interval) (em_active em))) t interval em
      = (map Some ts, em')" "em_inv em'"
    "set (map (\<lambda>x. event_key (et_event x)) ts) = due_keys t interval (em_map em)"
    "distinct (map (\<lambda>x. event_key (et_event x)) ts)" "\<forall>x \<in> set ts. et_action x = EaReminder"
    "due_keys t interval (em_map em') = {}"
    using reminders_drain_aux [OF assms card_due [OF assms(1)]] by blast
  with reminder_idle [OF \<open>em_inv em'\<close>] show ?thesis by blast
qed

lemma reminders_drain_witness:
  "\<exists>ts em'. run_reminders (length (filter (reminder_due 5 1)
       (em_active (snd (em_raise LightEvent_init EventManager_init))))) 5 1
      (snd (em_raise LightEvent_init EventManager_init)) = (map Some ts, em') \<and>
    em_reminder 5 1 em' = (None, em')"
  using reminders_drain [OF raise_spec(1) [OF em_init_inv], of 1 5 LightEvent_init] by auto

text \<open>
  Clearing reports the event as it was last raised, id included. Raising a known event
  stores the new one without giving it an id, so an event raised twice by a caller that leaves
  the id to the manager is cleared with id 0, not the id its activation was reported with.
\<close>

theorem repeated_raise_forgets_id:
  assumes "em_inv em" "em_map em (event_key e) = None" "em_activeCount em < kEventCapacity"
    and "ev_eventId e = 0" "em_nextEventId em \<noteq> 0"
  shows "map_option (ev_eventId \<circ> et_event) (fst (em_raise e em)) = Some (em_nextEventId em) \<and>
    map_option (ev_eventId \<circ> et_event) (fst (em_clear (ev_shortAddress e) (ev_type e) t
      (snd (em_raise e em)))) = Some (em_nextEventId em) \<and>
    map_option (ev_eventId \<circ> et_event) (fst (em_clear (ev_shortAddress e) (ev_type e) t
      (snd (em_raise e (snd (em_raise e em)))))) = Some 0"
proof -
  note r = raise_new [OF assms(1,2) _ refl]
  have ne: "em_activeCount em \<noteq> kEventCapacity" using assms(3) by simp
  have 1: "em_map (snd (em_raise e em)) (event_key e) =
      Some (e\<lparr>ev_eventId := em_nextEventId em\<rparr>, False, ev_timestamp e)"
    using r(3) [OF ne] assms(4) by simp
  note r2 = raise_known [OF r(2) [OF ne] 1]
  have 2: "em_map (snd (em_raise e (snd (em_raise e em)))) (event_key e) = Some (e, False, ev_timestamp e)"
    using r2(3) by simp
  have c: "fst (em_clear (ev_shortAddress e) (ev_type e) t em') =
      Some \<lparr>et_event = x\<lparr>ev_timestamp := t\<rparr>, et_action = EaCleared, et_acknowledged = ack\<rparr>"
    if "em_inv em'" "em_map em' (event_key e) = Some (x, ack, l)" for em' x ack l
    using clear_spec(2) [OF that(1), of "event_key e" t] that(2)
    by (simp add: spec_clear_def event_key_def)
  show ?thesis
    using r(1) [OF ne] assms(4) c [OF r(2) [OF ne] 1] c [OF r2(2) 2] by simp
qed

lemma repeated_raise_forgets_id_witness:
  "map_option (ev_eventId \<circ> et_event) (fst (em_clear 0 LeHealthScoreChanged 9
      (snd (em_raise LightEvent_init (snd (em_raise LightEvent_init EventManager_init)))))) = Some 0"
proof -
  have "em_activeCount EventManager_init < kEventCapacity" "em_nextEventId EventManager_init \<noteq> 0"
    by code_simp+
  then show ?thesis
    using repeated_raise_forgets_id [OF em_init_inv, of LightEvent_init 9] by (simp add: LightEvent_init_def)
qed

end
