(* ===== verification/Crc16.thy ===== *)
theory Crc16
  imports Dali_Prelude
begin

text \<open>
  The CRC-16 (reflected polynomial 0xA001, initial value 0xFFFF) that \<open>c6_interface.cpp\<close> and
  \<open>local_storage.cpp\<close> both compute bit by bit, and why it tells byte sequences apart that
  differ in one byte: each step is a bijection of the 16-bit register.
\<close>

section \<open>The checksum\<close>

definition crc_shift :: "u16 \<Rightarrow> u16" where
  "crc_shift crc = (if crc AND 1 \<noteq> 0 then drop_bit 1 crc XOR 0xA001 else drop_bit 1 crc)"

definition crc_byte :: "u8 \<Rightarrow> u16 \<Rightarrow> u16" where
  "crc_byte b crc = (crc_shift ^^ 8) (crc XOR ucast b)"

definition crc16 :: "u8 list \<Rightarrow> u16" where
  "crc16 bytes = fold crc_byte bytes 0xFFFF"

section \<open>Bijective steps\<close>

lemma crc_shift_inj: "crc_shift c = crc_shift d \<longleftrightarrow> c = d"
proof
  assume eq: "crc_shift c = crc_shift d"
  have b: "bit (crc_shift x) n = (bit x (Suc n) \<noteq> (bit x 0 \<and> bit (0xA001 :: u16) n))" if "n < 16" for x n
    using that by (auto simp: crc_shift_def bit_simps and_one_eq mod_2_eq_odd bit_0)
  have top: "\<not> bit x (Suc 15)" for x :: u16
    using bit_imp_le_length [of x "Suc 15"] by fastforce
  have "bit (0xA001 :: u16) 15" by code_simp
  note top = top this
  show "c = d"
  proof (rule bit_word_eqI)
    fix n assume n: "n < LENGTH(16)"
    have low: "bit c 0 = bit d 0"
      using b [of 15 c] b [of 15 d] eq top by simp
    show "bit c n = bit d n"
    proof (cases n)
      case (Suc m)
      then show ?thesis using b [of m c] b [of m d] eq low n by auto
    qed (use low in simp)
  qed
qed simp

lemma crc_byte_inj: "crc_byte a c = crc_byte b d \<longleftrightarrow> c XOR ucast a = d XOR ucast b"
proof -
  have "(crc_shift ^^ n) c = (crc_shift ^^ n) d \<longleftrightarrow> c = d" for n c d
    by (induction n) (simp_all add: crc_shift_inj)
  then show ?thesis unfolding crc_byte_def .
qed

lemma xor_right_inj: "(c :: 'a::len word) XOR x = d XOR x \<longleftrightarrow> c = d"
  by (metis xor.assoc xor.right_neutral xor_self_eq)

lemma fold_crc_inj: "fold crc_byte bs c = fold crc_byte bs d \<longleftrightarrow> c = d"
  by (induction bs arbitrary: c d) (simp_all add: crc_byte_inj xor_right_inj)

text \<open>The checksum tells two byte sequences apart that differ in one byte.\<close>

lemma crc16_one_byte:
  assumes "a \<noteq> b"
  shows "crc16 (xs @ a # ys) \<noteq> crc16 (xs @ b # ys)"
proof
  assume "crc16 (xs @ a # ys) = crc16 (xs @ b # ys)"
  then have "(ucast a :: u16) = ucast b"
    by (simp add: crc16_def fold_crc_inj crc_byte_inj xor_right_inj xor.commute [of _ "ucast _"])
  then have bits: "bit (ucast a :: u16) n = bit (ucast b :: u16) n" for n by simp
  have "bit a n = bit b n" if "n < 8" for n using bits [of n] that by (simp add: bit_simps)
  then have "a = b" by (intro bit_word_eqI) simp
  with assms show False ..
qed

lemma crc16_update:
  assumes "i < length xs" "xs ! i \<noteq> b"
  shows "crc16 (xs[i := b]) \<noteq> crc16 xs"
  using crc16_one_byte [of b "xs ! i" "take i xs" "drop (Suc i) xs"] assms
  by (simp add: upd_conv_take_nth_drop id_take_nth_drop [symmetric])

end
