(* ===== verification/C6_Interface.thy ===== *)
theory C6_Interface
  imports Crc16
begin

text \<open>
  The link to the C6 co-processor, \<open>c6_interface.h/.cpp\<close>: binary frames closed by a CRC-16,
  the transport as a record of its virtual method with its contract as a locale, the mock
  transport, and the session that numbers frames and waits for acknowledgements. A pointer with
  a length is an optional list, the bytes it points at (\<open>None\<close> is \<open>nullptr\<close>), with the length
  argument beside it.
\<close>

section \<open>Data\<close>

text \<open>
  The enumeration has a fixed underlying type, so a cast from any byte is a value of it: a
  wrapped byte with names for the enumerators.
\<close>

datatype MessageType = MessageType (message_code: u8)

definition MtLightEvent :: MessageType where "MtLightEvent = MessageType 1"
definition MtLightStatusResponse :: MessageType where "MtLightStatusResponse = MessageType 2"
definition MtLightSummary :: MessageType where "MtLightSummary = MessageType 3"
definition MtDaliBusEvent :: MessageType where "MtDaliBusEvent = MessageType 4"
definition MtDeviceDiscoveryEvent :: MessageType where "MtDeviceDiscoveryEvent = MessageType 5"
definition MtCommandAck :: MessageType where "MtCommandAck = MessageType 6"
definition MtCommandNack :: MessageType where "MtCommandNack = MessageType 7"
definition MtHeartbeat :: MessageType where "MtHeartbeat = MessageType 8"

definition kMaximumPayload :: nat where "kMaximumPayload = 240"

record C6Frame =
  cf_version :: u8
  cf_type :: MessageType
  cf_sequence :: u16
  cf_payload :: "u8 list"
  cf_payloadLength :: u16

definition C6Frame_init :: C6Frame where
  "C6Frame_init = \<lparr>cf_version = 1, cf_type = MtHeartbeat, cf_sequence = 0,
     cf_payload = replicate kMaximumPayload 0, cf_payloadLength = 0\<rparr>"

definition kStart :: u8 where "kStart = 0x7E"
definition kEnd :: u8 where "kEnd = 0x7F"
definition kMaximumEncodedSize :: nat where "kMaximumEncodedSize = 250"

section \<open>The codec\<close>

text \<open>\<open>memcpy\<close> to an offset of an array.\<close>

definition copy_at :: "nat \<Rightarrow> u8 list \<Rightarrow> u8 list \<Rightarrow> u8 list" where
  "copy_at off src dst = take off dst @ src @ drop (off + length src) dst"

text \<open>The low and the high byte of a halfword, and the halfword of two bytes.\<close>

definition lo_byte :: "u16 \<Rightarrow> u8" where "lo_byte w = ucast (w AND 0xFF)"
definition hi_byte :: "u16 \<Rightarrow> u8" where "hi_byte w = ucast (drop_bit 8 w)"
definition half_word :: "u8 \<Rightarrow> u8 \<Rightarrow> u16" where
  "half_word lo hi = ucast ((ucast lo :: u32) OR push_bit 8 (ucast hi))"

definition encode :: "C6Frame \<Rightarrow> u8 list \<Rightarrow> nat \<Rightarrow> bool \<times> u8 list \<times> nat" where
  "encode frame output outputLength =
     (let n = unat (cf_payloadLength frame) in
      if n > kMaximumPayload then (False, output, outputLength)
      else if 10 + n > length output then (False, output, outputLength)
      else
        let output = output[0 := kStart, 1 := cf_version frame, 2 := message_code (cf_type frame),
              3 := lo_byte (cf_sequence frame), 4 := hi_byte (cf_sequence frame),
              5 := lo_byte (cf_payloadLength frame), 6 := hi_byte (cf_payloadLength frame)];
            output = copy_at 7 (take n (cf_payload frame)) output;
            checksum = crc16 (take (6 + n) (drop 1 output));
            crcOffset = 7 + n;
            output = output[crcOffset := lo_byte checksum, crcOffset + 1 := hi_byte checksum,
              crcOffset + 2 := kEnd]
        in (True, output, crcOffset + 3))"

definition decode :: "u8 list option \<Rightarrow> nat \<Rightarrow> C6Frame \<Rightarrow> bool \<times> C6Frame" where
  "decode pointer n frame =
     (case pointer of
        None \<Rightarrow> (False, frame)
      | Some bytes \<Rightarrow>
          if n < 10 \<or> bytes ! 0 \<noteq> kStart \<or> bytes ! (n - 1) \<noteq> kEnd then (False, frame)
          else
            let payloadLength = half_word (bytes ! 5) (bytes ! 6) in
            if unat payloadLength > kMaximumPayload \<or> n \<noteq> unat payloadLength + 10 then (False, frame)
            else
              let crcOffset = 7 + unat payloadLength;
                  expected = half_word (bytes ! crcOffset) (bytes ! (crcOffset + 1)) in
              if expected \<noteq> crc16 (take (6 + unat payloadLength) (drop 1 bytes)) then (False, frame)
              else (True, frame\<lparr>cf_version := bytes ! 1, cf_type := MessageType (bytes ! 2),
                     cf_sequence := half_word (bytes ! 3) (bytes ! 4),
                     cf_payloadLength := payloadLength,
                     cf_payload := copy_at 0 (take (unat payloadLength) (drop 7 bytes)) (cf_payload frame)\<rparr>))"

section \<open>The transport\<close>

record 't IC6Transport =
  c6_send :: "u8 list option \<Rightarrow> nat \<Rightarrow> 't \<Rightarrow> bool \<times> 't"

record MockC6Transport =
  mt_lastFrame :: "u8 list"
  mt_lastLength :: nat
  mt_sentCount :: u32

definition MockC6Transport_init :: MockC6Transport where
  "MockC6Transport_init = \<lparr>mt_lastFrame = replicate kMaximumEncodedSize 0, mt_lastLength = 0,
     mt_sentCount = 0\<rparr>"

definition sentCount :: "MockC6Transport \<Rightarrow> u32" where
  [simp]: "sentCount t = mt_sentCount t"

definition lastLength :: "MockC6Transport \<Rightarrow> nat" where
  [simp]: "lastLength t = mt_lastLength t"

definition mock_send :: "u8 list option \<Rightarrow> nat \<Rightarrow> MockC6Transport \<Rightarrow> bool \<times> MockC6Transport" where
  "mock_send pointer n t =
     (case pointer of
        None \<Rightarrow> (False, t)
      | Some bytes \<Rightarrow>
          if n > length (mt_lastFrame t) then (False, t)
          else (True, t\<lparr>mt_lastFrame := copy_at 0 (take n bytes) (mt_lastFrame t), mt_lastLength := n,
                 mt_sentCount := mt_sentCount t + 1\<rparr>))"

definition mock_transport :: "MockC6Transport IC6Transport" where
  "mock_transport = \<lparr>c6_send = mock_send\<rparr>"

section \<open>The session\<close>

record 't C6Session =
  cs_transport :: 't
  cs_maximumRetries :: u8
  cs_nextSequence :: u16
  cs_pendingSequence :: u16
  cs_pending :: bool

definition C6Session_new :: "'t \<Rightarrow> u8 \<Rightarrow> 't C6Session" where
  "C6Session_new transport maximumRetries =
     \<lparr>cs_transport = transport, cs_maximumRetries = maximumRetries, cs_nextSequence = 1,
      cs_pendingSequence = 0, cs_pending = False\<rparr>"

definition publish :: "'t IC6Transport \<Rightarrow> C6Frame \<Rightarrow> 't C6Session \<Rightarrow> bool \<times> 't C6Session" where
  "publish T frame s =
     (if cs_maximumRetries s = 0 then (False, s)
      else
        let (frame, s) =
              (if cf_sequence frame = 0
               then (frame\<lparr>cf_sequence := cs_nextSequence s\<rparr>, s\<lparr>cs_nextSequence := cs_nextSequence s + 1\<rparr>)
               else (frame, s));
            (encoded, wire, wireLength) = encode frame (replicate kMaximumEncodedSize 0) 0
        in if \<not> encoded then (False, s)
           else
             let (sent, t) = c6_send T (Some wire) wireLength (cs_transport s);
                 s = s\<lparr>cs_transport := t\<rparr>
             in if \<not> sent then (False, s)
                else (True, s\<lparr>cs_pendingSequence := cf_sequence frame, cs_pending := True\<rparr>))"

definition acknowledge :: "u16 \<Rightarrow> 't C6Session \<Rightarrow> bool \<times> 't C6Session" where
  "acknowledge sequence s =
     (if \<not> cs_pending s \<or> sequence \<noteq> cs_pendingSequence s then (False, s)
      else (True, s\<lparr>cs_pending := False\<rparr>))"

definition makeStatusRequest :: "u8 \<Rightarrow> 't C6Session \<Rightarrow> C6Frame \<times> 't C6Session" where
  "makeStatusRequest address s =
     (C6Frame_init\<lparr>cf_type := MtLightStatusResponse, cf_sequence := cs_nextSequence s,
        cf_payload := (cf_payload C6Frame_init)[0 := address], cf_payloadLength := 1\<rparr>,
      s\<lparr>cs_nextSequence := cs_nextSequence s + 1\<rparr>)"

section \<open>Bytes\<close>

lemma byte_bits:
  "n < 8 \<Longrightarrow> bit (lo_byte w) n = bit w n" "n < 8 \<Longrightarrow> bit (hi_byte w) n = bit w (n + 8)"
  "n < 16 \<Longrightarrow> bit (half_word a b) n = (if n < 8 then bit a n else bit b (n - 8))"
proof -
  have m: "0xFF = (mask 8 :: u16)" by (simp add: mask_eq_exp_minus_1)
  show "n < 8 \<Longrightarrow> bit (lo_byte w) n = bit w n" "n < 8 \<Longrightarrow> bit (hi_byte w) n = bit w (n + 8)"
    by (simp_all add: lo_byte_def hi_byte_def m bit_simps add.commute)
  show "n < 16 \<Longrightarrow> bit (half_word a b) n = (if n < 8 then bit a n else bit b (n - 8))"
    using bit_imp_le_length [of a n] by (auto simp: half_word_def bit_simps not_less)
qed

lemma half_word_bytes [simp]: "half_word (lo_byte w) (hi_byte w) = w"
  by (rule bit_word_eqI) (simp add: byte_bits)

lemma bytes_half_word [simp]: "lo_byte (half_word a b) = a" "hi_byte (half_word a b) = b"
  by (rule bit_word_eqI, simp add: byte_bits)+

lemma half_word_iff: "half_word a b = w \<longleftrightarrow> a = lo_byte w \<and> b = hi_byte w"
  by (metis bytes_half_word half_word_bytes)

section \<open>The shape of a message\<close>

text \<open>The bytes of a frame between its markers and checksum, and the whole message.\<close>

definition frame_body :: "C6Frame \<Rightarrow> u8 list" where
  "frame_body f = [cf_version f, message_code (cf_type f), lo_byte (cf_sequence f), hi_byte (cf_sequence f),
     lo_byte (cf_payloadLength f), hi_byte (cf_payloadLength f)] @
     take (unat (cf_payloadLength f)) (cf_payload f)"

definition message :: "C6Frame \<Rightarrow> u8 list" where
  "message f = kStart # frame_body f @
     [lo_byte (crc16 (frame_body f)), hi_byte (crc16 (frame_body f)), kEnd]"

definition frame_ok :: "C6Frame \<Rightarrow> bool" where
  "frame_ok f \<longleftrightarrow> length (cf_payload f) = kMaximumPayload \<and> unat (cf_payloadLength f) \<le> kMaximumPayload"

lemma length_body: "frame_ok f \<Longrightarrow> length (frame_body f) = 6 + unat (cf_payloadLength f)"
  by (simp add: frame_body_def frame_ok_def)

lemma length_message: "frame_ok f \<Longrightarrow> length (message f) = 10 + unat (cf_payloadLength f)"
  by (simp add: message_def length_body)

lemma encode_message:
  assumes f: "frame_ok f" and out: "length out = kMaximumEncodedSize"
  shows "fst (encode f out n)" "take (snd (snd (encode f out n))) (fst (snd (encode f out n))) = message f"
    "snd (snd (encode f out n)) = length (message f)" "length (fst (snd (encode f out n))) = kMaximumEncodedSize"
proof -
  let ?n = "unat (cf_payloadLength f)"
  let ?p = "take ?n (cf_payload f)"
  have p: "length ?p = ?n" using f by (simp add: frame_ok_def)
  have n: "?n \<le> 240" using f by (simp add: frame_ok_def kMaximumPayload_def)
  have "length out = 7 + (?n + (3 + (240 - ?n)))" using n out by (simp add: kMaximumEncodedSize_def)
  then obtain a r where o1: "out = a @ r" "length a = 7" "length r = ?n + (3 + (240 - ?n))"
    by (metis append_take_drop_id length_append length_take add_left_cancel min_absorb2 le_add1)
  then obtain q r' where o2: "r = q @ r'" "length q = ?n" "length r' = 3 + (240 - ?n)"
    by (metis append_take_drop_id length_append length_take add_left_cancel min_absorb2 le_add1)
  obtain a0 a1 a2 a3 a4 a5 a6 where a: "a = [a0, a1, a2, a3, a4, a5, a6]"
    using o1(2) by (auto simp: length_Suc_conv eval_nat_numeral)
  obtain c0 c1 c2 t where r': "r' = c0 # c1 # c2 # t"
    using o2(3) by (auto simp: length_Suc_conv eval_nat_numeral)
  have e: "encode f out n = (True, message f @ t, ?n + 10)"
    using n p unfolding o1(1) a o2(1) r'
    by (simp add: encode_def Let_def kMaximumPayload_def o2(2) copy_at_def message_def frame_body_def
        list_update_append eval_nat_numeral)
  show "fst (encode f out n)" "take (snd (snd (encode f out n))) (fst (snd (encode f out n))) = message f"
    "snd (snd (encode f out n)) = length (message f)" "length (fst (snd (encode f out n))) = kMaximumEncodedSize"
    using e length_message [OF f] out by (simp_all add: o1 o2 a r')
qed

lemma decode_message:
  assumes f: "frame_ok f" and g: "length (cf_payload g) = kMaximumPayload"
  shows "decode (Some (message f)) (length (message f)) g =
    (True, f\<lparr>cf_payload := take (unat (cf_payloadLength f)) (cf_payload f) @
       drop (unat (cf_payloadLength f)) (cf_payload g)\<rparr>)"
proof -
  let ?n = "unat (cf_payloadLength f)"
  let ?crc = "crc16 (frame_body f)"
  have n: "?n \<le> kMaximumPayload" and p: "length (take ?n (cf_payload f)) = ?n"
    using f by (simp_all add: frame_ok_def)
  have "message f \<noteq> []" "last (message f) = kEnd" by (simp_all add: message_def)
  then have e: "message f ! (length (message f) - 1) = kEnd" by (simp add: last_conv_nth)
  have h: "message f ! 0 = kStart"
    "half_word (message f ! 5) (message f ! 6) = cf_payloadLength f"
    "half_word (message f ! 3) (message f ! 4) = cf_sequence f"
    "message f ! 1 = cf_version f" "message f ! 2 = message_code (cf_type f)"
    by (simp_all add: message_def frame_body_def nth_append eval_nat_numeral)
  have c: "half_word (message f ! (7 + ?n)) (message f ! (7 + ?n + 1)) = ?crc"
    using length_body [OF f] by (simp add: message_def nth_append eval_nat_numeral)
  have b: "take (6 + ?n) (drop 1 (message f)) = frame_body f"
    using length_body [OF f] by (simp add: message_def)
  have q: "take ?n (drop 7 (message f)) = take ?n (cf_payload f)"
    using p by (simp add: message_def frame_body_def eval_nat_numeral)
  have "decode (Some (message f)) (length (message f)) g =
    (True, g\<lparr>cf_version := cf_version f, cf_type := cf_type f, cf_sequence := cf_sequence f,
       cf_payloadLength := cf_payloadLength f,
       cf_payload := take ?n (cf_payload f) @ drop ?n (cf_payload g)\<rparr>)"
    using n p h e c b q length_message [OF f] by (simp add: decode_def Let_def copy_at_def)
  also have "\<dots> = (True, f\<lparr>cf_payload := take ?n (cf_payload f) @ drop ?n (cf_payload g)\<rparr>)" by simp
  finally show ?thesis .
qed

text \<open>What is accepted is the message of the frame it is read as.\<close>

lemma decode_sound:
  assumes d: "decode (Some bs) (length bs) g = (True, f)" and g: "length (cf_payload g) = kMaximumPayload"
  shows "frame_ok f" "bs = message f"
proof -
  let ?w = "half_word (bs ! 5) (bs ! 6)"
  have c: "10 \<le> length bs" "bs ! 0 = kStart" "bs ! (length bs - 1) = kEnd" "unat ?w \<le> kMaximumPayload"
    "length bs = unat ?w + 10"
    "half_word (bs ! (7 + unat ?w)) (bs ! (7 + unat ?w + 1)) = crc16 (take (6 + unat ?w) (drop 1 bs))"
    and f: "f = g\<lparr>cf_version := bs ! 1, cf_type := MessageType (bs ! 2), cf_sequence := half_word (bs ! 3) (bs ! 4),
       cf_payloadLength := ?w, cf_payload := copy_at 0 (take (unat ?w) (drop 7 bs)) (cf_payload g)\<rparr>"
    using d by (simp_all add: decode_def Let_def split: if_splits)
  define n where "n = unat ?w"
  have "length bs = 7 + (n + 3)" using c(5) by (simp add: n_def)
  then obtain a r where o1: "bs = a @ r" "length a = 7" "length r = n + 3"
    by (metis append_take_drop_id length_append length_take add_left_cancel min_absorb2 le_add1)
  then obtain p q where o2: "r = p @ q" "length p = n" "length q = 3"
    by (metis append_take_drop_id length_append length_take add_left_cancel min_absorb2 le_add1)
  obtain a0 a1 a2 a3 a4 a5 a6 where a: "a = [a0, a1, a2, a3, a4, a5, a6]"
    using o1(2) by (auto simp: length_Suc_conv eval_nat_numeral)
  obtain c0 c1 c2 where q: "q = [c0, c1, c2]" using o2(3) by (auto simp: length_Suc_conv eval_nat_numeral)
  have bs: "bs = [a0, a1, a2, a3, a4, a5, a6] @ p @ [c0, c1, c2]" by (simp add: o1 a o2 q)
  have w: "half_word a5 a6 = ?w" by (simp add: bs)
  have pl: "cf_payload f = p @ drop n (cf_payload g)"
    unfolding f n_def [symmetric] by (simp add: bs copy_at_def o2(2) eval_nat_numeral)
  show ok: "frame_ok f" using c(4) g o2(2) unfolding frame_ok_def pl by (simp add: f n_def [symmetric])
  have body: "frame_body f = [a1, a2, a3, a4, a5, a6] @ p"
    unfolding frame_body_def pl by (simp add: f n_def [symmetric] o2(2), simp add: bs)
  have "6 + n = length (frame_body f)" "drop 1 bs = frame_body f @ [c0, c1, c2]"
    unfolding body by (simp_all add: bs o2(2))
  then have "take (6 + n) (drop 1 bs) = frame_body f" by simp
  then have crc: "half_word c0 c1 = crc16 (frame_body f)"
    using c(6) unfolding n_def [symmetric] by (simp add: bs o2(2) nth_append)
  show "bs = message f"
    using c(2,3) crc unfolding message_def body half_word_iff by (simp add: bs o2(2) nth_append)
qed

lemma decode_corrupted:
  assumes f: "frame_ok f" and g: "length (cf_payload g) = kMaximumPayload"
    and i: "i < length (message f)" "message f ! i \<noteq> b"
  shows "\<not> fst (decode (Some ((message f)[i := b])) (length (message f)) g)"
proof
  assume "fst (decode (Some ((message f)[i := b])) (length (message f)) g)"
  then obtain h where "decode (Some ((message f)[i := b])) (length ((message f)[i := b])) g = (True, h)"
    by (metis length_list_update prod.collapse)
  from decode_sound [OF this g] have h: "frame_ok h" "(message f)[i := b] = message h" by simp_all
  then have "length (message h) = length (message f)" by (metis length_list_update)
  then have l: "length (frame_body h) = length (frame_body f)" by (simp add: message_def)
  let ?B = "length (frame_body f)"
  consider (start) "i = 0" | (body) j where "i = Suc j" "j < ?B" | (tail) j where "i = Suc (?B + j)" "j < 3"
  proof (cases i)
    case (Suc k)
    show ?thesis
    proof (cases "k < ?B")
      case False
      then have "i = Suc (?B + (k - ?B))" "k - ?B < 3" using i(1) Suc by (auto simp: message_def)
      then show ?thesis by (rule tail)
    qed (use Suc body in simp)
  qed (use start in simp)
  then show False
  proof cases
    case start
    then show False using h(2) i(2) by (simp add: message_def)
  next
    case body
    then have m: "frame_body h = (frame_body f)[j := b]"
      "lo_byte (crc16 (frame_body h)) = lo_byte (crc16 (frame_body f))"
      "hi_byte (crc16 (frame_body h)) = hi_byte (crc16 (frame_body f))"
      using h(2) l by (simp_all add: message_def list_update_append)
    then have "crc16 (frame_body h) = crc16 (frame_body f)" by (metis half_word_bytes)
    with m(1) show False using crc16_update [OF body(2)] i(2) body by (simp add: message_def nth_append)
  next
    case tail
    let ?t = "\<lambda>x. [lo_byte (crc16 (frame_body x)), hi_byte (crc16 (frame_body x)), kEnd]"
    have "(message f)[i := b] = kStart # frame_body f @ (?t f)[j := b]"
      unfolding message_def tail(1) by (simp add: list_update_append)
    with h(2) have "frame_body f @ (?t f)[j := b] = frame_body h @ ?t h" unfolding message_def by (metis list.inject)
    with l have m: "frame_body f = frame_body h" "(?t f)[j := b] = ?t h" by (metis append_eq_append_conv)+
    have "(?t f)[j := b] ! j = b" using tail(2) by (intro nth_list_update_eq) simp
    moreover have "?t f ! j \<noteq> b" using i(2) tail by (simp add: message_def nth_append)
    ultimately show False using m by metis
  qed
qed

text \<open>No byte at or beyond the given length is read.\<close>

lemma decode_within:
  assumes "n \<le> length buffer"
  shows "decode (Some buffer) n g = decode (Some (take n buffer)) n g"
proof (cases "n < 10")
  case False
  let ?len = "unat (half_word (buffer ! 5) (buffer ! 6))"
  have "take (6 + ?len) (drop 1 (take n buffer)) = take (6 + ?len) (drop 1 buffer)" if "n = ?len + 10"
    using that by (simp add: drop_take min_def)
  moreover have "take ?len (drop 7 (take n buffer)) = take ?len (drop 7 buffer)" if "n = ?len + 10"
    using that by (simp add: drop_take min_def)
  ultimately show ?thesis using False by (simp add: decode_def Let_def)
qed (simp add: decode_def)

section \<open>The transport contract\<close>

text \<open>Publishing one frame after the other: what each call returned and the number it left pending.\<close>

fun publish_all :: "'t IC6Transport \<Rightarrow> C6Frame list \<Rightarrow> 't C6Session \<Rightarrow> (bool \<times> u16) list \<times> 't C6Session" where
  "publish_all T [] s = ([], s)"
| "publish_all T (f # fs) s =
     (let (r, s) = publish T f s; (rs, s') = publish_all T fs s
      in ((r, cs_pendingSequence s) # rs, s'))"

text \<open>
  What the session relies on: a message the transport accepts is the last one on the wire, a
  refused one leaves the wire as it was.
\<close>

locale c6_transport =
  fixes T :: "'t IC6Transport"
    and wire :: "'t \<Rightarrow> u8 list"
    and ok :: "'t \<Rightarrow> bool"
  assumes send_ok: "ok t \<Longrightarrow> ok (snd (c6_send T p n t))"
    and send_accepted: "ok t \<Longrightarrow> n \<le> length bs \<Longrightarrow> fst (c6_send T (Some bs) n t) \<Longrightarrow>
      wire (snd (c6_send T (Some bs) n t)) = take n bs"
    and send_refused: "ok t \<Longrightarrow> \<not> fst (c6_send T p n t) \<Longrightarrow> wire (snd (c6_send T p n t)) = wire t"
begin

lemma published:
  assumes ok: "ok (cs_transport s)" and f: "frame_ok f" and p: "fst (publish T f s)"
  shows "ok (cs_transport (snd (publish T f s)))"
    and "wire (cs_transport (snd (publish T f s))) =
      message (f\<lparr>cf_sequence := if cf_sequence f = 0 then cs_nextSequence s else cf_sequence f\<rparr>)"
    and "cs_pending (snd (publish T f s))"
    and "cs_pendingSequence (snd (publish T f s)) =
      (if cf_sequence f = 0 then cs_nextSequence s else cf_sequence f)"
    and "cs_nextSequence (snd (publish T f s)) =
      (if cf_sequence f = 0 then cs_nextSequence s + 1 else cs_nextSequence s)"
    and "cs_maximumRetries (snd (publish T f s)) = cs_maximumRetries s"
proof -
  let ?f = "f\<lparr>cf_sequence := if cf_sequence f = 0 then cs_nextSequence s else cf_sequence f\<rparr>"
  let ?s = "s\<lparr>cs_nextSequence := if cf_sequence f = 0 then cs_nextSequence s + 1 else cs_nextSequence s\<rparr>"
  obtain w n where e: "encode ?f (replicate kMaximumEncodedSize 0) 0 = (True, w, n)"
    "take n w = message ?f" "n \<le> length w"
  proof (cases "encode ?f (replicate kMaximumEncodedSize 0) 0")
    case (fields b w n)
    have "frame_ok ?f" using f by (simp add: frame_ok_def)
    note m = encode_message [OF this length_replicate, of 0 0]
    have "n = length (message ?f)" "take n w = message ?f" "b" using m fields by simp_all
    then have "n \<le> length w" by (metis length_take min.cobounded1)
    with \<open>take n w = message ?f\<close> \<open>b\<close> fields show thesis by (intro that) simp_all
  qed
  have q: "publish T f s = (if cs_maximumRetries s = 0 then (False, s) else
      let (sent, t) = c6_send T (Some w) n (cs_transport s) in
      if \<not> sent then (False, ?s\<lparr>cs_transport := t\<rparr>)
      else (True, ?s\<lparr>cs_transport := t, cs_pendingSequence := cf_sequence ?f, cs_pending := True\<rparr>))"
    using e(1) by (cases "cf_sequence f = 0") (simp_all add: publish_def case_prod_beta Let_def)
  have sent: "fst (c6_send T (Some w) n (cs_transport s))"
    using p unfolding q by (simp add: case_prod_beta Let_def split: if_splits)
  have r: "snd (publish T f s) = ?s\<lparr>cs_transport := snd (c6_send T (Some w) n (cs_transport s)),
      cs_pendingSequence := cf_sequence ?f, cs_pending := True\<rparr>"
    using p sent unfolding q by (simp add: case_prod_beta Let_def split: if_splits)
  show "ok (cs_transport (snd (publish T f s)))" using send_ok [OF ok] by (simp add: r)
  show "wire (cs_transport (snd (publish T f s))) = message ?f"
    using send_accepted [OF ok e(3) sent] e(2) by (simp add: r)
  show "cs_pending (snd (publish T f s))"
    "cs_pendingSequence (snd (publish T f s)) =
      (if cf_sequence f = 0 then cs_nextSequence s else cf_sequence f)"
    "cs_nextSequence (snd (publish T f s)) =
      (if cf_sequence f = 0 then cs_nextSequence s + 1 else cs_nextSequence s)"
    "cs_maximumRetries (snd (publish T f s)) = cs_maximumRetries s"
    by (simp_all add: r)
qed

text \<open>Numbers are handed out consecutively.\<close>

lemma publish_all_numbers:
  assumes "ok (cs_transport s)" "\<forall>f \<in> set fs. frame_ok f \<and> cf_sequence f = 0"
    and "\<forall>r \<in> set (fst (publish_all T fs s)). fst r"
  shows "map snd (fst (publish_all T fs s)) = map (\<lambda>i. cs_nextSequence s + word_of_nat i) [0..<length fs]"
  using assms
proof (induction fs arbitrary: s)
  case (Cons f fs)
  then have f: "frame_ok f" "cf_sequence f = 0" "fst (publish T f s)"
    by (simp_all add: case_prod_beta Let_def)
  note p = published [OF Cons.prems(1) f(1,3)]
  have "map snd (fst (publish_all T fs (snd (publish T f s)))) =
      map (\<lambda>i. cs_nextSequence (snd (publish T f s)) + word_of_nat i) [0..<length fs]"
    by (rule Cons.IH [OF p(1)]) (use Cons.prems in \<open>simp_all add: case_prod_beta Let_def\<close>)
  then show ?case using p(4,5) f(2)
    by (simp add: case_prod_beta Let_def upt_conv_Cons map_Suc_upt [symmetric] add.assoc del: upt_Suc)
qed simp

end

definition mock_wire :: "MockC6Transport \<Rightarrow> u8 list" where
  "mock_wire t = take (mt_lastLength t) (mt_lastFrame t)"

interpretation mock: c6_transport mock_transport mock_wire "\<lambda>t. length (mt_lastFrame t) = kMaximumEncodedSize"
proof
  fix p n and t :: MockC6Transport assume ok: "length (mt_lastFrame t) = kMaximumEncodedSize"
  show "\<not> fst (c6_send mock_transport p n t) \<Longrightarrow> mock_wire (snd (c6_send mock_transport p n t)) = mock_wire t"
    by (auto simp: mock_transport_def mock_send_def split: option.splits if_splits)
  fix bs assume "n \<le> length bs" "fst (c6_send mock_transport (Some bs) n t)"
  with ok show "mock_wire (snd (c6_send mock_transport (Some bs) n t)) = take n bs"
    by (auto simp: mock_transport_def mock_send_def mock_wire_def copy_at_def split: if_splits)
qed (auto simp: mock_transport_def mock_send_def copy_at_def split: option.splits)

lemma mock_sends:
  assumes "length (mt_lastFrame (cs_transport s)) = kMaximumEncodedSize" "frame_ok f" "cs_maximumRetries s \<noteq> 0"
  shows "fst (publish mock_transport f s)"
proof -
  have n: "length (message h) \<le> kMaximumEncodedSize" if "frame_ok h" for h
    using length_message [OF that] that by (simp add: frame_ok_def kMaximumPayload_def kMaximumEncodedSize_def)
  have "fst (mock_send (Some (fst (snd (encode h (replicate kMaximumEncodedSize 0) 0))))
      (snd (snd (encode h (replicate kMaximumEncodedSize 0) 0))) (cs_transport s)) \<and>
      fst (encode h (replicate kMaximumEncodedSize 0) 0)" if "frame_ok h" for h
    using encode_message [OF that length_replicate, of 0 0] n [OF that] assms(1)
    by (simp add: mock_send_def)
  moreover have "frame_ok (f\<lparr>cf_sequence := x\<rparr>)" for x using assms(2) by (simp add: frame_ok_def)
  ultimately show ?thesis
    using assms(2,3) by (simp add: publish_def Let_def case_prod_beta mock_transport_def)
qed

section \<open>Properties\<close>

text \<open>
  C26: the codec is a bijection between well-formed frames and accepted byte sequences.
  \<open>encode\<close> refuses exactly the payload lengths above 240; else it writes 10 bytes more than
  the payload, which \<open>decode\<close> accepts and reads back as the frame (beyond the payload length
  the receiver's array keeps what it held). And \<open>decode\<close> accepts nothing else: accepted bytes
  are what \<open>encode\<close> writes for the frame they are read as. Of a longer buffer it reads the given
  number of bytes only.
\<close>

theorem codec_bijective:
  assumes "length (cf_payload f) = kMaximumPayload" "length (cf_payload g) = kMaximumPayload"
    and "length out = kMaximumEncodedSize"
  shows "(fst (encode f out m) \<longleftrightarrow> cf_payloadLength f \<le> 240) \<and>
    (\<not> fst (encode f out m) \<longrightarrow> encode f out m = (False, out, m)) \<and>
    (\<forall>out' n. encode f out m = (True, out', n) \<longrightarrow>
       length out' = kMaximumEncodedSize \<and> n = 10 + unat (cf_payloadLength f) \<and>
       decode (Some (take n out')) n g =
         (True, f\<lparr>cf_payload := take (unat (cf_payloadLength f)) (cf_payload f) @
                               drop (unat (cf_payloadLength f)) (cf_payload g)\<rparr>)) \<and>
    (\<forall>bs h. decode (Some bs) (length bs) g = (True, h) \<longrightarrow>
       (\<exists>out'. encode h out m = (True, out', length bs) \<and> take (length bs) out' = bs)) \<and>
    (\<forall>buffer n. n \<le> length buffer \<longrightarrow> decode (Some buffer) n g = decode (Some (take n buffer)) n g)"
proof (intro conjI allI impI)
  have w: "unat (cf_payloadLength f) \<le> kMaximumPayload \<longleftrightarrow> cf_payloadLength f \<le> 240"
    by (simp add: word_le_nat_alt kMaximumPayload_def)
  show "fst (encode f out m) \<longleftrightarrow> cf_payloadLength f \<le> 240"
    using assms(3) unfolding w [symmetric]
    by (simp add: encode_def Let_def kMaximumEncodedSize_def kMaximumPayload_def)
  show "encode f out m = (False, out, m)" if "\<not> fst (encode f out m)"
    using that by (simp add: encode_def Let_def split: if_splits)
  fix out' n assume e: "encode f out m = (True, out', n)"
  then have "frame_ok f" using assms(1) by (simp add: encode_def frame_ok_def Let_def not_less split: if_splits)
  note m = encode_message [OF this assms(3), of m] length_message [OF this] decode_message [OF this assms(2)]
  show "length out' = kMaximumEncodedSize" "n = 10 + unat (cf_payloadLength f)" using m e by simp_all
  show "decode (Some (take n out')) n g =
         (True, f\<lparr>cf_payload := take (unat (cf_payloadLength f)) (cf_payload f) @
                               drop (unat (cf_payloadLength f)) (cf_payload g)\<rparr>)"
    using m e by simp
next
  fix bs h assume "decode (Some bs) (length bs) g = (True, h)"
  from decode_sound [OF this assms(2)] have h: "frame_ok h" "bs = message h" by simp_all
  from encode_message [OF h(1) assms(3), of m] h(2)
  have "encode h out m = (True, fst (snd (encode h out m)), length bs) \<and>
      take (length bs) (fst (snd (encode h out m))) = bs"
    by (metis prod.collapse)
  then show "\<exists>out'. encode h out m = (True, out', length bs) \<and> take (length bs) out' = bs" by blast
next
  fix buffer :: "u8 list" and n assume "n \<le> length buffer"
  then show "decode (Some buffer) n g = decode (Some (take n buffer)) n g" by (rule decode_within)
qed

lemma codec_bijective_witness:
  "fst (encode (C6Frame_init\<lparr>cf_payloadLength := 3\<rparr>) (replicate kMaximumEncodedSize 0) 0) \<and>
   \<not> fst (encode (C6Frame_init\<lparr>cf_payloadLength := 241\<rparr>) (replicate kMaximumEncodedSize 0) 0)"
  using codec_bijective [of "C6Frame_init\<lparr>cf_payloadLength := 3\<rparr>" C6Frame_init "replicate kMaximumEncodedSize 0" 0, THEN conjunct1]
    codec_bijective [of "C6Frame_init\<lparr>cf_payloadLength := 241\<rparr>" C6Frame_init "replicate kMaximumEncodedSize 0" 0, THEN conjunct1]
  by (simp add: C6Frame_init_def word_le_nat_alt)

text \<open>
  C27: a frame with one corrupted byte is never accepted, whichever byte it is, marker,
  header, payload or checksum, and whatever it is changed to.
\<close>

theorem corruption_detected:
  assumes "length (cf_payload f) = kMaximumPayload" "length (cf_payload g) = kMaximumPayload"
    and "encode f (replicate kMaximumEncodedSize 0) 0 = (True, out, n)" "i < n" "b \<noteq> out ! i"
  shows "decode (Some (take n (out[i := b]))) n g = (False, g)"
proof -
  have ok: "frame_ok f" using assms(1,3) by (simp add: encode_def frame_ok_def Let_def not_less split: if_splits)
  from encode_message [OF ok length_replicate, of 0 0] assms(3)
  have m: "take n out = message f" "n = length (message f)" by simp_all
  have "message f ! i = out ! i" using assms(4) by (simp add: m(1) [symmetric])
  then have "\<not> fst (decode (Some (take n (out[i := b]))) n g)"
    using decode_corrupted [OF ok assms(2), of i b] assms(4,5) m by (simp add: take_update_swap)
  then show ?thesis by (auto simp: decode_def Let_def split: if_splits)
qed

lemma corruption_detected_witness:
  "\<exists>out n. encode C6Frame_init (replicate kMaximumEncodedSize 0) 0 = (True, out, n) \<and>
     decode (Some (take n (out[2 := 7]))) n C6Frame_init = (False, C6Frame_init)"
proof -
  have l: "length (cf_payload C6Frame_init) = kMaximumPayload" by (simp add: C6Frame_init_def)
  have "frame_ok C6Frame_init" by (simp add: frame_ok_def C6Frame_init_def)
  note m = encode_message [OF this length_replicate, of 0 0] length_message [OF this]
  obtain b out n where e: "encode C6Frame_init (replicate kMaximumEncodedSize 0) 0 = (b, out, n)"
    by (metis prod.exhaust)
  have n: "b" "2 < n" "take n out = message C6Frame_init" using m e by simp_all
  then have "out ! 2 = message C6Frame_init ! 2" by (metis nth_take)
  then have "7 \<noteq> out ! 2" by (simp add: message_def frame_body_def C6Frame_init_def MtHeartbeat_def)
  moreover have e': "encode C6Frame_init (replicate kMaximumEncodedSize 0) 0 = (True, out, n)"
    using e n(1) by simp
  ultimately show ?thesis using corruption_detected [OF l l e' n(2)] by blast
qed

text \<open>Acknowledgements that arrive one after the other.\<close>

definition acknowledge_all :: "u16 list \<Rightarrow> 't C6Session \<Rightarrow> 't C6Session" where
  "acknowledge_all qs s = fold (\<lambda>q s. snd (acknowledge q s)) qs s"

lemma pending_until_own:
  assumes "cs_pending s" and "cs_pendingSequence s = seq"
  shows "fst (acknowledge q s) \<longleftrightarrow> q = seq" and "q \<noteq> seq \<Longrightarrow> acknowledge q s = (False, s)"
    and "seq \<notin> set qs \<Longrightarrow> acknowledge_all qs s = s"
    and "acknowledge seq s = (True, s\<lparr>cs_pending := False\<rparr>)"
    and "acknowledge q (s\<lparr>cs_pending := False\<rparr>) = (False, s\<lparr>cs_pending := False\<rparr>)"
proof -
  show "fst (acknowledge q s) \<longleftrightarrow> q = seq" "acknowledge seq s = (True, s\<lparr>cs_pending := False\<rparr>)"
    "acknowledge q (s\<lparr>cs_pending := False\<rparr>) = (False, s\<lparr>cs_pending := False\<rparr>)"
    using assms by (simp_all add: acknowledge_def)
  have other: "acknowledge q s = (False, s)" if "q \<noteq> seq" for q using assms that by (simp add: acknowledge_def)
  then show "q \<noteq> seq \<Longrightarrow> acknowledge q s = (False, s)" .
  show "seq \<notin> set qs \<Longrightarrow> acknowledge_all qs s = s"
    by (induction qs) (auto simp: acknowledge_all_def other)
qed

text \<open>
  C28: a frame published over the mock transport can be read back from the transport's last
  message, with the next sequence number when it had none. It is then pending until its own
  number is acknowledged: any other number is refused and changes nothing, so its own is still
  accepted after any wrong ones; that clears the pending mark and nothing else, and from then on
  every number is refused.
\<close>

theorem publish_until_acknowledged:
  assumes "length (mt_lastFrame (cs_transport s)) = kMaximumEncodedSize" "frame_ok f" "cs_maximumRetries s \<noteq> 0"
    and "length (cf_payload g) = kMaximumPayload"
  shows "\<exists>s' seq. publish mock_transport f s = (True, s') \<and>
    seq = (if cf_sequence f = 0 then cs_nextSequence s else cf_sequence f) \<and>
    decode (Some (mock_wire (cs_transport s'))) (length (mock_wire (cs_transport s'))) g =
      (True, f\<lparr>cf_sequence := seq, cf_payload := take (unat (cf_payloadLength f)) (cf_payload f) @
         drop (unat (cf_payloadLength f)) (cf_payload g)\<rparr>) \<and>
    (\<forall>q. fst (acknowledge q s') \<longleftrightarrow> q = seq) \<and>
    (\<forall>q. q \<noteq> seq \<longrightarrow> acknowledge q s' = (False, s')) \<and>
    (\<forall>qs. seq \<notin> set qs \<longrightarrow>
       acknowledge seq (acknowledge_all qs s') = (True, s'\<lparr>cs_pending := False\<rparr>)) \<and>
    (\<forall>q. acknowledge q (snd (acknowledge seq s')) = (False, snd (acknowledge seq s')))"
proof -
  let ?seq = "if cf_sequence f = 0 then cs_nextSequence s else cf_sequence f"
  let ?f = "f\<lparr>cf_sequence := ?seq\<rparr>"
  have ok: "frame_ok (f\<lparr>cf_sequence := x\<rparr>)" for x using assms(2) by (simp add: frame_ok_def)
  have sent: "fst (publish mock_transport f s)" by (rule mock_sends [OF assms(1-3)])
  note p = mock.published [OF assms(1,2) sent]
  have d: "decode (Some (message ?f)) (length (message ?f)) g = (True, ?f\<lparr>cf_payload :=
      take (unat (cf_payloadLength ?f)) (cf_payload ?f) @ drop (unat (cf_payloadLength ?f)) (cf_payload g)\<rparr>)"
    by (rule decode_message [OF ok assms(4)])
  note a = pending_until_own [where s = "snd (publish mock_transport f s)" and seq = ?seq]
  show ?thesis
  proof (rule exI [of _ "snd (publish mock_transport f s)"], rule exI [of _ ?seq], intro conjI allI)
    show "publish mock_transport f s = (True, snd (publish mock_transport f s))"
      using sent by (metis prod.collapse)
    show "decode (Some (mock_wire (cs_transport (snd (publish mock_transport f s)))))
        (length (mock_wire (cs_transport (snd (publish mock_transport f s))))) g =
      (True, f\<lparr>cf_sequence := ?seq, cf_payload := take (unat (cf_payloadLength f)) (cf_payload f) @
         drop (unat (cf_payloadLength f)) (cf_payload g)\<rparr>)"
      using d unfolding p(2) by simp
  qed (use p(3,4) in \<open>auto simp: a\<close>)
qed

lemma publish_until_acknowledged_witness:
  "\<exists>s'. publish mock_transport C6Frame_init (C6Session_new MockC6Transport_init 3) = (True, s') \<and>
     acknowledge 2 s' = (False, s') \<and> fst (acknowledge 1 (snd (acknowledge 2 s')))"
  using publish_until_acknowledged [of "C6Session_new MockC6Transport_init 3" C6Frame_init C6Frame_init]
  by (auto simp: C6Session_new_def MockC6Transport_init_def C6Frame_init_def frame_ok_def)

text \<open>
  The session numbers the frames it is given without a number consecutively, modulo
  65536: no two of 65536 successive ones share a number. The number after 65535 is 0, the
  value that means "no number yet".
\<close>

theorem publish_numbers_distinct:
  assumes "length (mt_lastFrame (cs_transport s)) = kMaximumEncodedSize"
    and "\<forall>f \<in> set fs. frame_ok f \<and> cf_sequence f = 0"
    and "\<forall>r \<in> set (fst (publish_all mock_transport fs s)). fst r" "length fs \<le> 65536"
  shows "map snd (fst (publish_all mock_transport fs s)) =
      map (\<lambda>i. cs_nextSequence s + word_of_nat i) [0..<length fs] \<and>
    distinct (map snd (fst (publish_all mock_transport fs s)))"
proof
  show m: "map snd (fst (publish_all mock_transport fs s)) =
      map (\<lambda>i. cs_nextSequence s + word_of_nat i) [0..<length fs]"
    by (rule mock.publish_all_numbers [OF assms(1-3)])
  have "i = j" if "word_of_nat i = (word_of_nat j :: u16)" "i < length fs" "j < length fs" for i j
  proof -
    have "unat (word_of_nat i :: u16) = unat (word_of_nat j :: u16)" using that(1) by simp
    then show ?thesis using that(2,3) assms(4) by (simp add: unat_of_nat)
  qed
  then show "distinct (map snd (fst (publish_all mock_transport fs s)))"
    unfolding m by (auto simp: distinct_map inj_on_def)
qed

lemma publish_numbers_distinct_witness:
  "map snd (fst (publish_all mock_transport [C6Frame_init, C6Frame_init]
     (C6Session_new MockC6Transport_init 3))) = [1, 2]"
proof -
  let ?s = "C6Session_new MockC6Transport_init 3"
  have f: "frame_ok C6Frame_init" by (simp add: frame_ok_def C6Frame_init_def)
  have ok: "length (mt_lastFrame (cs_transport ?s)) = kMaximumEncodedSize" "cs_maximumRetries ?s \<noteq> 0"
    by (simp_all add: C6Session_new_def MockC6Transport_init_def)
  note 1 = mock_sends [OF ok(1) f ok(2)]
  note p = mock.published [OF ok(1) f 1]
  have 2: "fst (publish mock_transport C6Frame_init (snd (publish mock_transport C6Frame_init ?s)))"
    by (rule mock_sends [OF p(1) f]) (use p(6) ok(2) in simp)
  have "\<forall>r \<in> set (fst (publish_all mock_transport [C6Frame_init, C6Frame_init] ?s)). fst r"
    using 1 2 by (simp add: case_prod_beta Let_def)
  from publish_numbers_distinct [OF ok(1) _ this] f show ?thesis
    by (simp add: C6Session_new_def C6Frame_init_def)
qed

end
