(* ===== verification/Event_Storage.thy ===== *)
theory Event_Storage
  imports Core_Types Crc16
begin

text \<open>
  The event history of \<open>local_storage.h/.cpp\<close>: a ring of the last 128 records, each with a
  checksum over its object representation. The representation of a record in memory (the bytes
  before the \<open>crc\<close> member, padding included) is the platform's: it is the parameter \<open>bytes\<close>
  of the operations that compute a checksum.
\<close>

section \<open>Data\<close>

record StoredEvent =
  se_sequence :: u32
  se_timestamp :: u64
  se_event :: LightEvent
  se_crc :: u16

definition StoredEvent_init :: StoredEvent where
  "StoredEvent_init = \<lparr>se_sequence = 0, se_timestamp = 0, se_event = LightEvent_init, se_crc = 0\<rparr>"

record RecoveredEvents =
  re_records :: "StoredEvent list"
  re_size :: nat

definition RecoveredEvents_init :: RecoveredEvents where
  "RecoveredEvents_init = \<lparr>re_records = replicate 128 StoredEvent_init, re_size = 0\<rparr>"

definition kHistoryCapacity :: nat where "kHistoryCapacity = 128"

record EventHistory =
  eh_records :: "StoredEvent list"
  eh_head :: nat
  eh_size :: nat

definition EventHistory_init :: EventHistory where
  "EventHistory_init = \<lparr>eh_records = replicate kHistoryCapacity StoredEvent_init, eh_head = 0, eh_size = 0\<rparr>"

section \<open>Operations\<close>

definition checksum :: "(StoredEvent \<Rightarrow> u8 list) \<Rightarrow> StoredEvent \<Rightarrow> u16" where
  "checksum bytes event = crc16 (bytes event)"

definition eh_append :: "(StoredEvent \<Rightarrow> u8 list) \<Rightarrow> StoredEvent \<Rightarrow> EventHistory \<Rightarrow> bool \<times> EventHistory" where
  "eh_append bytes event h =
     (let event = event\<lparr>se_crc := 0\<rparr>;
          event = event\<lparr>se_crc := checksum bytes event\<rparr>;
          index = (eh_head h + eh_size h) mod kHistoryCapacity;
          h = h\<lparr>eh_records := (eh_records h)[index := event]\<rparr>
      in (True, if eh_size h < kHistoryCapacity then h\<lparr>eh_size := eh_size h + 1\<rparr>
                else h\<lparr>eh_head := (eh_head h + 1) mod kHistoryCapacity\<rparr>))"

definition recover_step :: "(StoredEvent \<Rightarrow> u8 list) \<Rightarrow> EventHistory \<Rightarrow> nat \<Rightarrow> RecoveredEvents \<Rightarrow> RecoveredEvents" where
  "recover_step bytes h i recovered =
     (let event = eh_records h ! ((eh_head h + i) mod kHistoryCapacity)
      in if se_crc event = checksum bytes event
         then recovered\<lparr>re_records := (re_records recovered)[re_size recovered := event],
                        re_size := re_size recovered + 1\<rparr>
         else recovered)"

definition recover :: "(StoredEvent \<Rightarrow> u8 list) \<Rightarrow> EventHistory \<Rightarrow> RecoveredEvents" where
  "recover bytes h = fold (recover_step bytes h) [0..<eh_size h] RecoveredEvents_init"

definition eh_getSize :: "EventHistory \<Rightarrow> nat" where
  [simp]: "eh_getSize h = eh_size h"

definition corruptNewestForTest :: "EventHistory \<Rightarrow> EventHistory" where
  "corruptNewestForTest h =
     (if eh_size h = 0 then h
      else let index = (eh_head h + eh_size h - 1) mod kHistoryCapacity;
               event = eh_records h ! index
           in h\<lparr>eh_records := (eh_records h)[index := event\<lparr>se_crc := se_crc event XOR 0xFFFF\<rparr>]\<rparr>)"

section \<open>The history as a list\<close>

definition eh_inv :: "EventHistory \<Rightarrow> bool" where
  "eh_inv h \<longleftrightarrow> length (eh_records h) = kHistoryCapacity \<and> eh_head h < kHistoryCapacity \<and>
     eh_size h \<le> kHistoryCapacity \<and> (eh_size h < kHistoryCapacity \<longrightarrow> eh_head h = 0)"

definition eh_list :: "EventHistory \<Rightarrow> StoredEvent list" where
  "eh_list h = ring_list (eh_records h) (eh_head h) (eh_size h)"

definition sealed :: "(StoredEvent \<Rightarrow> u8 list) \<Rightarrow> StoredEvent \<Rightarrow> StoredEvent" where
  "sealed bytes event = event\<lparr>se_crc := checksum bytes (event\<lparr>se_crc := 0\<rparr>)\<rparr>"

definition recovered_list :: "RecoveredEvents \<Rightarrow> StoredEvent list" where
  "recovered_list r = take (re_size r) (re_records r)"

lemma eh_init [keeps]: "eh_inv EventHistory_init" "eh_list EventHistory_init = []"
  by (simp_all add: eh_inv_def EventHistory_init_def kHistoryCapacity_def eh_list_def)

text \<open>The last \<open>n\<close> elements.\<close>

definition last_n :: "nat \<Rightarrow> 'a list \<Rightarrow> 'a list" where
  "last_n n xs = drop (length xs - n) xs"

lemma append_list:
  assumes "eh_inv h"
  shows "eh_inv (snd (eh_append bytes e h))"
    and "eh_list (snd (eh_append bytes e h)) = last_n kHistoryCapacity (eh_list h @ [sealed bytes e])"
proof -
  have l: "length (eh_records h) = kHistoryCapacity" "eh_head h < kHistoryCapacity" "eh_size h \<le> kHistoryCapacity"
    and head: "eh_size h < kHistoryCapacity \<longrightarrow> eh_head h = 0"
    using assms by (simp_all add: eh_inv_def)
  show "eh_inv (snd (eh_append bytes e h))"
    using assms by (auto simp: eh_inv_def eh_append_def Let_def)
  have s: "e\<lparr>se_crc := checksum bytes (e\<lparr>se_crc := 0\<rparr>)\<rparr> = sealed bytes e" by (simp add: sealed_def)
  show "eh_list (snd (eh_append bytes e h)) = last_n kHistoryCapacity (eh_list h @ [sealed bytes e])"
  proof (cases "eh_size h < kHistoryCapacity")
    case True
    then show ?thesis
      using ring_list_push [of "eh_size h" "eh_records h" "eh_head h" "sealed bytes e"] l
      by (simp add: eh_append_def Let_def eh_list_def s last_n_def)
  next
    case False
    then have "eh_size h = length (eh_records h)" "(eh_head h + eh_size h) mod kHistoryCapacity = eh_head h"
      using l by simp_all
    then show ?thesis
      using ring_list_overwrite [of "eh_head h" "eh_records h" "sealed bytes e"] l
      by (simp add: eh_append_def Let_def eh_list_def s last_n_def drop_Suc tl_append
          split: list.split)
  qed
qed

lemma recover_fold:
  assumes "length (re_records r) = 128" "re_size r + length is \<le> 128"
  shows "recovered_list (fold (recover_step bytes h) is r) = recovered_list r @
      filter (\<lambda>e. se_crc e = checksum bytes e) (map (\<lambda>i. eh_records h ! ((eh_head h + i) mod kHistoryCapacity)) is)"
  using assms
proof (induction "is" arbitrary: r)
  case (Cons i "is")
  let ?r = "recover_step bytes h i r"
  have "recovered_list ?r = recovered_list r @
      filter (\<lambda>e. se_crc e = checksum bytes e) [eh_records h ! ((eh_head h + i) mod kHistoryCapacity)]"
    "length (re_records ?r) = 128" "re_size ?r + length is \<le> 128"
    using Cons.prems by (simp_all add: recover_step_def Let_def recovered_list_def)
  with Cons.IH [of ?r] show ?case by simp
qed simp

lemma recover_filters:
  assumes "eh_inv h"
  shows "recovered_list (recover bytes h) = filter (\<lambda>e. se_crc e = checksum bytes e) (eh_list h)"
  using recover_fold [of RecoveredEvents_init "[0..<eh_size h]" bytes h] assms
  by (simp add: recover_def RecoveredEvents_init_def recovered_list_def eh_list_def ring_list_def eh_inv_def
      kHistoryCapacity_def)

definition append_all :: "(StoredEvent \<Rightarrow> u8 list) \<Rightarrow> StoredEvent list \<Rightarrow> EventHistory \<Rightarrow> EventHistory" where
  "append_all bytes es h = fold (\<lambda>e h. snd (eh_append bytes e h)) es h"

lemma last_n_append: "last_n n (last_n n xs @ ys) = last_n n (xs @ ys)"
  by (cases "length xs \<le> n") (auto simp: last_n_def add.commute)

lemma append_all_list:
  assumes "eh_inv h"
  shows "eh_inv (append_all bytes es h)"
    and "eh_list (append_all bytes es h) = last_n kHistoryCapacity (eh_list h @ map (sealed bytes) es)"
proof -
  have "eh_inv (append_all bytes es h) \<and>
      eh_list (append_all bytes es h) = last_n kHistoryCapacity (eh_list h @ map (sealed bytes) es)"
    using assms
  proof (induction es arbitrary: h)
    case Nil
    then show ?case by (simp add: append_all_def last_n_def eh_list_def eh_inv_def)
  next
    case (Cons e es)
    note a = append_list [OF Cons.prems, of bytes e]
    show ?case using Cons.IH [OF a(1)] unfolding a(2) last_n_append
      by (simp add: append_all_def)
  qed
  then show "eh_inv (append_all bytes es h)"
    "eh_list (append_all bytes es h) = last_n kHistoryCapacity (eh_list h @ map (sealed bytes) es)" by simp_all
qed

text \<open>Replacing the record at a logical position.\<close>

definition overwrite :: "nat \<Rightarrow> StoredEvent \<Rightarrow> EventHistory \<Rightarrow> EventHistory" where
  "overwrite j d h = h\<lparr>eh_records := (eh_records h)[(eh_head h + j) mod kHistoryCapacity := d]\<rparr>"

lemma overwrite_list:
  assumes "eh_inv h" "j < eh_size h"
  shows "eh_inv (overwrite j d h)" "eh_list (overwrite j d h) = (eh_list h)[j := d]"
proof -
  have l: "length (eh_records h) = kHistoryCapacity" "j < kHistoryCapacity"
    using assms by (simp_all add: eh_inv_def)
  show "eh_inv (overwrite j d h)" using assms by (simp add: eh_inv_def overwrite_def)
  show "eh_list (overwrite j d h) = (eh_list h)[j := d]"
  proof (rule nth_equalityI)
    fix i assume i: "i < length (eh_list (overwrite j d h))"
    then have "i < eh_size h" by (simp add: eh_list_def overwrite_def)
    moreover from this have "i < kHistoryCapacity" using assms by (simp add: eh_inv_def)
    then have "(eh_head h + j) mod kHistoryCapacity = (eh_head h + i) mod kHistoryCapacity \<longleftrightarrow> j = i"
      using ring_slot_inj [of "eh_head h" i kHistoryCapacity j] l(2) by auto
    moreover have "(eh_head h + j) mod kHistoryCapacity < kHistoryCapacity" by (simp add: kHistoryCapacity_def)
    ultimately show "eh_list (overwrite j d h) ! i = (eh_list h)[j := d] ! i"
      using assms(2) l(1) by (simp add: eh_list_def overwrite_def nth_ring_list nth_list_update)
  qed (simp add: eh_list_def overwrite_def)
qed

lemma corruptNewest_overwrite:
  assumes "eh_inv h" "eh_size h \<noteq> 0"
  shows "corruptNewestForTest h = overwrite (eh_size h - 1)
    ((last (eh_list h))\<lparr>se_crc := se_crc (last (eh_list h)) XOR 0xFFFF\<rparr>) h"
proof -
  have "eh_list h \<noteq> []" using assms(2) by (metis eh_list_def length_ring_list list.size(3))
  then have "last (eh_list h) = eh_records h ! ((eh_head h + eh_size h - 1) mod kHistoryCapacity)"
    using assms by (simp add: last_conv_nth eh_list_def nth_ring_list eh_inv_def)
  then show ?thesis using assms(2) by (simp add: corruptNewestForTest_def overwrite_def Let_def)
qed

lemma sealed_valid:
  assumes "\<And>e c. bytes (e\<lparr>se_crc := c\<rparr>) = bytes e"
  shows "se_crc (sealed bytes e) = checksum bytes (sealed bytes e)"
  by (simp add: sealed_def checksum_def assms)

text \<open>Damage to a sealed record shows, and filtering drops exactly the damaged one.\<close>

lemma damage_shows:
  assumes "se_crc e = checksum bytes e"
    and "bytes d = bytes e \<and> se_crc d \<noteq> se_crc e \<or>
      se_crc d = se_crc e \<and> (\<exists>i b. i < length (bytes e) \<and> b \<noteq> bytes e ! i \<and> bytes d = (bytes e)[i := b])"
  shows "se_crc d \<noteq> checksum bytes d"
  using assms(2)
proof
  assume "bytes d = bytes e \<and> se_crc d \<noteq> se_crc e"
  with assms(1) show ?thesis by (simp add: checksum_def)
next
  assume *: "se_crc d = se_crc e \<and> (\<exists>i b. i < length (bytes e) \<and> b \<noteq> bytes e ! i \<and> bytes d = (bytes e)[i := b])"
  then obtain i b where "i < length (bytes e)" "bytes e ! i \<noteq> b" "bytes d = (bytes e)[i := b]" by metis
  with crc16_update [OF this(1,2)] assms(1) * show ?thesis by (simp add: checksum_def)
qed

lemma filter_all_but:
  assumes "\<forall>e \<in> set xs. P e" "j < length xs" "\<not> P d"
  shows "filter P (xs[j := d]) = take j xs @ drop (Suc j) xs"
proof -
  have "filter P (take j xs) = take j xs" "filter P (drop (Suc j) xs) = drop (Suc j) xs"
    using assms(1) by (auto intro!: filter_True dest: in_set_takeD in_set_dropD)
  then show ?thesis using assms(2,3) by (simp add: upd_conv_take_nth_drop)
qed

section \<open>Properties\<close>

text \<open>
  C29: whatever was appended, recovery returns the last 128 records in order, each sealed with
  its checksum. If afterwards one of them is damaged in memory, either in its checksum or in one
  byte of its contents, recovery returns all the others and not that one. The object
  representation is any function that does not look at the checksum member.
\<close>

theorem history_recovers_intact:
  assumes "\<And>e c. bytes (e\<lparr>se_crc := c\<rparr>) = bytes e"
    and "L = last_n kHistoryCapacity (map (sealed bytes) es)"
  shows "recovered_list (recover bytes (append_all bytes es EventHistory_init)) = L \<and>
    (\<forall>j < length L. \<forall>d.
       bytes d = bytes (L ! j) \<and> se_crc d \<noteq> se_crc (L ! j) \<or>
       se_crc d = se_crc (L ! j) \<and>
         (\<exists>i b. i < length (bytes (L ! j)) \<and> b \<noteq> bytes (L ! j) ! i \<and> bytes d = (bytes (L ! j))[i := b]) \<longrightarrow>
       recovered_list (recover bytes (overwrite j d (append_all bytes es EventHistory_init))) =
         take j L @ drop (Suc j) L)"
proof -
  let ?h = "append_all bytes es EventHistory_init"
  let ?ok = "\<lambda>e. se_crc e = checksum bytes e"
  note a = append_all_list [OF eh_init(1), of bytes es, unfolded eh_init(2) append_Nil]
  have L: "eh_list ?h = L" using a(2) assms(2) by simp
  have valid: "\<forall>e \<in> set L. ?ok e"
    using sealed_valid [OF assms(1)] assms(2) by (auto simp: last_n_def dest!: in_set_dropD)
  show ?thesis
  proof (intro conjI allI impI)
    show "recovered_list (recover bytes ?h) = L"
      using recover_filters [OF a(1), of bytes] L valid by simp
    fix j d assume j: "j < length L"
      and d: "bytes d = bytes (L ! j) \<and> se_crc d \<noteq> se_crc (L ! j) \<or> se_crc d = se_crc (L ! j) \<and>
        (\<exists>i b. i < length (bytes (L ! j)) \<and> b \<noteq> bytes (L ! j) ! i \<and> bytes d = (bytes (L ! j))[i := b])"
    have "\<not> ?ok d" using damage_shows [OF _ d] valid j by simp
    from filter_all_but [OF valid j this] have "filter ?ok (L[j := d]) = take j L @ drop (Suc j) L" .
    moreover have "j < eh_size ?h" using j L by (metis eh_list_def length_ring_list)
    note o = overwrite_list [OF a(1) this, of d]
    ultimately show "recovered_list (recover bytes (overwrite j d ?h)) = take j L @ drop (Suc j) L"
      using recover_filters [OF o(1), of bytes] o(2) L by simp
  qed
qed

lemma history_recovers_intact_witness:
  "recovered_list (recover (\<lambda>e. [ucast (se_sequence e), ucast (se_timestamp e)])
     (append_all (\<lambda>e. [ucast (se_sequence e), ucast (se_timestamp e)])
        [StoredEvent_init, StoredEvent_init\<lparr>se_sequence := 1\<rparr>] EventHistory_init)) =
   map (sealed (\<lambda>e. [ucast (se_sequence e), ucast (se_timestamp e)]))
     [StoredEvent_init, StoredEvent_init\<lparr>se_sequence := 1\<rparr>]"
  using history_recovers_intact [OF _ refl, of "\<lambda>e. [ucast (se_sequence e), ucast (se_timestamp e)]"
      "[StoredEvent_init, StoredEvent_init\<lparr>se_sequence := 1\<rparr>]"]
  by (simp add: last_n_def kHistoryCapacity_def)

end
