(* ===== verification/Float_Mean.thy ===== *)
theory Float_Mean
  imports Binary32
begin

text \<open>
  The running mean \<open>mean += (value - mean) / count\<close> of \<open>trend_engine.cpp\<close> and
  \<open>baseline_engine.cpp\<close> in binary32, and the square root. The facts the two components need:
  one step never leaves the interval between the old mean and the new value, although each of
  its three operations rounds, and a square root is a nonnegative number.
\<close>

section \<open>The running mean\<close>

definition f32_mean_step :: "f32 \<Rightarrow> f32 \<Rightarrow> f32 \<Rightarrow> f32" where
  "f32_mean_step mean value count = f32_add mean (f32_div (f32_sub value mean) count)"

text \<open>The value of a rounding, on rationals.\<close>

definition rv :: "rat \<Rightarrow> rat" where
  "rv x = f32_val (f32_round x)"

lemma rv_0 [simp]: "rv 0 = 0"
  by (simp add: rv_def f32_round_def)

lemma rv_neg: "rv (- x) = - rv x"
proof (cases "x = 0")
  case False
  then show ?thesis by (simp add: rv_def f32_round_neg)
qed (simp only: minus_zero rv_0)

lemma rv_pos: "0 < x \<Longrightarrow> x < 2 ^ 100 \<Longrightarrow> rv x = round_mag x"
  using f32_round_finite [of x] by (auto simp: rv_def f32_round_def Let_def split: if_splits)

lemma rv_mono: "x \<le> y \<Longrightarrow> \<bar>x\<bar> < 2 ^ 100 \<Longrightarrow> \<bar>y\<bar> < 2 ^ 100 \<Longrightarrow> rv x \<le> rv y"
  using f32_round_mono [of x y] f32_round_finite [of x] f32_round_finite [of y]
  by (simp add: rv_def f32_le_finite)

lemma rv_val [simp]:
  assumes "f32_ok a"
  shows "rv (f32_val a) = f32_val a"
  using assms by (cases a) (simp_all add: rv_def f32_round_def)

lemma val_add: "f32_finite a \<Longrightarrow> f32_finite b \<Longrightarrow> f32_val (f32_add a b) = rv (f32_val a + f32_val b)"
  by (cases a; cases b) (simp_all add: rv_def f32_round_def)

lemma val_sub: "f32_finite a \<Longrightarrow> f32_finite b \<Longrightarrow> f32_val (f32_sub a b) = rv (f32_val a - f32_val b)"
  by (simp add: f32_sub_def val_add)

lemma val_div:
  "f32_finite a \<Longrightarrow> f32_finite b \<Longrightarrow> f32_val b \<noteq> 0 \<Longrightarrow> f32_val (f32_div a b) = rv (f32_val a / f32_val b)"
  by (cases a; cases b) (simp_all add: rv_def f32_round_def)

lemma finite_add:
  assumes "f32_finite a" "f32_finite b" "\<bar>f32_val a + f32_val b\<bar> < 2 ^ 100"
  shows "f32_finite (f32_add a b)"
proof -
  have "f32_finite (f32_round (f32_val a + f32_val b))" by (rule f32_round_finite [OF assms(3)])
  with assms(1,2) show ?thesis by (cases a; cases b) simp_all
qed

lemma finite_div:
  assumes "f32_finite a" "f32_finite b" "f32_val b \<noteq> 0" "\<bar>f32_val a / f32_val b\<bar> < 2 ^ 100"
  shows "f32_finite (f32_div a b)"
proof -
  have "f32_finite (f32_round (f32_val a / f32_val b))" by (rule f32_round_finite [OF assms(4)])
  with assms(1,2,3) show ?thesis by (cases a; cases b) simp_all
qed

text \<open>Every datum lies on the finest grid.\<close>

lemma val_grid:
  assumes "f32_ok a"
  shows "\<exists>k. f32_val a = of_int k * 2 powi (- 149)"
proof (cases a)
  case (F_Num q)
  with assms have q: "f32_round q = F_Num q" by simp
  then have "q \<noteq> 0" by (auto simp: f32_round_def)
  with q have "round_mag \<bar>q\<bar> = \<bar>q\<bar>"
    by (auto simp: f32_round_def Let_def split: if_splits)
  then have "\<bar>q\<bar> = of_int (rne (\<bar>q\<bar> / 2 powi ulp_expo \<bar>q\<bar>)) * 2 powi ulp_expo \<bar>q\<bar>"
    by (simp add: round_mag_def Let_def)
  moreover have "- 149 \<le> ulp_expo \<bar>q\<bar>" by (simp add: ulp_expo_def)
  ultimately obtain k where k: "\<bar>q\<bar> = of_int k * 2 powi (- 149)" using on_finer_grid by metis
  show ?thesis
  proof (cases "0 \<le> q")
    case True
    with k F_Num show ?thesis by auto
  next
    case False
    with k have "q = of_int (- k) * 2 powi (- 149)" by simp
    with F_Num show ?thesis by (metis f32_val.simps(1))
  qed
qed (auto intro: exI [of _ 0])

text \<open>Half of a rounded difference, rounded again, is at most the difference.\<close>

lemma round_mag_above: "round_mag x \<le> x + 2 powi ulp_expo x / 2"
  using round_mag_error [of x] by linarith

lemma rounded_on_grid:
  assumes D: "0 < D" "D = of_int k * 2 powi (- 149)"
  obtains "round_mag D = D" | "2 powi ulp_expo D \<le> D / 8388608" "round_mag D \<le> D + D / 16777216"
proof (cases "ulp_expo D = - 149")
  case True
  have "round_mag D = D" by (rule round_mag_grid [of _ k]) (unfold True, rule D(2))
  then show thesis by (rule that(1))
next
  case False
  then have u: "ulp_expo D = expo D - 23" by (auto simp: ulp_expo_def)
  have "2 powi expo D \<le> D" using expo_bounds [OF D(1)] by simp
  then have ulp: "2 powi ulp_expo D \<le> D / 8388608"
    unfolding u by (simp add: power_int_diff)
  moreover have "round_mag D \<le> D + D / 16777216" using round_mag_above [of D] ulp by linarith
  ultimately show thesis by (rule that(2))
qed

lemma rounded_le_double:
  assumes "0 < D" "D = of_int k * 2 powi (- 149)"
  shows "round_mag D \<le> 2 * D"
  using assms by (cases rule: rounded_on_grid) (use assms(1) in linarith)+

lemma half_of_rounded:
  assumes D: "0 < D" "D = of_int k * 2 powi (- 149)"
    and e: "0 < e" "e \<le> round_mag D / 2"
  shows "round_mag e \<le> D"
  using D
proof (cases rule: rounded_on_grid)
  case 1
  have "round_mag e \<le> round_mag D" by (rule round_mag_mono) (use e 1 D(1) in simp_all)
  with 1 show ?thesis by simp
next
  case 2
  then have eD: "e \<le> D" using e D(1) by linarith
  have "(2::rat) powi ulp_expo e \<le> 2 powi ulp_expo D"
    using ulp_expo_mono [OF e(1) eD] by (intro power_int_increasing) auto
  then have "round_mag e \<le> e + D / 16777216" using round_mag_above [of e] 2(1) by linarith
  then show ?thesis using e(2) 2(2) D(1) by linarith
qed

lemma rv_step:
  assumes "m \<le> v" "\<bar>m\<bar> \<le> 2 ^ 90" "\<bar>v\<bar> \<le> 2 ^ 90" "rv m = m" "rv v = v" "2 \<le> n"
    and "v - m = of_int k * 2 powi (- 149)"
  shows "\<bar>rv (v - m)\<bar> < 2 ^ 99" "\<bar>rv (rv (v - m) / n)\<bar> < 2 ^ 99"
    and "m \<le> rv (m + rv (rv (v - m) / n))" "rv (m + rv (rv (v - m) / n)) \<le> v"
proof -
  let ?D = "v - m" and ?q = "rv (rv (v - m) / n)"
  have D: "0 \<le> ?D" "?D \<le> 2 ^ 91" using assms(1-3) by (simp_all add: abs_le_iff)
  have "0 \<le> rv ?D \<and> rv ?D \<le> 2 * ?D + 2 ^ 92 \<and> 0 \<le> ?q \<and> ?q \<le> ?D"
  proof (cases "?D = 0")
    case False
    then have pos: "0 < ?D" using D by simp
    have r: "rv ?D = round_mag ?D" using pos D by (intro rv_pos) simp_all
    have ub: "rv ?D \<le> 2 * ?D"
      unfolding r by (rule rounded_le_double [OF pos assms(7)])
    have nn: "0 \<le> rv ?D" using round_mag_nonneg [OF pos] r by simp
    show ?thesis
    proof (cases "rv ?D = 0")
      case False
      then have e: "0 < rv ?D / n" "rv ?D / n \<le> rv ?D / 2"
        using nn assms(6) by (simp, intro divide_left_mono) simp_all
      moreover have "rv ?D / 2 < 2 ^ 100" using ub D by simp
      then have "rv ?D / n < 2 ^ 100" by (rule le_less_trans [OF e(2)])
      ultimately have "rv (rv ?D / n) = round_mag (rv ?D / n)" by (intro rv_pos)
      moreover have "round_mag (rv ?D / n) \<le> ?D"
        by (rule half_of_rounded [OF pos assms(7)]) (use e r in simp_all)
      ultimately show ?thesis using nn ub D round_mag_nonneg [OF e(1)] by simp
    qed (use D in simp)
  qed (use D in simp)
  then have q: "0 \<le> rv ?D" "rv ?D \<le> 2 ^ 93" "0 \<le> ?q" "?q \<le> ?D" using D by simp_all
  show "\<bar>rv ?D\<bar> < 2 ^ 99" "\<bar>?q\<bar> < 2 ^ 99" using q D by simp_all
  have "rv m \<le> rv (m + ?q)" by (rule rv_mono) (use q D assms(2) in \<open>simp_all add: abs_le_iff abs_less_iff\<close>)
  then show "m \<le> rv (m + ?q)" using assms(4) by simp
  have "rv (m + ?q) \<le> rv v" by (rule rv_mono) (use q D assms(2,3) in \<open>simp_all add: abs_le_iff abs_less_iff\<close>)
  then show "rv (m + ?q) \<le> v" using assms(5) by simp
qed

lemma val_grid_diff:
  assumes "f32_ok a" "f32_ok b"
  shows "\<exists>k. f32_val a - f32_val b = of_int k * 2 powi (- 149)"
proof -
  obtain i j where "f32_val a = of_int i * 2 powi (- 149)" "f32_val b = of_int j * 2 powi (- 149)"
    using val_grid [OF assms(1)] val_grid [OF assms(2)] by blast
  then have "f32_val a - f32_val b = of_int (i - j) * 2 powi (- 149)" by (simp add: left_diff_distrib)
  then show ?thesis by blast
qed

text \<open>The step towards a smaller sample, by the symmetry of rounding.\<close>

lemma rv_step_down:
  assumes "v \<le> m" "\<bar>m\<bar> \<le> 2 ^ 90" "\<bar>v\<bar> \<le> 2 ^ 90" "rv m = m" "rv v = v" "2 \<le> n"
    and "m - v = of_int j * 2 powi (- 149)"
  shows "\<bar>rv (v - m)\<bar> < 2 ^ 99" "\<bar>rv (rv (v - m) / n)\<bar> < 2 ^ 99"
    and "v \<le> rv (m + rv (rv (v - m) / n))" "rv (m + rv (rv (v - m) / n)) \<le> m"
proof -
  let ?q = "rv (rv (v - m) / n)"
  have e: "rv (- v - (- m)) = - rv (v - m)" "rv (- rv (v - m) / n) = - ?q" "rv (- m + - ?q) = - rv (m + ?q)"
    using rv_neg [of "v - m"] rv_neg [of "rv (v - m) / n"] rv_neg [of "m + ?q"] by simp_all
  have j: "- v - (- m) = of_int j * 2 powi (- 149)" using assms(7) by simp
  have "- m \<le> - v" "\<bar>- m\<bar> \<le> 2 ^ 90" "\<bar>- v\<bar> \<le> 2 ^ 90" "rv (- m) = - m" "rv (- v) = - v"
    using assms(1-5) by (simp_all add: rv_neg)
  note s = rv_step [OF this assms(6) j, unfolded e]
  show "\<bar>rv (v - m)\<bar> < 2 ^ 99" "\<bar>?q\<bar> < 2 ^ 99" "v \<le> rv (m + ?q)" "rv (m + ?q) \<le> m"
    using s by simp_all
qed

lemma mean_step_between:
  assumes ok: "f32_ok m" "f32_ok v" "f32_finite m" "f32_finite v"
    and small: "\<bar>f32_val m\<bar> \<le> 2 ^ 90" "\<bar>f32_val v\<bar> \<le> 2 ^ 90"
    and n: "f32_finite n" "2 \<le> f32_val n"
  shows "f32_finite (f32_sub v m)" "f32_finite (f32_mean_step m v n)"
    and "f32_val m \<le> f32_val v \<Longrightarrow>
      f32_val m \<le> f32_val (f32_mean_step m v n) \<and> f32_val (f32_mean_step m v n) \<le> f32_val v"
    and "f32_val v \<le> f32_val m \<Longrightarrow>
      f32_val v \<le> f32_val (f32_mean_step m v n) \<and> f32_val (f32_mean_step m v n) \<le> f32_val m"
proof -
  let ?m = "f32_val m" and ?v = "f32_val v" and ?n = "f32_val n"
  obtain i where i: "?v - ?m = of_int i * 2 powi (- 149)" using val_grid_diff [OF ok(2,1)] by blast
  obtain j where j: "?m - ?v = of_int j * 2 powi (- 149)" using val_grid_diff [OF ok(1,2)] by blast
  let ?q = "rv (rv (?v - ?m) / ?n)"
  have up: "\<bar>rv (?v - ?m)\<bar> < 2 ^ 99 \<and> \<bar>?q\<bar> < 2 ^ 99 \<and> ?m \<le> rv (?m + ?q) \<and> rv (?m + ?q) \<le> ?v"
    if "?m \<le> ?v"
    using rv_step [OF that small rv_val [OF ok(1)] rv_val [OF ok(2)] n(2) i] by blast
  have down: "\<bar>rv (?v - ?m)\<bar> < 2 ^ 99 \<and> \<bar>?q\<bar> < 2 ^ 99 \<and> ?v \<le> rv (?m + ?q) \<and> rv (?m + ?q) \<le> ?m"
    if "?v \<le> ?m"
    using rv_step_down [OF that small rv_val [OF ok(1)] rv_val [OF ok(2)] n(2) j] by blast
  have b: "\<bar>rv (?v - ?m)\<bar> < 2 ^ 99" "\<bar>?q\<bar> < 2 ^ 99" using up down by linarith+
  have d: "f32_finite (f32_sub v m)"
    unfolding f32_sub_def by (rule finite_add) (use ok small in \<open>simp_all add: abs_le_iff abs_less_iff\<close>)
  then show "f32_finite (f32_sub v m)" .
  have vd: "f32_val (f32_sub v m) = rv (?v - ?m)" by (rule val_sub [OF ok(4,3)])
  have "\<bar>rv (?v - ?m) / ?n\<bar> \<le> \<bar>rv (?v - ?m)\<bar>"
    using n(2) by (simp add: abs_divide pos_divide_le_eq mult_le_cancel_left1)
  then have q: "f32_finite (f32_div (f32_sub v m) n)"
    using b(1) n vd by (intro finite_div d) simp_all
  have vq: "f32_val (f32_div (f32_sub v m) n) = ?q"
    using val_div [OF d n(1)] n(2) vd by simp
  show "f32_finite (f32_mean_step m v n)"
    unfolding f32_mean_step_def
    by (rule finite_add [OF ok(3) q]) (use b(2) small(1) vq in \<open>simp add: abs_le_iff abs_less_iff\<close>)
  have "f32_val (f32_mean_step m v n) = rv (?m + ?q)"
    unfolding f32_mean_step_def by (simp add: val_add [OF ok(3) q] vq)
  with up down show "?m \<le> ?v \<Longrightarrow>
      ?m \<le> f32_val (f32_mean_step m v n) \<and> f32_val (f32_mean_step m v n) \<le> ?v"
    "?v \<le> ?m \<Longrightarrow> ?v \<le> f32_val (f32_mean_step m v n) \<and> f32_val (f32_mean_step m v n) \<le> ?m"
    by simp_all
qed

text \<open>The first step, from zero with count 1, yields the value.\<close>

lemma mean_step_first:
  assumes "f32_ok v" "f32_finite v"
  shows "f32_finite (f32_mean_step (F_Zero False) v (F_Num 1))"
    "f32_val (f32_mean_step (F_Zero False) v (F_Num 1)) = f32_val v"
  using assms by (cases v; simp add: f32_mean_step_def f32_sub_def f32_round_def)+

lemma mean_step_ok [simp]: "f32_ok m \<Longrightarrow> f32_ok v \<Longrightarrow> f32_ok n \<Longrightarrow> f32_ok (f32_mean_step m v n)"
  by (simp add: f32_mean_step_def)

text \<open>Counts as floats.\<close>

lemma f32_of_word_two:
  fixes w :: "'a::len word"
  assumes "2 \<le> unat w" "LENGTH('a) \<le> 64"
  shows "f32_finite (f32_of_word w)" "2 \<le> f32_val (f32_of_word w)"
proof -
  show f: "f32_finite (f32_of_word w)" by (rule f32_of_word_bounds(1) [OF assms(2)])
  have "(of_nat 2 :: rat) \<le> of_nat (unat w)" using assms(1) by (simp only: of_nat_le_iff)
  then have "f32_le (f32_lit 2) (f32_of_word w)" unfolding f32_of_word_def of_nat_numeral by (rule f32_round_mono)
  moreover have "f32_round 2 = F_Num 2" by code_simp
  ultimately show "2 \<le> f32_val (f32_of_word w)" using f by (cases "f32_of_word w") (auto simp: f32_le_def)
qed

lemma f32_of_word_1 [simp]: "f32_of_word (1 :: 'a::len word) = F_Num 1"
  by (simp add: f32_of_word_def f32_round_1)

end
