(* ===== verification/Trend_Engine.thy ===== *)
theory Trend_Engine
  imports Dali_Prelude Float_Mean "HOL-Library.Multiset"
begin

text \<open>
  Rolling statistics and trends, \<open>trend_engine.h/.cpp\<close>: Welford's mean and deviation with the
  extremes, and the ring of the last 1024 samples with its windows, weighted average and rate.
\<close>

section \<open>Square root\<close>

text \<open>
  \<open>std::sqrt\<close> on \<open>float\<close> rounds correctly. The last place of the root is the integer root of
  the radicand scaled to 46 or 47 bits; an exact half never occurs (its square would need 50
  bits).
\<close>

fun isqrt :: "nat \<Rightarrow> nat" where
  "isqrt n = (if n = 0 then 0 else let r = 2 * isqrt (n div 4) in if (r + 1)\<^sup>2 \<le> n then r + 1 else r)"

declare isqrt.simps [simp del]

lemma isqrt_bounds: "(isqrt n)\<^sup>2 \<le> n \<and> n < (isqrt n + 1)\<^sup>2"
proof (induction n rule: isqrt.induct)
  case (1 n)
  show ?case
  proof (cases "n = 0")
    case False
    define k where "k = isqrt (n div 4)"
    have k: "k\<^sup>2 \<le> n div 4" "n div 4 < (k + 1)\<^sup>2" using 1 [OF False] by (simp_all add: k_def)
    have "4 * k\<^sup>2 \<le> n" using k(1) by linarith
    then have lo: "(2 * k)\<^sup>2 \<le> n" by (simp add: power2_eq_square)
    have "n < 4 * (k + 1)\<^sup>2" using k(2) by linarith
    then have hi: "n < (2 * k + 2)\<^sup>2" by (simp add: power2_eq_square algebra_simps)
    have s: "isqrt n = (if (2 * k + 1)\<^sup>2 \<le> n then 2 * k + 1 else 2 * k)"
      using False by (subst isqrt.simps) (simp add: k_def Let_def)
    show ?thesis using lo hi unfolding s by (auto simp: numeral_2_eq_2)
  qed (simp add: isqrt.simps)
qed

fun f32_sqrt :: "f32 \<Rightarrow> f32" where
  "f32_sqrt F_NaN = F_NaN"
| "f32_sqrt (F_Inf s) = (if s then F_NaN else F_Inf False)"
| "f32_sqrt (F_Zero s) = F_Zero s"
| "f32_sqrt (F_Num q) =
     (if q < 0 then F_NaN
      else let u = 2 powi (expo q div 2 - 23);
               y = q / u\<^sup>2;
               m = isqrt (nat \<lfloor>y\<rfloor>)
           in F_Num (of_nat (if (of_nat m + 1 / 2)\<^sup>2 < y then m + 1 else m) * u))"

lemma f32_sqrt_nonneg: "f32_le (F_Zero s) x \<Longrightarrow> f32_le (F_Zero s) (f32_sqrt x)"
  by (cases x) (auto simp: f32_le_def Let_def)

section \<open>Rolling statistics\<close>

record RollingBaseline =
  rb_count :: "32 word"
  rb_mean :: f32
  rb_m2 :: f32
  rb_minimum :: f32
  rb_maximum :: f32

definition RollingBaseline_init :: RollingBaseline where
  "RollingBaseline_init = \<lparr>rb_count = 0, rb_mean = f32_lit 0, rb_m2 = f32_lit 0,
     rb_minimum = f32_lit 0, rb_maximum = f32_lit 0\<rparr>"

definition rb_add :: "f32 \<Rightarrow> RollingBaseline \<Rightarrow> RollingBaseline" where
  "rb_add value b =
     (let b = (if rb_count b = 0 then b\<lparr>rb_maximum := value, rb_minimum := value\<rparr>
               else
                 let b = (if f32_lt value (rb_minimum b) then b\<lparr>rb_minimum := value\<rparr> else b)
                 in if f32_lt (rb_maximum b) value then b\<lparr>rb_maximum := value\<rparr> else b);
          b = b\<lparr>rb_count := rb_count b + 1\<rparr>;
          delta = f32_sub value (rb_mean b);
          b = b\<lparr>rb_mean := f32_add (rb_mean b) (f32_div delta (f32_of_word (rb_count b)))\<rparr>;
          delta2 = f32_sub value (rb_mean b)
      in b\<lparr>rb_m2 := f32_add (rb_m2 b) (f32_mul delta delta2)\<rparr>)"

definition rb_sampleCount :: "RollingBaseline \<Rightarrow> 32 word" where
  [simp]: "rb_sampleCount b = rb_count b"

definition rb_getMean :: "RollingBaseline \<Rightarrow> f32" where
  [simp]: "rb_getMean b = rb_mean b"

definition rb_standardDeviation :: "RollingBaseline \<Rightarrow> f32" where
  "rb_standardDeviation b =
     (if rb_count b < 2 then f32_lit 0
      else f32_sqrt (f32_div (rb_m2 b) (f32_of_word (rb_count b - 1))))"

definition rb_getMinimum :: "RollingBaseline \<Rightarrow> f32" where
  "rb_getMinimum b = (if rb_count b = 0 then f32_lit 0 else rb_minimum b)"

definition rb_getMaximum :: "RollingBaseline \<Rightarrow> f32" where
  "rb_getMaximum b = (if rb_count b = 0 then f32_lit 0 else rb_maximum b)"

section \<open>Trend series\<close>

record Sample =
  sm_timestampMs :: "64 word"
  sm_value :: f32

record TrendResult =
  tr_sampleCount :: "32 word"
  tr_sevenDayAverage :: f32
  tr_thirtyDayAverage :: f32
  tr_exponentiallyWeightedAverage :: f32
  tr_rateOfChange :: f32
  tr_statisticallyMeaningful :: bool

definition kTrendCapacity :: nat where "kTrendCapacity = 1024"

record TrendSeries =
  ts_samples :: "Sample list"
  ts_next :: nat
  ts_count :: nat

definition TrendSeries_init :: TrendSeries where
  "TrendSeries_init = \<lparr>ts_samples = replicate kTrendCapacity \<lparr>sm_timestampMs = 0, sm_value = f32_lit 0\<rparr>,
     ts_next = 0, ts_count = 0\<rparr>"

definition ts_add :: "64 word \<Rightarrow> f32 \<Rightarrow> TrendSeries \<Rightarrow> TrendSeries" where
  "ts_add timestampMs value s =
     (let s = s\<lparr>ts_samples := (ts_samples s)[ts_next s := \<lparr>sm_timestampMs = timestampMs, sm_value = value\<rparr>]\<rparr>;
          s = s\<lparr>ts_next := (ts_next s + 1) mod kTrendCapacity\<rparr>
      in if ts_count s < kTrendCapacity then s\<lparr>ts_count := ts_count s + 1\<rparr> else s)"

definition sevenDaysMs :: "64 word" where "sevenDaysMs = 7 * 24 * 3600000"
definition thirtyDaysMs :: "64 word" where "thirtyDaysMs = 30 * 24 * 3600000"

text \<open>The local variables of \<open>evaluate\<close> and one turn of its loop.\<close>

record trend_acc =
  ta_sevenSum :: f32
  ta_thirtySum :: f32
  ta_ewma :: f32
  ta_oldest :: f32
  ta_newest :: f32
  ta_sevenCount :: "32 word"
  ta_thirtyCount :: "32 word"
  ta_oldestTime :: "64 word"
  ta_newestTime :: "64 word"

definition trend_acc_init :: "64 word \<Rightarrow> trend_acc" where
  "trend_acc_init nowMs = \<lparr>ta_sevenSum = f32_lit 0, ta_thirtySum = f32_lit 0, ta_ewma = f32_lit 0,
     ta_oldest = f32_lit 0, ta_newest = f32_lit 0, ta_sevenCount = 0, ta_thirtyCount = 0,
     ta_oldestTime = nowMs, ta_newestTime = 0\<rparr>"

definition trend_step :: "64 word \<Rightarrow> Sample \<Rightarrow> trend_acc \<Rightarrow> trend_acc" where
  "trend_step nowMs sample a =
     (if nowMs < sm_timestampMs sample then a
      else
        let age = nowMs - sm_timestampMs sample;
            a = (if age \<le> thirtyDaysMs
                 then a\<lparr>ta_thirtySum := f32_add (ta_thirtySum a) (sm_value sample),
                        ta_thirtyCount := ta_thirtyCount a + 1\<rparr> else a);
            a = (if age \<le> sevenDaysMs
                 then a\<lparr>ta_sevenSum := f32_add (ta_sevenSum a) (sm_value sample),
                        ta_sevenCount := ta_sevenCount a + 1\<rparr> else a);
            a = (if sm_timestampMs sample < ta_oldestTime a
                 then a\<lparr>ta_oldestTime := sm_timestampMs sample, ta_oldest := sm_value sample\<rparr> else a);
            a = (if ta_newestTime a \<le> sm_timestampMs sample
                 then a\<lparr>ta_newestTime := sm_timestampMs sample, ta_newest := sm_value sample\<rparr> else a)
        in a\<lparr>ta_ewma := (if f32_eq (ta_ewma a) (f32_lit 0) then sm_value sample
               else f32_add (f32_mul (f32_lit (2 / 10)) (sm_value sample))
                            (f32_mul (f32_lit (8 / 10)) (ta_ewma a)))\<rparr>)"

definition ts_evaluate :: "64 word \<Rightarrow> TrendSeries \<Rightarrow> TrendResult" where
  "ts_evaluate nowMs s =
     (let a = fold (\<lambda>i. trend_step nowMs (ts_samples s ! i)) [0..<ts_count s] (trend_acc_init nowMs);
          rate = (if ta_oldestTime a < ta_newestTime a
                  then f32_div (f32_sub (ta_newest a) (ta_oldest a)) (f32_of_word (ta_newestTime a - ta_oldestTime a))
                  else f32_lit 0);
          sevenAverage = (if ta_sevenCount a = 0 then f32_lit 0
                          else f32_div (ta_sevenSum a) (f32_of_word (ta_sevenCount a)));
          thirtyAverage = (if ta_thirtyCount a = 0 then f32_lit 0
                           else f32_div (ta_thirtySum a) (f32_of_word (ta_thirtyCount a)))
      in \<lparr>tr_sampleCount = ta_thirtyCount a, tr_sevenDayAverage = sevenAverage,
          tr_thirtyDayAverage = thirtyAverage, tr_exponentiallyWeightedAverage = ta_ewma a,
          tr_rateOfChange = rate,
          tr_statisticallyMeaningful = (10 \<le> ta_thirtyCount a \<and>
            f32_lt (f32_lit (1 / 1000000)) (f32_abs rate))\<rparr>)"

section \<open>The rolling statistics are those of the samples\<close>

text \<open>A sample a sensor can deliver: a finite number of magnitude at most \<open>2 ^ 90\<close>.\<close>

definition sample_ok :: "f32 \<Rightarrow> bool" where
  "sample_ok v \<longleftrightarrow> f32_ok v \<and> f32_finite v \<and> \<bar>f32_val v\<bar> \<le> 2 ^ 90"

lemma f32_lit_0 [simp]: "f32_round 0 = F_Zero False"
  by (simp add: f32_round_def)

lemma mul_nonneg:
  "f32_finite a \<Longrightarrow> f32_finite b \<Longrightarrow> 0 \<le> f32_val a * f32_val b \<Longrightarrow> f32_le (F_Zero False) (f32_mul a b)"
  by (cases a; cases b) (simp_all add: f32_round_sign(1), simp_all add: f32_le_def)

lemma add_nonneg:
  assumes "f32_le (F_Zero False) a" "f32_le (F_Zero False) b"
  shows "f32_le (F_Zero False) (f32_add a b)"
proof (cases "f32_finite a \<and> f32_finite b")
  case True
  then have "0 \<le> f32_val a + f32_val b" using assms by (simp add: f32_le_finite)
  from f32_round_sign(1) [OF this] True show ?thesis by (simp add: f32_add_finite)
qed (use assms in \<open>cases a; cases b; auto simp: f32_le_def\<close>)

lemma div_nonneg:
  assumes "f32_le (F_Zero False) a" "f32_finite n" "1 \<le> f32_val n"
  shows "f32_le (F_Zero False) (f32_div a n)"
proof -
  obtain q where n: "n = F_Num q" "1 \<le> q" using assms(2,3) by (cases n) simp_all
  show ?thesis
  proof (cases a)
    case (F_Num p)
    then have "0 \<le> p / q" using assms(1) n(2) by (simp add: f32_le_def)
    then show ?thesis using F_Num n(1) by (simp add: f32_round_sign(1))
  qed (use assms(1) n in \<open>auto simp: f32_le_def\<close>)
qed

text \<open>What holds after the samples \<open>xs\<close>.\<close>

definition rb_inv :: "f32 list \<Rightarrow> RollingBaseline \<Rightarrow> bool" where
  "rb_inv xs b \<longleftrightarrow> unat (rb_count b) = length xs \<and> f32_le (F_Zero False) (rb_m2 b) \<and> sample_ok (rb_mean b) \<and>
     (if xs = [] then rb_mean b = F_Zero False
      else rb_minimum b \<in> set xs \<and> rb_maximum b \<in> set xs \<and>
        (\<forall>x \<in> set xs. f32_le (rb_minimum b) x \<and> f32_le x (rb_maximum b)) \<and>
        f32_le (rb_minimum b) (rb_mean b) \<and> f32_le (rb_mean b) (rb_maximum b))"

lemma rb_add_mean:
  "rb_mean (rb_add v b) = f32_mean_step (rb_mean b) v (f32_of_word (rb_count b + 1))"
  "rb_count (rb_add v b) = rb_count b + 1"
  "rb_m2 (rb_add v b) = f32_add (rb_m2 b) (f32_mul (f32_sub v (rb_mean b)) (f32_sub v (rb_mean (rb_add v b))))"
  "rb_minimum (rb_add v b) = (if rb_count b = 0 \<or> f32_lt v (rb_minimum b) then v else rb_minimum b)"
  "rb_maximum (rb_add v b) = (if rb_count b = 0 \<or> f32_lt (rb_maximum b) v then v else rb_maximum b)"
  by (auto simp: rb_add_def f32_mean_step_def Let_def)

lemma sub_finite: "sample_ok a \<Longrightarrow> sample_ok b \<Longrightarrow> f32_finite (f32_sub a b)"
  unfolding f32_sub_def by (rule finite_add) (auto simp: sample_ok_def abs_le_iff abs_less_iff)

lemma sub_sign:
  assumes "sample_ok a" "sample_ok b"
  shows "f32_val b \<le> f32_val a \<Longrightarrow> 0 \<le> f32_val (f32_sub a b)"
    "f32_val a \<le> f32_val b \<Longrightarrow> f32_val (f32_sub a b) \<le> 0"
proof -
  have v: "f32_val (f32_sub a b) = rv (f32_val a - f32_val b)" "\<bar>f32_val a - f32_val b\<bar> < 2 ^ 100"
    using assms by (auto simp: sample_ok_def val_sub abs_le_iff abs_less_iff)
  show "f32_val b \<le> f32_val a \<Longrightarrow> 0 \<le> f32_val (f32_sub a b)"
    "f32_val a \<le> f32_val b \<Longrightarrow> f32_val (f32_sub a b) \<le> 0"
    using rv_mono [of 0 "f32_val a - f32_val b"] rv_mono [of "f32_val a - f32_val b" 0] v by simp_all
qed

lemma sample_not_NaN: "sample_ok a \<Longrightarrow> a \<noteq> F_NaN"
  by (auto simp: sample_ok_def)

lemma sample_between:
  assumes "sample_ok a" "sample_ok c" "f32_ok b" "f32_finite b" "f32_val a \<le> f32_val b" "f32_val b \<le> f32_val c"
  shows "sample_ok b"
  using assms by (auto simp: sample_ok_def abs_le_iff)

text \<open>One step of the mean, whichever side of it the new sample is on.\<close>

lemma sample_le: "sample_ok a \<Longrightarrow> sample_ok b \<Longrightarrow> f32_le a b \<longleftrightarrow> f32_val a \<le> f32_val b"
  by (simp add: sample_ok_def f32_le_finite)

lemma rb_mean_sides:
  assumes m: "sample_ok m" and v: "sample_ok v" and n: "2 \<le> unat (n :: 32 word)"
  defines "s \<equiv> f32_mean_step m v (f32_of_word n)"
  shows "sample_ok s \<and> (f32_le m v \<longrightarrow> f32_le m s \<and> f32_le s v) \<and> (f32_le v m \<longrightarrow> f32_le v s \<and> f32_le s m)"
proof -
  have c: "f32_finite (f32_of_word n)" "2 \<le> f32_val (f32_of_word n)"
    using f32_of_word_two [OF n] by simp_all
  have mv: "f32_ok m" "f32_ok v" "f32_finite m" "f32_finite v" "\<bar>f32_val m\<bar> \<le> 2 ^ 90" "\<bar>f32_val v\<bar> \<le> 2 ^ 90"
    using m v by (simp_all add: sample_ok_def)
  note b = mean_step_between [OF mv c, folded s_def]
  have ok: "f32_ok s" using mv by (simp add: s_def)
  have "sample_ok s"
    using sample_between [OF m v ok b(2)] sample_between [OF v m ok b(2)] b(3,4) by linarith
  then show ?thesis using b(3,4) sample_le m v by simp
qed

lemma rb_mean_between:
  assumes m: "sample_ok m" and v: "sample_ok v" and n: "2 \<le> unat (n :: 32 word)"
  shows "sample_ok (f32_mean_step m v (f32_of_word n))"
    and "f32_le lo m \<Longrightarrow> f32_le lo v \<Longrightarrow> f32_le lo (f32_mean_step m v (f32_of_word n))"
    and "f32_le m hi \<Longrightarrow> f32_le v hi \<Longrightarrow> f32_le (f32_mean_step m v (f32_of_word n)) hi"
    and "0 \<le> f32_val (f32_sub v m) * f32_val (f32_sub v (f32_mean_step m v (f32_of_word n)))"
proof -
  let ?s = "f32_mean_step m v (f32_of_word n)"
  note s = rb_mean_sides [OF m v n]
  have so: "sample_ok ?s" using s by blast
  have side: "f32_le m v \<or> f32_le v m" using sample_le m v by auto
  show "sample_ok ?s" by (rule so)
  show "f32_le lo m \<Longrightarrow> f32_le lo v \<Longrightarrow> f32_le lo ?s" using s side f32_le_trans by blast
  show "f32_le m hi \<Longrightarrow> f32_le v hi \<Longrightarrow> f32_le ?s hi" using s side f32_le_trans by blast
  show "0 \<le> f32_val (f32_sub v m) * f32_val (f32_sub v ?s)"
    using side
  proof
    assume "f32_le m v"
    then have "f32_val m \<le> f32_val v" "f32_val ?s \<le> f32_val v" using s sample_le m v so by blast+
    then show ?thesis using sub_sign(1) [OF v m] sub_sign(1) [OF v so] by simp
  next
    assume "f32_le v m"
    then have "f32_val v \<le> f32_val m" "f32_val v \<le> f32_val ?s" using s sample_le m v so by blast+
    then show ?thesis using sub_sign(2) [OF v m] sub_sign(2) [OF v so] by (simp add: mult_nonpos_nonpos)
  qed
qed

text \<open>One step of the extremes.\<close>

lemma rb_extremes_step:
  assumes b: "rb_minimum b \<in> set xs" "rb_maximum b \<in> set xs"
      "\<forall>x \<in> set xs. f32_le (rb_minimum b) x \<and> f32_le x (rb_maximum b)"
    and v: "v \<noteq> F_NaN" and nz: "rb_count b \<noteq> 0"
  shows "rb_minimum (rb_add v b) \<in> set (xs @ [v])" "rb_maximum (rb_add v b) \<in> set (xs @ [v])"
    and "f32_le (rb_minimum (rb_add v b)) (rb_minimum b)" "f32_le (rb_maximum b) (rb_maximum (rb_add v b))"
    and "f32_le (rb_minimum (rb_add v b)) v" "f32_le v (rb_maximum (rb_add v b))"
    and "\<forall>x \<in> set (xs @ [v]). f32_le (rb_minimum (rb_add v b)) x \<and> f32_le x (rb_maximum (rb_add v b))"
proof -
  have nn: "rb_minimum b \<noteq> F_NaN" "rb_maximum b \<noteq> F_NaN" using b by (force simp: f32_le_def)+
  show lo: "f32_le (rb_minimum (rb_add v b)) (rb_minimum b)" "f32_le (rb_minimum (rb_add v b)) v"
    using nn v nz b(1,3) f32_not_le [of "rb_minimum b" v] by (auto simp: rb_add_mean f32_lt_imp_le)
  show hi: "f32_le (rb_maximum b) (rb_maximum (rb_add v b))" "f32_le v (rb_maximum (rb_add v b))"
    using nn v nz b(2,3) f32_not_le [of v "rb_maximum b"] by (auto simp: rb_add_mean f32_lt_imp_le)
  show "\<forall>x \<in> set (xs @ [v]). f32_le (rb_minimum (rb_add v b)) x \<and> f32_le x (rb_maximum (rb_add v b))"
    using b(3) lo hi by (auto intro: f32_le_trans)
  show "rb_minimum (rb_add v b) \<in> set (xs @ [v])" "rb_maximum (rb_add v b) \<in> set (xs @ [v])"
    using b(1,2) by (simp_all add: rb_add_mean)
qed

lemma rb_add_keeps:
  assumes inv: "rb_inv xs b" and v: "sample_ok v" and n: "length xs + 1 < 2 ^ 32"
  shows "rb_inv (xs @ [v]) (rb_add v b)"
proof -
  have c: "unat (rb_count b + 1) = length (xs @ [v])"
    using inv n by (simp add: rb_inv_def unat_word_ariths)
  have m: "sample_ok (rb_mean b)" using inv by (simp add: rb_inv_def)
  have m2: "f32_le (F_Zero False) (rb_m2 b)" using inv by (simp add: rb_inv_def)
  show ?thesis
  proof (cases "xs = []")
    case True
    then have z: "rb_mean b = F_Zero False" "rb_count b = 0" using inv by (simp_all add: rb_inv_def unat_eq_0)
    have "rb_mean (rb_add v b) = f32_mean_step (F_Zero False) v (F_Num 1)"
      using z by (simp add: rb_add_mean)
    then have s: "f32_finite (rb_mean (rb_add v b))" "f32_val (rb_mean (rb_add v b)) = f32_val v"
      "f32_ok (rb_mean (rb_add v b))"
      using mean_step_first [of v] v by (simp_all add: sample_ok_def f32_round_1)
    then have so: "sample_ok (rb_mean (rb_add v b))" using v by (simp add: sample_ok_def)
    have "f32_val (f32_sub v (rb_mean (rb_add v b))) = 0"
      using sub_sign [OF v so] s(2) by simp
    then have "f32_le (F_Zero False) (rb_m2 (rb_add v b))"
      unfolding rb_add_mean(3) by (intro add_nonneg m2 mul_nonneg sub_finite v so m) simp
    then show ?thesis using c so s v True z sample_not_NaN [OF v]
      by (simp add: rb_inv_def rb_add_mean f32_le_finite sample_ok_def)
  next
    case False
    have two: "2 \<le> unat (rb_count b + 1)" using c False by (cases xs) simp_all
    note step = rb_mean_between [OF m v two, folded rb_add_mean(1)]
    have so: "sample_ok (rb_mean (rb_add v b))" by (rule step(1))
    have m2': "f32_le (F_Zero False) (rb_m2 (rb_add v b))"
      unfolding rb_add_mean(3) by (intro add_nonneg m2 mul_nonneg sub_finite v so m step(4))
    have nz: "rb_count b \<noteq> 0" using inv False by (auto simp: rb_inv_def)
    have b: "rb_minimum b \<in> set xs" "rb_maximum b \<in> set xs"
      "\<forall>x \<in> set xs. f32_le (rb_minimum b) x \<and> f32_le x (rb_maximum b)"
      "f32_le (rb_minimum b) (rb_mean b)" "f32_le (rb_mean b) (rb_maximum b)"
      using inv False by (simp_all add: rb_inv_def)
    note ext = rb_extremes_step [OF b(1-3) sample_not_NaN [OF v] nz]
    have "f32_le (rb_minimum (rb_add v b)) (rb_mean (rb_add v b))"
      "f32_le (rb_mean (rb_add v b)) (rb_maximum (rb_add v b))"
      using step(2,3) ext(3-6) b(4,5) f32_le_trans by blast+
    with ext(1,2,7)
    show ?thesis using c so m2' by (simp add: rb_inv_def rb_add_mean(2))
  qed
qed

lemma rb_fold:
  assumes "\<forall>x \<in> set xs. sample_ok x" "length xs < 2 ^ 32"
  shows "rb_inv xs (fold rb_add xs RollingBaseline_init)"
  using assms
proof (induction xs rule: rev_induct)
  case Nil
  then show ?case by (simp add: rb_inv_def RollingBaseline_init_def sample_ok_def)
next
  case (snoc x xs)
  then show ?case using rb_add_keeps [of xs "fold rb_add xs RollingBaseline_init" x] by simp
qed

section \<open>The ring of samples\<close>

definition add_all :: "Sample list \<Rightarrow> TrendSeries \<Rightarrow> TrendSeries" where
  "add_all ss s = fold (\<lambda>x. ts_add (sm_timestampMs x) (sm_value x)) ss s"

definition ts_inv :: "Sample list \<Rightarrow> TrendSeries \<Rightarrow> bool" where
  "ts_inv ss s \<longleftrightarrow> length (ts_samples s) = kTrendCapacity \<and> ts_count s = min (length ss) kTrendCapacity \<and>
     ts_next s = length ss mod kTrendCapacity \<and>
     (\<forall>j < length ss. length ss - kTrendCapacity \<le> j \<longrightarrow> ts_samples s ! (j mod kTrendCapacity) = ss ! j)"

lemma add_all_inv: "ts_inv ss (add_all ss TrendSeries_init)"
proof (induction ss rule: rev_induct)
  case Nil
  then show ?case by (simp add: ts_inv_def add_all_def TrendSeries_init_def)
next
  case (snoc x ss)
  let ?s = "add_all ss TrendSeries_init" and ?n = "length ss"
  let ?s' = "ts_add (sm_timestampMs x) (sm_value x) ?s"
  have c: "0 < kTrendCapacity" by (simp add: kTrendCapacity_def)
  have inv: "length (ts_samples ?s) = kTrendCapacity" "ts_count ?s = min ?n kTrendCapacity"
    "ts_next ?s = ?n mod kTrendCapacity"
    "\<And>j. j < ?n \<Longrightarrow> ?n - kTrendCapacity \<le> j \<Longrightarrow> ts_samples ?s ! (j mod kTrendCapacity) = ss ! j"
    using snoc by (simp_all add: ts_inv_def)
  have x: "\<lparr>sm_timestampMs = sm_timestampMs x, sm_value = sm_value x\<rparr> = x" by (cases x) simp
  have s': "ts_samples ?s' = (ts_samples ?s)[?n mod kTrendCapacity := x]"
    "ts_next ?s' = Suc ?n mod kTrendCapacity" "ts_count ?s' = min (Suc ?n) kTrendCapacity"
    using inv(2,3) by (auto simp: ts_add_def Let_def mod_Suc_eq x)
  have "ts_samples ?s' ! (j mod kTrendCapacity) = (ss @ [x]) ! j"
    if j: "j < Suc ?n" "Suc ?n - kTrendCapacity \<le> j" for j
  proof (cases "j = ?n")
    case True
    then show ?thesis using inv(1) c by (simp add: s' nth_append)
  next
    case False
    then have lt: "j < ?n" using j by simp
    have "j mod kTrendCapacity \<noteq> ?n mod kTrendCapacity"
    proof
      assume "j mod kTrendCapacity = ?n mod kTrendCapacity"
      then have "kTrendCapacity dvd ?n - j" using lt by (metis less_imp_le mod_eq_dvd_iff_nat)
      then have "kTrendCapacity \<le> ?n - j" using lt by (intro dvd_imp_le) simp_all
      with j lt show False by simp
    qed
    then show ?thesis using inv(4) [OF lt] j lt by (simp add: s' nth_append nth_list_update_neq)
  qed
  then show ?case using inv(1) s' by (simp add: ts_inv_def add_all_def less_Suc_eq)
qed

text \<open>
  The used slots hold the last 1024 samples: in order of arrival until the ring wraps, rotated
  afterwards. \<open>evaluate\<close> goes through them in the order of the slots.
\<close>

definition last_samples :: "Sample list \<Rightarrow> Sample list" where
  "last_samples ss = drop (length ss - kTrendCapacity) ss"

definition slot_order :: "Sample list \<Rightarrow> Sample list" where
  "slot_order ss =
     rotate (if length ss \<le> kTrendCapacity then 0 else kTrendCapacity - length ss mod kTrendCapacity) (last_samples ss)"

lemma mset_rotate: "mset (rotate k xs) = mset xs"
  by (metis append_take_drop_id mset_append rotate_drop_take union_commute)

lemma slot_order_same: "mset (slot_order ss) = mset (last_samples ss)"
  "set (slot_order ss) = set (last_samples ss)"
  by (simp_all add: slot_order_def mset_rotate)

lemma slot_order_unwrapped: "length ss \<le> kTrendCapacity \<Longrightarrow> slot_order ss = ss"
  by (simp add: slot_order_def last_samples_def)

lemma ts_slots:
  assumes "ts_inv ss s"
  shows "map (\<lambda>i. ts_samples s ! i) [0..<ts_count s] = slot_order ss"
proof (cases "length ss \<le> kTrendCapacity")
  case True
  then show ?thesis using assms
    by (intro nth_equalityI) (force simp: ts_inv_def slot_order_unwrapped)+
next
  case False
  let ?c = kTrendCapacity and ?n = "length ss" and ?k = "kTrendCapacity - length ss mod kTrendCapacity"
  have c: "0 < ?c" by (simp add: kTrendCapacity_def)
  have len: "length (last_samples ss) = ?c" using False by (simp add: last_samples_def)
  show ?thesis
  proof (rule nth_equalityI)
    show "length (map (\<lambda>i. ts_samples s ! i) [0..<ts_count s]) = length (slot_order ss)"
      using assms False len by (simp add: ts_inv_def slot_order_def)
  next
    fix i assume "i < length (map (\<lambda>i. ts_samples s ! i) [0..<ts_count s])"
    then have i: "i < ?c" using assms False by (simp add: ts_inv_def)
    let ?j = "?n - ?c + (i + ?k) mod ?c"
    have "?n - ?c + (i + ?k) = ?n - ?n mod ?c + i"
      using False c mod_less_divisor [OF c, of ?n] by linarith
    then have "?j mod ?c = (?n - ?n mod ?c + i) mod ?c" by (metis mod_add_right_eq)
    also have "\<dots> = i" using i by (simp add: minus_mod_eq_mult_div)
    finally have slot: "?j mod ?c = i" .
    have lt: "(i + ?k) mod ?c < ?c" by (rule mod_less_divisor [OF c])
    then have j: "?j < ?n" "?n - ?c \<le> ?j" using False by linarith+
    have "ts_samples s ! i = ss ! ?j" using assms j slot by (force simp: ts_inv_def)
    also have "\<dots> = slot_order ss ! i"
      using False i len lt by (simp add: slot_order_def nth_rotate last_samples_def ac_simps)
    finally show "map (\<lambda>i. ts_samples s ! i) [0..<ts_count s] ! i = slot_order ss ! i"
      using assms False i by (simp add: ts_inv_def)
  qed
qed

lemma evaluate_fold:
  "fold (\<lambda>i. trend_step nowMs (ts_samples (add_all ss TrendSeries_init) ! i))
     [0..<ts_count (add_all ss TrendSeries_init)] a = fold (trend_step nowMs) (slot_order ss) a"
  unfolding ts_slots [OF add_all_inv, symmetric] by (simp add: fold_map comp_def)

section \<open>What the loop accumulates\<close>

definition in_window :: "64 word \<Rightarrow> 64 word \<Rightarrow> Sample \<Rightarrow> bool" where
  "in_window nowMs width x \<longleftrightarrow> sm_timestampMs x \<le> nowMs \<and> nowMs - sm_timestampMs x \<le> width"

definition f32_mean :: "f32 list \<Rightarrow> f32" where
  "f32_mean xs = (if xs = [] then F_Zero False
     else f32_div (fold (\<lambda>x sum. f32_add sum x) xs (F_Zero False)) (f32_of_word (of_nat (length xs) :: 32 word)))"

lemma trend_fold_windows:
  "ta_thirtyCount (fold (trend_step nowMs) xs a) = ta_thirtyCount a +
     of_nat (length (filter (in_window nowMs thirtyDaysMs) xs))"
  "ta_sevenCount (fold (trend_step nowMs) xs a) = ta_sevenCount a +
     of_nat (length (filter (in_window nowMs sevenDaysMs) xs))"
  "ta_thirtySum (fold (trend_step nowMs) xs a) =
     fold (\<lambda>x sum. f32_add sum x) (map sm_value (filter (in_window nowMs thirtyDaysMs) xs)) (ta_thirtySum a)"
  "ta_sevenSum (fold (trend_step nowMs) xs a) =
     fold (\<lambda>x sum. f32_add sum x) (map sm_value (filter (in_window nowMs sevenDaysMs) xs)) (ta_sevenSum a)"
  by (induction xs arbitrary: a) (auto simp: trend_step_def in_window_def Let_def not_le)

lemma trend_step_times:
  "ta_newestTime (trend_step nowMs x a) =
     (if sm_timestampMs x \<le> nowMs \<and> ta_newestTime a \<le> sm_timestampMs x then sm_timestampMs x else ta_newestTime a)"
  "ta_newest (trend_step nowMs x a) =
     (if sm_timestampMs x \<le> nowMs \<and> ta_newestTime a \<le> sm_timestampMs x then sm_value x else ta_newest a)"
  "ta_oldestTime (trend_step nowMs x a) =
     (if sm_timestampMs x \<le> nowMs \<and> sm_timestampMs x < ta_oldestTime a then sm_timestampMs x else ta_oldestTime a)"
  "ta_oldest (trend_step nowMs x a) =
     (if sm_timestampMs x \<le> nowMs \<and> sm_timestampMs x < ta_oldestTime a then sm_value x else ta_oldest a)"
  by (auto simp: trend_step_def Let_def)

lemma trend_newest:
  "(\<forall>z \<in> set xs. nowMs < sm_timestampMs z) \<and>
     ta_newestTime (fold (trend_step nowMs) xs (trend_acc_init nowMs)) = 0 \<or>
   (\<exists>y \<in> set xs. sm_timestampMs y \<le> nowMs \<and>
     (\<forall>z \<in> set xs. sm_timestampMs z \<le> nowMs \<longrightarrow> sm_timestampMs z \<le> sm_timestampMs y) \<and>
     ta_newestTime (fold (trend_step nowMs) xs (trend_acc_init nowMs)) = sm_timestampMs y \<and>
     ta_newest (fold (trend_step nowMs) xs (trend_acc_init nowMs)) = sm_value y)"
proof (induction xs rule: rev_induct)
  case Nil
  show ?case by (simp add: trend_acc_init_def)
next
  case (snoc x xs)
  then show ?case by (auto simp: trend_step_times not_le)
qed

lemma trend_oldest:
  "(\<forall>z \<in> set xs. nowMs \<le> sm_timestampMs z) \<and>
     ta_oldestTime (fold (trend_step nowMs) xs (trend_acc_init nowMs)) = nowMs \<or>
   (\<exists>y \<in> set xs. sm_timestampMs y < nowMs \<and> (\<forall>z \<in> set xs. sm_timestampMs y \<le> sm_timestampMs z) \<and>
     ta_oldestTime (fold (trend_step nowMs) xs (trend_acc_init nowMs)) = sm_timestampMs y \<and>
     ta_oldest (fold (trend_step nowMs) xs (trend_acc_init nowMs)) = sm_value y)"
proof (induction xs rule: rev_induct)
  case Nil
  show ?case by (simp add: trend_acc_init_def)
next
  case (snoc x xs)
  then show ?case by (auto simp: trend_step_times not_le not_less)
qed

lemma trend_ends:
  assumes xy: "x \<in> set xs" "y \<in> set xs" "sm_timestampMs x < sm_timestampMs y" "sm_timestampMs y \<le> nowMs"
    and ends: "\<And>z. z \<in> set xs \<Longrightarrow> sm_timestampMs z \<le> nowMs \<Longrightarrow>
      sm_timestampMs x \<le> sm_timestampMs z \<and> sm_timestampMs z \<le> sm_timestampMs y"
    and inj: "inj_on sm_timestampMs {z \<in> set xs. sm_timestampMs z \<le> nowMs}"
  shows "ta_oldestTime (fold (trend_step nowMs) xs (trend_acc_init nowMs)) = sm_timestampMs x"
    "ta_oldest (fold (trend_step nowMs) xs (trend_acc_init nowMs)) = sm_value x"
    "ta_newestTime (fold (trend_step nowMs) xs (trend_acc_init nowMs)) = sm_timestampMs y"
    "ta_newest (fold (trend_step nowMs) xs (trend_acc_init nowMs)) = sm_value y"
proof -
  have x: "sm_timestampMs x < nowMs" using xy(3,4) by order
  have same: "z = z'" if "z \<in> set xs" "z' \<in> set xs" "sm_timestampMs z \<le> nowMs" "sm_timestampMs z' \<le> nowMs"
    "sm_timestampMs z = sm_timestampMs z'" for z z'
    using inj that by (auto dest: inj_onD)
  from trend_oldest [of xs nowMs] xy(1) x obtain o' where o': "o' \<in> set xs" "sm_timestampMs o' < nowMs"
    "sm_timestampMs o' \<le> sm_timestampMs x"
    "ta_oldestTime (fold (trend_step nowMs) xs (trend_acc_init nowMs)) = sm_timestampMs o'"
    "ta_oldest (fold (trend_step nowMs) xs (trend_acc_init nowMs)) = sm_value o'"
    by (auto simp: not_less [symmetric])
  have "sm_timestampMs o' \<le> nowMs" using o'(2) by order
  then have "o' = x" using same [OF o'(1) xy(1)] ends [OF o'(1)] o'(3) x by (simp add: order.antisym)
  from trend_newest [of xs nowMs] xy(2,4) obtain n where n: "n \<in> set xs" "sm_timestampMs n \<le> nowMs"
    "sm_timestampMs y \<le> sm_timestampMs n"
    "ta_newestTime (fold (trend_step nowMs) xs (trend_acc_init nowMs)) = sm_timestampMs n"
    "ta_newest (fold (trend_step nowMs) xs (trend_acc_init nowMs)) = sm_value n"
    by (auto simp: not_le [symmetric])
  have "n = y" using same [OF n(1) xy(2)] ends [OF n(1)] n(2,3) xy(4) by (simp add: order.antisym)
  with \<open>o' = x\<close> o' n show
    "ta_oldestTime (fold (trend_step nowMs) xs (trend_acc_init nowMs)) = sm_timestampMs x"
    "ta_oldest (fold (trend_step nowMs) xs (trend_acc_init nowMs)) = sm_value x"
    "ta_newestTime (fold (trend_step nowMs) xs (trend_acc_init nowMs)) = sm_timestampMs y"
    "ta_newest (fold (trend_step nowMs) xs (trend_acc_init nowMs)) = sm_value y" by simp_all
qed

lemma trend_averages:
  assumes "r = ts_evaluate nowMs (add_all ss TrendSeries_init)"
  shows "unat (tr_sampleCount r) = length (filter (in_window nowMs thirtyDaysMs) (slot_order ss))"
    and "tr_sevenDayAverage r = f32_mean (map sm_value (filter (in_window nowMs sevenDaysMs) (slot_order ss)))"
    and "tr_thirtyDayAverage r = f32_mean (map sm_value (filter (in_window nowMs thirtyDaysMs) (slot_order ss)))"
    and "tr_statisticallyMeaningful r \<longleftrightarrow>
      10 \<le> length (filter (in_window nowMs thirtyDaysMs) (slot_order ss)) \<and>
      f32_lt (f32_lit (1 / 1000000)) (f32_abs (tr_rateOfChange r))"
proof -
  have small: "unat (of_nat (length (filter P (slot_order ss))) :: 32 word) = length (filter P (slot_order ss))" for P
  proof -
    have "length (filter P (slot_order ss)) \<le> kTrendCapacity"
      by (rule order_trans [OF length_filter_le]) (simp add: slot_order_def last_samples_def)
    then show ?thesis by (simp add: unat_of_nat kTrendCapacity_def)
  qed
  have zero: "(of_nat (length (filter P (slot_order ss))) :: 32 word) = 0 \<longleftrightarrow> filter P (slot_order ss) = []" for P
    unfolding unat_eq_0 [symmetric] small by simp
  note acc = evaluate_fold trend_fold_windows trend_acc_init_def
  show "unat (tr_sampleCount r) = length (filter (in_window nowMs thirtyDaysMs) (slot_order ss))"
    by (simp add: assms ts_evaluate_def Let_def acc small)
  show "tr_sevenDayAverage r = f32_mean (map sm_value (filter (in_window nowMs sevenDaysMs) (slot_order ss)))"
    by (simp add: assms ts_evaluate_def Let_def acc zero f32_mean_def)
  show "tr_thirtyDayAverage r = f32_mean (map sm_value (filter (in_window nowMs thirtyDaysMs) (slot_order ss)))"
    by (simp add: assms ts_evaluate_def Let_def acc zero f32_mean_def)
  have "10 \<le> (of_nat (length (filter P (slot_order ss))) :: 32 word) \<longleftrightarrow> 10 \<le> length (filter P (slot_order ss))" for P
    using small [of P] by (simp add: word_le_nat_alt)
  then show "tr_statisticallyMeaningful r \<longleftrightarrow>
      10 \<le> length (filter (in_window nowMs thirtyDaysMs) (slot_order ss)) \<and>
      f32_lt (f32_lit (1 / 1000000)) (f32_abs (tr_rateOfChange r))"
    by (simp add: assms ts_evaluate_def Let_def acc)
qed

section \<open>Properties\<close>

text \<open>
  C30: the rolling statistics of any finite samples of magnitude at most \<open>2 ^ 90\<close> are sound in
  floating point: the count is exact, minimum and maximum are samples that bound all others,
  the mean stays between them although every operation rounds, and the standard deviation is a
  nonnegative number (never NaN), zero below two samples. Fewer than \<open>2 ^ 32\<close> samples, the
  range of the counter.
\<close>

theorem rolling_statistics_sound:
  assumes "\<forall>x \<in> set xs. sample_ok x" "xs \<noteq> []" "length xs < 2 ^ 32"
    and "b = fold rb_add xs RollingBaseline_init"
  shows "unat (rb_sampleCount b) = length xs \<and>
    rb_getMinimum b \<in> set xs \<and> rb_getMaximum b \<in> set xs \<and>
    (\<forall>x \<in> set xs. f32_le (rb_getMinimum b) x \<and> f32_le x (rb_getMaximum b)) \<and>
    f32_le (rb_getMinimum b) (rb_getMean b) \<and> f32_le (rb_getMean b) (rb_getMaximum b) \<and>
    f32_le (F_Zero False) (rb_standardDeviation b)"
proof -
  have inv: "rb_inv xs b" using rb_fold [OF assms(1,3)] assms(4) by simp
  then have nz: "rb_count b \<noteq> 0" using assms(2) by (auto simp: rb_inv_def)
  have "f32_le (F_Zero False) (rb_standardDeviation b)"
  proof (cases "rb_count b < 2")
    case False
    then have "2 \<le> unat (rb_count b)" by (simp add: word_less_nat_alt not_less)
    then have n: "rb_count b - 1 \<noteq> 0" by auto
    have "f32_le (f32_lit 1) (f32_of_word (rb_count b - 1))" by (rule f32_of_word_pos [OF n])
    then have "f32_finite (f32_of_word (rb_count b - 1))" "1 \<le> f32_val (f32_of_word (rb_count b - 1))"
      using f32_of_word_bounds(1) [of "rb_count b - 1"]
      by (simp_all add: f32_round_1 f32_le_finite)
    then show ?thesis using inv False
      by (simp add: rb_standardDeviation_def rb_inv_def div_nonneg f32_sqrt_nonneg)
  qed (simp add: rb_standardDeviation_def)
  then show ?thesis using inv nz assms(2) by (simp add: rb_inv_def rb_getMinimum_def rb_getMaximum_def)
qed

lemma rolling_statistics_sound_witness:
  "unat (rb_count (fold rb_add [F_Num 1, F_Num 2, F_Zero False] RollingBaseline_init)) = 3"
  using rolling_statistics_sound [OF _ _ _ refl, of "[F_Num 1, F_Num 2, F_Zero False]"]
proof -
  have "f32_round 1 = F_Num 1" "f32_round 2 = F_Num 2" by code_simp+
  then have "\<forall>x \<in> set [F_Num 1, F_Num 2, F_Zero False]. sample_ok x" by (simp add: sample_ok_def)
  from rolling_statistics_sound [OF this _ _ refl] show ?thesis by simp
qed

text \<open>
  C31: a trend is evaluated over the last 1024 samples. The reported count is the number of
  those at most thirty days old and not in the future, whatever their order in time; the two
  averages are the binary32 means of the values in their windows, summed in the order of the
  slots (the order of arrival until the ring wraps, a rotation of it afterwards), and 0 for an
  empty window; the rate is that between the oldest and the newest known sample, with no regard
  to the windows; a result is statistically meaningful exactly when it rests on ten samples and
  its rate is not (nearly) zero.
\<close>

theorem trend_counts_window:
  "let r = ts_evaluate nowMs (add_all ss TrendSeries_init);
       known = {z \<in> set (last_samples ss). sm_timestampMs z \<le> nowMs} in
   unat (tr_sampleCount r) = length (filter (in_window nowMs thirtyDaysMs) (last_samples ss)) \<and>
   tr_sevenDayAverage r = f32_mean (map sm_value (filter (in_window nowMs sevenDaysMs) (slot_order ss))) \<and>
   tr_thirtyDayAverage r = f32_mean (map sm_value (filter (in_window nowMs thirtyDaysMs) (slot_order ss))) \<and>
   mset (slot_order ss) = mset (last_samples ss) \<and> (length ss \<le> 1024 \<longrightarrow> slot_order ss = ss) \<and>
   (x \<in> known \<and> y \<in> known \<and> sm_timestampMs x < sm_timestampMs y \<and> inj_on sm_timestampMs known \<and>
    (\<forall>z \<in> known. sm_timestampMs x \<le> sm_timestampMs z \<and> sm_timestampMs z \<le> sm_timestampMs y) \<longrightarrow>
    tr_rateOfChange r =
      f32_div (f32_sub (sm_value y) (sm_value x)) (f32_of_word (sm_timestampMs y - sm_timestampMs x))) \<and>
   (tr_statisticallyMeaningful r \<longleftrightarrow>
    10 \<le> length (filter (in_window nowMs thirtyDaysMs) (last_samples ss)) \<and>
    f32_lt (f32_lit (1 / 1000000)) (f32_abs (tr_rateOfChange r)))"
proof -
  let ?r = "ts_evaluate nowMs (add_all ss TrendSeries_init)"
  let ?known = "{z \<in> set (last_samples ss). sm_timestampMs z \<le> nowMs}"
  have n: "length (filter P (slot_order ss)) = length (filter P (last_samples ss))" for P
    by (metis mset_filter size_mset slot_order_same(1))
  have "tr_rateOfChange ?r =
      f32_div (f32_sub (sm_value y) (sm_value x)) (f32_of_word (sm_timestampMs y - sm_timestampMs x))"
    if "x \<in> ?known" "y \<in> ?known" "sm_timestampMs x < sm_timestampMs y" "inj_on sm_timestampMs ?known"
      "\<forall>z \<in> ?known. sm_timestampMs x \<le> sm_timestampMs z \<and> sm_timestampMs z \<le> sm_timestampMs y"
    using trend_ends [of x "slot_order ss" y nowMs] that
    by (simp add: ts_evaluate_def Let_def evaluate_fold slot_order_same(2))
  then show ?thesis
    unfolding Let_def using trend_averages [of ?r nowMs ss] slot_order_same(1) slot_order_unwrapped [of ss]
    by (simp add: n kTrendCapacity_def)
qed

lemma trend_counts_window_witness:
  "tr_rateOfChange (ts_evaluate 9 (add_all [\<lparr>sm_timestampMs = 1, sm_value = F_Num 1\<rparr>,
     \<lparr>sm_timestampMs = 5, sm_value = F_Num 3\<rparr>] TrendSeries_init)) = F_Num (1 / 2)"
proof -
  let ?x = "\<lparr>sm_timestampMs = 1, sm_value = F_Num 1\<rparr>" and ?y = "\<lparr>sm_timestampMs = 5, sm_value = F_Num 3\<rparr>"
  have v: "f32_div (f32_sub (F_Num 3) (F_Num 1)) (f32_of_word (4 :: 64 word)) = F_Num (1 / 2)" by code_simp
  have known: "{z \<in> set (last_samples [?x, ?y]). sm_timestampMs z \<le> 9} = {?x, ?y}"
    by (auto simp: last_samples_def kTrendCapacity_def word_le_nat_alt)
  have "tr_rateOfChange (ts_evaluate 9 (add_all [?x, ?y] TrendSeries_init)) =
      f32_div (f32_sub (sm_value ?y) (sm_value ?x)) (f32_of_word (sm_timestampMs ?y - sm_timestampMs ?x))"
    by (rule trend_counts_window [of 9 "[?x, ?y]" ?x ?y, unfolded Let_def known, THEN conjunct2, THEN conjunct2,
          THEN conjunct2, THEN conjunct2, THEN conjunct2, THEN conjunct1, THEN mp])
      (auto simp: inj_on_def word_le_nat_alt word_less_nat_alt)
  then show ?thesis by (simp add: v)
qed

text \<open>
  The weighted average takes a running value of zero for "no sample yet". A series that
  starts with a sample of 0 reports its second sample as the average, although that sample
  carries a weight of one fifth after any other first sample.
\<close>

theorem zero_average_restarts:
  assumes "t1 \<le> nowMs" "t2 \<le> nowMs"
  shows "tr_exponentiallyWeightedAverage (ts_evaluate nowMs
      (ts_add t2 v (ts_add t1 (F_Zero s) TrendSeries_init))) = v \<and>
    (\<not> f32_eq u (F_Zero False) \<longrightarrow>
     tr_exponentiallyWeightedAverage (ts_evaluate nowMs (ts_add t2 v (ts_add t1 u TrendSeries_init))) =
       f32_add (f32_mul (f32_lit (2 / 10)) v) (f32_mul (f32_lit (8 / 10)) u))"
proof -
  have e: "f32_eq (F_Zero b) (F_Zero False)" for b by (simp add: f32_eq_def f32_le_def)
  have s: "ts_samples (ts_add t2 v (ts_add t1 x TrendSeries_init)) ! 0 = \<lparr>sm_timestampMs = t1, sm_value = x\<rparr>"
    "ts_samples (ts_add t2 v (ts_add t1 x TrendSeries_init)) ! 1 = \<lparr>sm_timestampMs = t2, sm_value = v\<rparr>"
    "ts_count (ts_add t2 v (ts_add t1 x TrendSeries_init)) = 2" for x
    by (simp_all add: ts_add_def Let_def TrendSeries_init_def kTrendCapacity_def)
  have w: "ta_ewma (trend_step nowMs y a) = (if f32_eq (ta_ewma a) (F_Zero False) then sm_value y
      else f32_add (f32_mul (f32_lit (2 / 10)) (sm_value y)) (f32_mul (f32_lit (8 / 10)) (ta_ewma a)))"
    if "sm_timestampMs y \<le> nowMs" for y a
    using that by (auto simp: trend_step_def Let_def)
  have "tr_exponentiallyWeightedAverage (ts_evaluate nowMs (ts_add t2 v (ts_add t1 x TrendSeries_init))) =
      (if f32_eq x (F_Zero False) then v
       else f32_add (f32_mul (f32_lit (2 / 10)) v) (f32_mul (f32_lit (8 / 10)) x))" for x
    using assms e by (simp add: ts_evaluate_def Let_def s numeral_2_eq_2 s(2) [unfolded One_nat_def] w trend_acc_init_def)
  with e show ?thesis by simp
qed

lemma zero_average_restarts_witness:
  "tr_exponentiallyWeightedAverage (ts_evaluate 9
      (ts_add 2 (F_Num 10) (ts_add 1 (F_Zero False) TrendSeries_init))) = F_Num 10"
  using zero_average_restarts [of 1 9 2 "F_Num 10" False] by (simp add: word_le_nat_alt)

end
