(* ===== verification/Baseline_Engine.thy ===== *)
theory Baseline_Engine
  imports Core_Types Trend_Engine
begin

text \<open>
  Baselines per commanded level, \<open>baseline_engine.h/.cpp\<close>: five bands, each with the running
  means of input power and output current over the healthy, stable observations.
\<close>

datatype LevelBand = Band1 | Band2 | Band3 | Band4 | Band5

record BaselineObservation =
  bo_stable :: bool
  bo_healthy :: bool
  bo_communicationAcceptable :: bool
  bo_inputPower :: "f32 Reading"
  bo_outputCurrent :: "f32 Reading"

record BandStats =
  bs_count :: u32
  bs_inputPowerMean :: f32
  bs_outputCurrentMean :: f32

definition BandStats_init :: BandStats where
  "BandStats_init = \<lparr>bs_count = 0, bs_inputPowerMean = f32_lit 0, bs_outputCurrentMean = f32_lit 0\<rparr>"

record BaselineStore =
  bl_bands :: "BandStats list"

definition BaselineStore_init :: BaselineStore where
  "BaselineStore_init = \<lparr>bl_bands = replicate 5 BandStats_init\<rparr>"

text \<open>\<open>static_cast<std::size_t>\<close> of a band.\<close>

fun band_index :: "LevelBand \<Rightarrow> nat" where
  "band_index Band1 = 0"
| "band_index Band2 = 1"
| "band_index Band3 = 2"
| "band_index Band4 = 3"
| "band_index Band5 = 4"

definition bandFor :: "u8 \<Rightarrow> LevelBand" where
  "bandFor level =
     (if level \<le> 20 then Band1 else if level \<le> 40 then Band2 else if level \<le> 60 then Band3
      else if level \<le> 80 then Band4 else Band5)"

definition stats_update :: "BaselineObservation \<Rightarrow> BandStats \<Rightarrow> BandStats" where
  "stats_update observation stats =
     (let stats = stats\<lparr>bs_count := bs_count stats + 1\<rparr>;
          count = f32_of_word (bs_count stats);
          stats = stats\<lparr>bs_inputPowerMean := f32_add (bs_inputPowerMean stats)
            (f32_div (f32_sub (rd_value (bo_inputPower observation)) (bs_inputPowerMean stats)) count)\<rparr>
      in stats\<lparr>bs_outputCurrentMean := f32_add (bs_outputCurrentMean stats)
            (f32_div (f32_sub (rd_value (bo_outputCurrent observation)) (bs_outputCurrentMean stats)) count)\<rparr>)"

definition bl_update :: "u8 \<Rightarrow> BaselineObservation \<Rightarrow> BaselineStore \<Rightarrow> bool \<times> BaselineStore" where
  "bl_update commandedLevel observation s =
     (if \<not> bo_stable observation \<or> \<not> bo_healthy observation \<or> \<not> bo_communicationAcceptable observation \<or>
         \<not> hasValue (bo_inputPower observation) \<or> \<not> hasValue (bo_outputCurrent observation)
      then (False, s)
      else let i = band_index (bandFor commandedLevel)
           in (True, s\<lparr>bl_bands := (bl_bands s)[i := stats_update observation (bl_bands s ! i)]\<rparr>))"

definition meanInputPower :: "LevelBand \<Rightarrow> BaselineStore \<Rightarrow> f32" where
  "meanInputPower band s = bs_inputPowerMean (bl_bands s ! band_index band)"

definition meanOutputCurrent :: "LevelBand \<Rightarrow> BaselineStore \<Rightarrow> f32" where
  "meanOutputCurrent band s = bs_outputCurrentMean (bl_bands s ! band_index band)"

definition bl_sampleCount :: "LevelBand \<Rightarrow> BaselineStore \<Rightarrow> u32" where
  "bl_sampleCount band s = bs_count (bl_bands s ! band_index band)"

section \<open>A band's statistics\<close>

lemma band_index_inj [simp]: "band_index a = band_index b \<longleftrightarrow> a = b"
  by (cases a; cases b) simp_all

lemma band_index_less [simp]: "band_index b < 5"
  by (cases b) simp_all

definition bo_accepted :: "BaselineObservation \<Rightarrow> bool" where
  "bo_accepted o' \<longleftrightarrow> bo_stable o' \<and> bo_healthy o' \<and> bo_communicationAcceptable o' \<and>
     hasValue (bo_inputPower o') \<and> hasValue (bo_outputCurrent o')"

text \<open>The observations of a history that count for a band.\<close>

definition counted :: "LevelBand \<Rightarrow> (u8 \<times> BaselineObservation) list \<Rightarrow> BaselineObservation list" where
  "counted band h = map snd (filter (\<lambda>(level, o'). bo_accepted o' \<and> bandFor level = band) h)"

definition update_all :: "(u8 \<times> BaselineObservation) list \<Rightarrow> BaselineStore \<Rightarrow> BaselineStore" where
  "update_all h s = fold (\<lambda>(level, o') s. snd (bl_update level o' s)) h s"

lemma update_all_band:
  assumes "length (bl_bands s) = 5"
  shows "length (bl_bands (update_all h s)) = 5"
    and "bl_bands (update_all h s) ! band_index b = fold stats_update (counted b h) (bl_bands s ! band_index b)"
proof -
  have "length (bl_bands (update_all h s)) = 5 \<and>
      bl_bands (update_all h s) ! band_index b = fold stats_update (counted b h) (bl_bands s ! band_index b)"
    using assms
  proof (induction h arbitrary: s)
    case (Cons x h)
    obtain level o' where x: "x = (level, o')" by (cases x)
    let ?s = "snd (bl_update level o' s)"
    have l: "length (bl_bands ?s) = 5" using Cons.prems by (simp add: bl_update_def Let_def)
    have "bl_bands ?s ! band_index b = (if bo_accepted o' \<and> bandFor level = b
        then stats_update o' (bl_bands s ! band_index b) else bl_bands s ! band_index b)"
      using Cons.prems by (auto simp: bl_update_def bo_accepted_def Let_def nth_list_update)
    with Cons.IH [OF l] show ?case by (simp add: update_all_def x counted_def)
  qed (simp add: update_all_def counted_def)
  then show "length (bl_bands (update_all h s)) = 5"
    "bl_bands (update_all h s) ! band_index b = fold stats_update (counted b h) (bl_bands s ! band_index b)"
    by simp_all
qed

text \<open>A running mean over \<open>xs\<close>, with \<open>n\<close> its count: what the two means of a band are.\<close>

definition within_bounds :: "f32 list \<Rightarrow> f32 \<Rightarrow> bool" where
  "within_bounds xs m \<longleftrightarrow> (\<forall>lo hi. (\<forall>x \<in> set xs. f32_le lo x \<and> f32_le x hi) \<longrightarrow> f32_le lo m \<and> f32_le m hi)"

definition mean_inv :: "f32 list \<Rightarrow> u32 \<Rightarrow> f32 \<Rightarrow> bool" where
  "mean_inv xs n m \<longleftrightarrow> unat n = length xs \<and> sample_ok m \<and>
     (if xs = [] then m = F_Zero False else within_bounds xs m)"

lemma mean_inv_step:
  assumes inv: "mean_inv xs n m" and v: "sample_ok v" and len: "length xs + 1 < 2 ^ 32"
  shows "mean_inv (xs @ [v]) (n + 1) (f32_mean_step m v (f32_of_word (n + 1)))"
proof -
  have c: "unat (n + 1) = length (xs @ [v])" using inv len by (simp add: mean_inv_def unat_word_ariths)
  have m: "sample_ok m" using inv by (simp add: mean_inv_def)
  show ?thesis
  proof (cases "xs = []")
    case True
    then have z: "m = F_Zero False" "n = 0" using inv by (simp_all add: mean_inv_def unat_eq_0)
    let ?s = "f32_mean_step (F_Zero False) v (F_Num 1)"
    have s: "f32_finite ?s" "f32_val ?s = f32_val v" "f32_ok ?s"
      using mean_step_first [of v] v by (simp_all add: sample_ok_def f32_round_1)
    then have so: "sample_ok ?s" using v by (simp add: sample_ok_def)
    have "f32_le ?s v" "f32_le v ?s" using s v by (simp_all add: f32_le_finite sample_ok_def)
    then have "within_bounds [v] ?s" unfolding within_bounds_def by (auto intro: f32_le_trans)
    with so c True z show ?thesis by (simp add: mean_inv_def)
  next
    case False
    then have two: "2 \<le> unat (n + 1)" using c by (cases xs) simp_all
    note step = rb_mean_between [OF m v two]
    have "within_bounds xs m" using inv False by (simp add: mean_inv_def)
    with step(2,3) have "within_bounds (xs @ [v]) (f32_mean_step m v (f32_of_word (n + 1)))"
      unfolding within_bounds_def set_append by (metis UnCI list.set_intros(1))
    with step(1) c show ?thesis by (simp add: mean_inv_def)
  qed
qed

lemma mean_inv_bounds:
  assumes "mean_inv (map f os) n m" "os \<noteq> []" "\<forall>x \<in> set os. f32_le lo (f x) \<and> f32_le (f x) hi"
  shows "f32_le lo m \<and> f32_le m hi"
proof -
  have "within_bounds (map f os) m" using assms(1,2) by (simp add: mean_inv_def)
  then have "(\<forall>x \<in> set (map f os). f32_le lo x \<and> f32_le x hi) \<longrightarrow> f32_le lo m \<and> f32_le m hi"
    unfolding within_bounds_def by blast
  with assms(3) show ?thesis by simp
qed

lemma stats_fold:
  assumes "\<forall>o' \<in> set os. sample_ok (rd_value (bo_inputPower o')) \<and> sample_ok (rd_value (bo_outputCurrent o'))"
    and "length os < 2 ^ 32"
  shows "mean_inv (map (\<lambda>o'. rd_value (bo_inputPower o')) os)
      (bs_count (fold stats_update os BandStats_init)) (bs_inputPowerMean (fold stats_update os BandStats_init)) \<and>
    mean_inv (map (\<lambda>o'. rd_value (bo_outputCurrent o')) os)
      (bs_count (fold stats_update os BandStats_init)) (bs_outputCurrentMean (fold stats_update os BandStats_init))"
  using assms
proof (induction os rule: rev_induct)
  case Nil
  then show ?case by (simp add: mean_inv_def BandStats_init_def sample_ok_def)
next
  case (snoc o' os)
  let ?s = "fold stats_update os BandStats_init"
  have u: "bs_count (stats_update o' ?s) = bs_count ?s + 1"
    "bs_inputPowerMean (stats_update o' ?s) = f32_mean_step (bs_inputPowerMean ?s)
      (rd_value (bo_inputPower o')) (f32_of_word (bs_count ?s + 1))"
    "bs_outputCurrentMean (stats_update o' ?s) = f32_mean_step (bs_outputCurrentMean ?s)
      (rd_value (bo_outputCurrent o')) (f32_of_word (bs_count ?s + 1))"
    by (simp_all add: stats_update_def Let_def f32_mean_step_def)
  show ?case using snoc by (simp add: u mean_inv_step)
qed

section \<open>Properties\<close>

text \<open>
  C32: a band learns from exactly the healthy, stable, well-communicated observations of its
  levels. After any history its count is the number of those, and when there is one its mean
  power and mean current lie within any bounds that hold for their values, floating point
  included; an observation that does not qualify changes nothing. Measured values are finite
  numbers of magnitude at most \<open>2 ^ 90\<close>, and fewer than \<open>2 ^ 32\<close> of them.
\<close>

theorem baseline_learns_healthy_only:
  assumes "\<forall>(level, o') \<in> set h. sample_ok (rd_value (bo_inputPower o')) \<and> sample_ok (rd_value (bo_outputCurrent o'))"
    and "length h < 2 ^ 32" and "s = update_all h BaselineStore_init"
  shows "unat (bl_sampleCount band s) = length (counted band h) \<and>
    (counted band h \<noteq> [] \<longrightarrow>
      (\<forall>lo hi. (\<forall>o' \<in> set (counted band h). f32_le lo (rd_value (bo_inputPower o')) \<and> f32_le (rd_value (bo_inputPower o')) hi) \<longrightarrow>
         f32_le lo (meanInputPower band s) \<and> f32_le (meanInputPower band s) hi) \<and>
      (\<forall>lo hi. (\<forall>o' \<in> set (counted band h). f32_le lo (rd_value (bo_outputCurrent o')) \<and> f32_le (rd_value (bo_outputCurrent o')) hi) \<longrightarrow>
         f32_le lo (meanOutputCurrent band s) \<and> f32_le (meanOutputCurrent band s) hi)) \<and>
    (\<not> bo_accepted ob \<longrightarrow> bl_update level ob s = (False, s))"
proof -
  have "length (bl_bands BaselineStore_init) = 5" by (simp add: BaselineStore_init_def)
  from update_all_band(2) [OF this, of h band]
  have b: "bl_bands s ! band_index band = fold stats_update (counted band h) BandStats_init"
    using assms(3) by (simp add: BaselineStore_init_def)
  have ok: "\<forall>o' \<in> set (counted band h). sample_ok (rd_value (bo_inputPower o')) \<and> sample_ok (rd_value (bo_outputCurrent o'))"
    using assms(1) by (auto simp: counted_def)
  have len: "length (counted band h) < 2 ^ 32"
    using assms(2) by (simp add: counted_def) (meson le_less_trans length_filter_le)
  note m = stats_fold [OF ok len]
  have "\<not> bo_accepted ob \<longrightarrow> bl_update level ob s = (False, s)"
    by (auto simp: bl_update_def bo_accepted_def)
  moreover have "unat (bl_sampleCount band s) = length (counted band h)"
    using m b by (simp add: bl_sampleCount_def mean_inv_def)
  moreover have "counted band h \<noteq> [] \<longrightarrow>
      (\<forall>lo hi. (\<forall>o' \<in> set (counted band h). f32_le lo (rd_value (bo_inputPower o')) \<and> f32_le (rd_value (bo_inputPower o')) hi) \<longrightarrow>
         f32_le lo (meanInputPower band s) \<and> f32_le (meanInputPower band s) hi)"
    using mean_inv_bounds [OF m [THEN conjunct1]] unfolding meanInputPower_def b by blast
  moreover have "counted band h \<noteq> [] \<longrightarrow>
      (\<forall>lo hi. (\<forall>o' \<in> set (counted band h). f32_le lo (rd_value (bo_outputCurrent o')) \<and> f32_le (rd_value (bo_outputCurrent o')) hi) \<longrightarrow>
         f32_le lo (meanOutputCurrent band s) \<and> f32_le (meanOutputCurrent band s) hi)"
    using mean_inv_bounds [OF m [THEN conjunct2]] unfolding meanOutputCurrent_def b by blast
  ultimately show ?thesis by blast
qed

lemma baseline_learns_healthy_only_witness:
  "unat (bl_sampleCount Band2 (update_all
     [(30, \<lparr>bo_stable = True, bo_healthy = True, bo_communicationAcceptable = True,
        bo_inputPower = Reading_valid (F_Num 1) 0 0 False, bo_outputCurrent = Reading_valid (F_Num 1) 0 0 False\<rparr>),
      (30, \<lparr>bo_stable = True, bo_healthy = False, bo_communicationAcceptable = True,
        bo_inputPower = Reading_valid (F_Num 1) 0 0 False, bo_outputCurrent = Reading_valid (F_Num 1) 0 0 False\<rparr>)]
     BaselineStore_init)) = 1"
proof -
  have "sample_ok (F_Num 1)" by (simp add: sample_ok_def f32_round_1)
  moreover have "bandFor 30 = Band2" by code_simp
  ultimately show ?thesis
    using baseline_learns_healthy_only [OF _ _ refl, of
     "[(30, \<lparr>bo_stable = True, bo_healthy = True, bo_communicationAcceptable = True,
        bo_inputPower = Reading_valid (F_Num 1) 0 0 False, bo_outputCurrent = Reading_valid (F_Num 1) 0 0 False\<rparr>),
      (30, \<lparr>bo_stable = True, bo_healthy = False, bo_communicationAcceptable = True,
        bo_inputPower = Reading_valid (F_Num 1) 0 0 False, bo_outputCurrent = Reading_valid (F_Num 1) 0 0 False\<rparr>)]" Band2]
    by (simp add: counted_def bo_accepted_def)
qed

end
