(* ===== verification/System_Monitor.thy ===== *)
theory System_Monitor
  imports Dali_Prelude
begin

text \<open>
  Task supervision, \<open>system_monitor.h/.cpp\<close> and \<open>system_monitor_task.h/.cpp\<close>: heartbeats of up
  to 16 tasks with a staleness check, and the high-water marks of up to 16 queues.
\<close>

definition kMaximumTasks :: nat where "kMaximumTasks = 16"
definition kMaximumQueues :: nat where "kMaximumQueues = 16"

record SystemMonitor =
  sy_heartbeats :: "u64 list"
  sy_seen :: "bool list"
  sy_queueHighWater :: "nat list"
  sy_expectedTasks :: nat

definition SystemMonitor_init :: SystemMonitor where
  "SystemMonitor_init = \<lparr>sy_heartbeats = replicate kMaximumTasks 0, sy_seen = replicate kMaximumTasks False,
     sy_queueHighWater = replicate kMaximumQueues 0, sy_expectedTasks = 0\<rparr>"

definition setExpectedTaskCount :: "nat \<Rightarrow> SystemMonitor \<Rightarrow> SystemMonitor" where
  "setExpectedTaskCount count m =
     m\<lparr>sy_expectedTasks := (if kMaximumTasks < count then kMaximumTasks else count)\<rparr>"

definition heartbeat :: "nat \<Rightarrow> u64 \<Rightarrow> SystemMonitor \<Rightarrow> SystemMonitor" where
  "heartbeat taskId timestampMs m =
     (if kMaximumTasks \<le> taskId then m
      else m\<lparr>sy_heartbeats := (sy_heartbeats m)[taskId := timestampMs],
             sy_seen := (sy_seen m)[taskId := True]\<rparr>)"

text \<open>The loop of \<open>healthy\<close> from task \<open>task\<close> on.\<close>

function healthy_from :: "nat \<Rightarrow> u64 \<Rightarrow> u64 \<Rightarrow> SystemMonitor \<Rightarrow> bool" where
  "healthy_from task nowMs timeoutMs m =
     (if task < sy_expectedTasks m
      then if \<not> sy_seen m ! task \<or> nowMs < sy_heartbeats m ! task \<or>
              timeoutMs < nowMs - sy_heartbeats m ! task
           then False else healthy_from (task + 1) nowMs timeoutMs m
      else True)"
  by pat_completeness auto
termination by (relation "measure (\<lambda>(task, nowMs, timeoutMs, m). sy_expectedTasks m - task)") auto

declare healthy_from.simps [simp del]

definition healthy :: "u64 \<Rightarrow> u64 \<Rightarrow> SystemMonitor \<Rightarrow> bool" where
  "healthy nowMs timeoutMs m = healthy_from 0 nowMs timeoutMs m"

definition recordQueueHighWater :: "nat \<Rightarrow> nat \<Rightarrow> SystemMonitor \<Rightarrow> SystemMonitor" where
  "recordQueueHighWater queueId value m =
     (if kMaximumQueues \<le> queueId then m
      else if sy_queueHighWater m ! queueId < value
      then m\<lparr>sy_queueHighWater := (sy_queueHighWater m)[queueId := value]\<rparr> else m)"

definition queueHighWater :: "nat \<Rightarrow> SystemMonitor \<Rightarrow> nat" where
  "queueHighWater queueId m =
     (if queueId < kMaximumQueues then sy_queueHighWater m ! queueId else 0)"

text \<open>\<open>SystemMonitorTask::runOnce\<close>: the maintenance task is task 0.\<close>

definition runOnce :: "u64 \<Rightarrow> SystemMonitor \<Rightarrow> SystemMonitor" where
  "runOnce nowMs m = heartbeat 0 nowMs m"

section \<open>Histories\<close>

datatype monitor_op =
    OpExpect nat | OpBeat nat u64 | OpHighWater nat nat | OpRunOnce u64

fun monitor_step :: "monitor_op \<Rightarrow> SystemMonitor \<Rightarrow> SystemMonitor" where
  "monitor_step (OpExpect n) m = setExpectedTaskCount n m"
| "monitor_step (OpBeat task t) m = heartbeat task t m"
| "monitor_step (OpHighWater q v) m = recordQueueHighWater q v m"
| "monitor_step (OpRunOnce t) m = runOnce t m"

text \<open>What a history says: the last expected count, a task's last heartbeat, a queue's maximum.\<close>

fun expected_of :: "monitor_op list \<Rightarrow> nat" where
  "expected_of [] = 0"
| "expected_of (OpExpect n # h) = n"
| "expected_of (_ # h) = expected_of h"

fun last_beat :: "nat \<Rightarrow> monitor_op list \<Rightarrow> u64 option" where
  "last_beat task [] = None"
| "last_beat task (OpBeat k t # h) = (if k = task then Some t else last_beat task h)"
| "last_beat task (OpRunOnce t # h) = (if task = 0 then Some t else last_beat task h)"
| "last_beat task (_ # h) = last_beat task h"

fun high_of :: "nat \<Rightarrow> monitor_op list \<Rightarrow> nat" where
  "high_of q [] = 0"
| "high_of q (OpHighWater k v # h) = (if k = q then max v (high_of q h) else high_of q h)"
| "high_of q (_ # h) = high_of q h"

text \<open>The state after a history, given newest first.\<close>

definition monitor_inv :: "monitor_op list \<Rightarrow> SystemMonitor \<Rightarrow> bool" where
  "monitor_inv h m \<longleftrightarrow> length (sy_heartbeats m) = kMaximumTasks \<and> length (sy_seen m) = kMaximumTasks \<and>
     length (sy_queueHighWater m) = kMaximumQueues \<and> sy_expectedTasks m = min (expected_of h) kMaximumTasks \<and>
     (\<forall>task < kMaximumTasks. (sy_seen m ! task \<longleftrightarrow> last_beat task h \<noteq> None) \<and>
        (\<forall>t. last_beat task h = Some t \<longrightarrow> sy_heartbeats m ! task = t)) \<and>
     (\<forall>q < kMaximumQueues. sy_queueHighWater m ! q = high_of q h)"

lemma heartbeat_keeps:
  "monitor_inv h m \<Longrightarrow> monitor_inv (OpBeat task t # h) (heartbeat task t m)"
  by (auto simp: monitor_inv_def heartbeat_def nth_list_update)

lemma monitor_step_keeps: "monitor_inv h m \<Longrightarrow> monitor_inv (x # h) (monitor_step x m)"
proof (cases x)
  case (OpRunOnce t)
  assume "monitor_inv h m"
  from heartbeat_keeps [OF this, of 0 t] OpRunOnce show ?thesis
    by (simp add: runOnce_def monitor_inv_def)
next
  case (OpHighWater q v)
  assume "monitor_inv h m"
  with OpHighWater show ?thesis
    by (auto simp: monitor_inv_def recordQueueHighWater_def nth_list_update)
next
  case (OpBeat task t)
  assume "monitor_inv h m"
  from heartbeat_keeps [OF this] OpBeat show ?thesis by simp
next
  case (OpExpect n)
  assume "monitor_inv h m"
  with OpExpect show ?thesis by (simp add: monitor_inv_def setExpectedTaskCount_def min_def)
qed

lemma monitor_run: "monitor_inv h (foldr monitor_step h SystemMonitor_init)"
  by (induction h)
    (auto simp: monitor_step_keeps, simp add: monitor_inv_def SystemMonitor_init_def)

lemma healthy_from_iff:
  "healthy_from task nowMs timeoutMs m \<longleftrightarrow>
    (\<forall>k. task \<le> k \<and> k < sy_expectedTasks m \<longrightarrow> sy_seen m ! k \<and> sy_heartbeats m ! k \<le> nowMs \<and>
      nowMs - sy_heartbeats m ! k \<le> timeoutMs)"
proof (induction task nowMs timeoutMs m rule: healthy_from.induct)
  case (1 task nowMs timeoutMs m)
  show ?case
  proof (cases "task < sy_expectedTasks m")
    case True
    have from_task: "(\<forall>k. task \<le> k \<and> k < sy_expectedTasks m \<longrightarrow> P k) \<longleftrightarrow>
        P task \<and> (\<forall>k. task + 1 \<le> k \<and> k < sy_expectedTasks m \<longrightarrow> P k)" for P
    proof -
      have "task \<le> k \<longleftrightarrow> k = task \<or> task + 1 \<le> k" for k by auto
      then show ?thesis using True by auto
    qed
    have "healthy_from task nowMs timeoutMs m \<longleftrightarrow>
        (sy_seen m ! task \<and> sy_heartbeats m ! task \<le> nowMs \<and> nowMs - sy_heartbeats m ! task \<le> timeoutMs) \<and>
        healthy_from (task + 1) nowMs timeoutMs m"
      using True by (subst healthy_from.simps) (auto simp: not_less)
    moreover have "healthy_from (task + 1) nowMs timeoutMs m \<longleftrightarrow> (\<forall>k. task + 1 \<le> k \<and> k < sy_expectedTasks m \<longrightarrow>
        sy_seen m ! k \<and> sy_heartbeats m ! k \<le> nowMs \<and> nowMs - sy_heartbeats m ! k \<le> timeoutMs)"
      if "sy_seen m ! task" "sy_heartbeats m ! task \<le> nowMs" "nowMs - sy_heartbeats m ! task \<le> timeoutMs"
      using 1 [OF True] that by (simp add: not_less)
    ultimately show ?thesis unfolding from_task by blast
  qed (subst healthy_from.simps, auto)
qed

section \<open>Properties\<close>

text \<open>
  C34: after any history of calls, given newest first, the monitor reports health exactly when
  every expected task (16 at most) has sent a heartbeat and its last one is neither in the
  future nor older than the timeout; a silent task is noticed whatever the others do. The
  high-water mark of each of the 16 queues is the largest value ever recorded for it.
\<close>

theorem monitor_notices_silence:
  assumes "m = foldr monitor_step h SystemMonitor_init"
  shows "(healthy nowMs timeoutMs m \<longleftrightarrow> (\<forall>task \<in> {0..<min (expected_of h) kMaximumTasks}.
      case last_beat task h of None \<Rightarrow> False | Some t \<Rightarrow> t \<le> nowMs \<and> nowMs - t \<le> timeoutMs)) \<and>
    (\<forall>q \<in> {0..<kMaximumQueues}. queueHighWater q m = high_of q h)"
proof -
  have inv: "monitor_inv h m" unfolding assms by (rule monitor_run)
  have "sy_seen m ! k \<and> sy_heartbeats m ! k \<le> nowMs \<and> nowMs - sy_heartbeats m ! k \<le> timeoutMs \<longleftrightarrow>
      (case last_beat k h of None \<Rightarrow> False | Some t \<Rightarrow> t \<le> nowMs \<and> nowMs - t \<le> timeoutMs)"
    if "k < kMaximumTasks" for k
    using inv that by (cases "last_beat k h") (auto simp: monitor_inv_def)
  moreover have "sy_expectedTasks m = min (expected_of h) kMaximumTasks" using inv by (simp add: monitor_inv_def)
  ultimately have "healthy nowMs timeoutMs m \<longleftrightarrow> (\<forall>task \<in> {0..<min (expected_of h) kMaximumTasks}.
      case last_beat task h of None \<Rightarrow> False | Some t \<Rightarrow> t \<le> nowMs \<and> nowMs - t \<le> timeoutMs)"
    unfolding healthy_def healthy_from_iff by auto
  moreover have "\<forall>q \<in> {0..<kMaximumQueues}. queueHighWater q m = high_of q h"
    using inv by (simp add: monitor_inv_def queueHighWater_def)
  ultimately show ?thesis by blast
qed

lemma monitor_notices_silence_witness:
  "healthy 100 50 (foldr monitor_step [OpBeat 1 60, OpBeat 0 70, OpExpect 2] SystemMonitor_init) \<and>
   \<not> healthy 200 50 (foldr monitor_step [OpBeat 1 60, OpBeat 0 170, OpExpect 2] SystemMonitor_init)"
proof -
  have "\<forall>task \<in> {0..<min (expected_of [OpBeat 1 60, OpBeat 0 70, OpExpect 2]) kMaximumTasks}.
      case last_beat task [OpBeat 1 60, OpBeat 0 70, OpExpect 2] of
        None \<Rightarrow> False | Some t \<Rightarrow> t \<le> (100 :: u64) \<and> 100 - t \<le> 50"
    "\<not> (\<forall>task \<in> {0..<min (expected_of [OpBeat 1 60, OpBeat 0 170, OpExpect 2]) kMaximumTasks}.
      case last_beat task [OpBeat 1 60, OpBeat 0 170, OpExpect 2] of
        None \<Rightarrow> False | Some t \<Rightarrow> t \<le> (200 :: u64) \<and> 200 - t \<le> 50)"
    by code_simp+
  then show ?thesis
    using monitor_notices_silence [OF refl, of 100 50 "[OpBeat 1 60, OpBeat 0 70, OpExpect 2]"]
      monitor_notices_silence [OF refl, of 200 50 "[OpBeat 1 60, OpBeat 0 170, OpExpect 2]"] by blast
qed

end
