(* ===== verification/Time_Service.thy ===== *)
theory Time_Service
  imports Dali_Prelude
begin

text \<open>
  The time source, \<open>i_time_source.h\<close> and \<open>esp_time_source.h/.cpp\<close>. \<open>esp_timer_get_time\<close>, a
  signed 64-bit count of microseconds, is the parameter \<open>now\<close> of the methods that read it; the
  critical sections make each method one step, which \<open>Time_Interleaving\<close> justifies.
\<close>

record EspTimeSource =
  tm_unixAtSyncSeconds :: u64
  tm_uptimeAtSyncMs :: u64
  tm_synchronised :: bool

definition EspTimeSource_init :: EspTimeSource where
  "EspTimeSource_init = \<lparr>tm_unixAtSyncSeconds = 0, tm_uptimeAtSyncMs = 0, tm_synchronised = False\<rparr>"

definition uptimeMs :: "64 word \<Rightarrow> u64" where
  "uptimeMs now = now div 1000"

definition unixTimeValid :: "EspTimeSource \<Rightarrow> bool" where
  "unixTimeValid t = tm_synchronised t"

definition unixTimeSeconds :: "64 word \<Rightarrow> EspTimeSource \<Rightarrow> u64" where
  "unixTimeSeconds now t =
     (let unixAtSync = tm_unixAtSyncSeconds t; uptimeAtSync = tm_uptimeAtSyncMs t;
          valid = tm_synchronised t
      in if \<not> valid then 0
         else let currentUptime = uptimeMs now
              in if currentUptime < uptimeAtSync then unixAtSync
                 else unixAtSync + (currentUptime - uptimeAtSync) div 1000)"

definition synchroniseUnixTime :: "u64 \<Rightarrow> u64 \<Rightarrow> EspTimeSource \<Rightarrow> EspTimeSource" where
  "synchroniseUnixTime unixSeconds uptimeAtSync t =
     t\<lparr>tm_unixAtSyncSeconds := unixSeconds, tm_uptimeAtSyncMs := uptimeAtSync, tm_synchronised := True\<rparr>"

record 't ITimeSource =
  ts_uptimeMs :: "'t \<Rightarrow> u64"
  ts_unixTimeValid :: "'t \<Rightarrow> bool"
  ts_unixTimeSeconds :: "'t \<Rightarrow> u64"
  ts_synchroniseUnixTime :: "u64 \<Rightarrow> u64 \<Rightarrow> 't \<Rightarrow> 't"

definition esp_time_source :: "64 word \<Rightarrow> EspTimeSource ITimeSource" where
  "esp_time_source now = \<lparr>ts_uptimeMs = (\<lambda>_. uptimeMs now), ts_unixTimeValid = unixTimeValid,
     ts_unixTimeSeconds = unixTimeSeconds now, ts_synchroniseUnixTime = synchroniseUnixTime\<rparr>"

section \<open>The contract of a time source\<close>

text \<open>
  A time source is looked at through the timer: \<open>source now\<close> are its methods while the timer
  reads \<open>now\<close>. Its uptime does not run backwards, and after a synchronisation the Unix time
  goes on with it.
\<close>

locale time_source =
  fixes source :: "64 word \<Rightarrow> 't ITimeSource"
  assumes uptime_steady: "now \<le> now' \<Longrightarrow> ts_uptimeMs (source now) t \<le> ts_uptimeMs (source now') t"
    and uptime_kept: "ts_uptimeMs (source now) (ts_synchroniseUnixTime (source n) u up t) = ts_uptimeMs (source now) t"
    and sync_valid: "ts_unixTimeValid (source now) (ts_synchroniseUnixTime (source n) u up t)"
    and sync_seconds: "up \<le> ts_uptimeMs (source now) t \<Longrightarrow> unat u + unat now < 2 ^ 64 \<Longrightarrow>
      unat (ts_unixTimeSeconds (source now) (ts_synchroniseUnixTime (source n) u up t)) =
        unat u + (unat (ts_uptimeMs (source now) t) - unat up) div 1000"
begin

text \<open>
  Synchronising a source with its own reading loses the begun second: afterwards it is behind
  what it would have shown by one second at most, and never ahead.
\<close>

lemma resynchronised:
  assumes "t1 = ts_synchroniseUnixTime (source n0) u up t" "up \<le> ts_uptimeMs (source n1) t"
    and "t2 = ts_synchroniseUnixTime (source n1) (ts_unixTimeSeconds (source n1) t1) (ts_uptimeMs (source n1) t1) t1"
    and "n1 \<le> now" "unat u + 2 * unat now < 2 ^ 64" "unat (ts_uptimeMs (source n1) t) \<le> unat n1"
  shows "unat (ts_unixTimeSeconds (source now) t2) \<le> unat (ts_unixTimeSeconds (source now) t1)"
    and "unat (ts_unixTimeSeconds (source now) t1) \<le> unat (ts_unixTimeSeconds (source now) t2) + 1"
proof -
  let ?a = "unat (ts_uptimeMs (source n1) t) - unat up"
  let ?b = "unat (ts_uptimeMs (source now) t) - unat (ts_uptimeMs (source n1) t)"
  have n: "unat n1 \<le> unat now" using assms(4) by (simp add: word_le_nat_alt)
  have le: "unat up \<le> unat (ts_uptimeMs (source n1) t)"
    "unat (ts_uptimeMs (source n1) t) \<le> unat (ts_uptimeMs (source now) t)"
    using assms(2) uptime_steady [OF assms(4), of t] by (simp_all add: word_le_nat_alt)
  have one: "unat (ts_unixTimeSeconds (source n1) t1) = unat u + ?a div 1000"
    unfolding assms(1) using assms(5) n by (intro sync_seconds [OF assms(2)]) simp
  have now: "unat (ts_unixTimeSeconds (source now) t1) = unat u + (?a + ?b) div 1000"
  proof -
    have "up \<le> ts_uptimeMs (source now) t" using le by (simp add: word_le_nat_alt)
    from sync_seconds [OF this, of u n0] assms(5) have
      "unat (ts_unixTimeSeconds (source now) t1) = unat u + (unat (ts_uptimeMs (source now) t) - unat up) div 1000"
      by (simp add: assms(1))
    moreover have "unat (ts_uptimeMs (source now) t) - unat up = ?a + ?b" using le by simp
    ultimately show ?thesis by simp
  qed
  have again: "unat (ts_unixTimeSeconds (source now) t2) = unat u + ?a div 1000 + ?b div 1000"
  proof -
    have "?a div 1000 \<le> unat n1" using assms(6) by (meson diff_le_self div_le_dividend order_trans)
    then have "unat (ts_unixTimeSeconds (source n1) t1) + unat now < 2 ^ 64" using one n assms(5) by linarith
    with sync_seconds [OF uptime_steady [OF assms(4), of t1], of _ n1] show ?thesis
      by (simp add: assms(3) one) (simp add: assms(1) uptime_kept)
  qed
  show "unat (ts_unixTimeSeconds (source now) t2) \<le> unat (ts_unixTimeSeconds (source now) t1)"
    unfolding now again using div_add1_eq [of ?a ?b 1000] by linarith
  have "(?a mod 1000 + ?b mod 1000) div 1000 \<le> 1" by linarith
  then show "unat (ts_unixTimeSeconds (source now) t1) \<le> unat (ts_unixTimeSeconds (source now) t2) + 1"
    unfolding now again using div_add1_eq [of ?a ?b 1000] by linarith
qed

end

text \<open>The ESP time source keeps the contract.\<close>

lemma unat_uptimeMs: "unat (uptimeMs now) = unat now div 1000"
  by (simp add: uptimeMs_def unat_div)

lemma seconds_after_sync:
  assumes "unat u + unat now < 2 ^ 64"
  shows "unat (unixTimeSeconds now (synchroniseUnixTime u up t)) = unat u + (unat now div 1000 - unat up) div 1000"
proof (cases "uptimeMs now < up")
  case True
  then have "unat now div 1000 < unat up" by (simp add: word_less_nat_alt unat_uptimeMs)
  with True show ?thesis by (simp add: unixTimeSeconds_def synchroniseUnixTime_def)
next
  case False
  then have d: "unat ((uptimeMs now - up) div 1000) = (unat now div 1000 - unat up) div 1000"
    by (simp add: unat_div unat_sub unat_uptimeMs)
  have "(unat now div 1000 - unat up) div 1000 \<le> unat now"
    by (meson div_le_dividend diff_le_self order_trans)
  then have "unat u + unat ((uptimeMs now - up) div 1000) < 2 ^ 64" using assms d by linarith
  then have "unat (u + (uptimeMs now - up) div 1000) = unat u + unat ((uptimeMs now - up) div 1000)"
    by (simp add: unat_word_ariths)
  with False d show ?thesis by (simp add: unixTimeSeconds_def synchroniseUnixTime_def Let_def)
qed

interpretation esp: time_source esp_time_source
proof
  show "ts_uptimeMs (esp_time_source now) t \<le> ts_uptimeMs (esp_time_source now') t" if "now \<le> now'" for now now' t
    using that by (simp add: esp_time_source_def word_le_nat_alt unat_uptimeMs div_le_mono)
qed (simp_all add: esp_time_source_def unixTimeValid_def synchroniseUnixTime_def [of _ _ t for t]
    seconds_after_sync [unfolded synchroniseUnixTime_def] unat_uptimeMs)

section \<open>Properties\<close>

text \<open>
  C35: after a synchronisation the Unix time is the synchronised second plus the whole seconds
  of uptime since, the synchronised second itself while the uptime is still behind, and it
  never runs backwards; before the first one it is invalid and 0. The timer does not reach its
  64-bit end, nor do the seconds.
\<close>

theorem unix_time_follows_uptime:
  assumes "now \<le> now'" "unat u + unat now' < 2 ^ 64"
    and "t' = synchroniseUnixTime u up t"
  shows "unixTimeValid t' \<and>
    unat (unixTimeSeconds now t') = unat u + (unat now div 1000 - unat up) div 1000 \<and>
    unixTimeSeconds now t' \<le> unixTimeSeconds now' t' \<and>
    \<not> unixTimeValid EspTimeSource_init \<and> unixTimeSeconds now EspTimeSource_init = 0"
proof -
  note secs = seconds_after_sync [of u _ up t, folded assms(3)]
  have "unat now \<le> unat now'" using assms(1) by (simp add: word_le_nat_alt)
  then have n: "unat u + unat now < 2 ^ 64" using assms(2) by linarith
  have "(unat now div 1000 - unat up) div 1000 \<le> (unat now' div 1000 - unat up) div 1000"
    using \<open>unat now \<le> unat now'\<close> by (intro div_le_mono diff_le_mono)
  then have "unixTimeSeconds now t' \<le> unixTimeSeconds now' t'"
    using secs [of now] secs [of now'] n assms(2) by (simp add: word_le_nat_alt)
  with secs [of now] n show ?thesis
    by (simp add: assms(3) unixTimeValid_def synchroniseUnixTime_def EspTimeSource_init_def unixTimeSeconds_def)
qed

lemma unix_time_follows_uptime_witness:
  "unat (unixTimeSeconds 9000000 (synchroniseUnixTime 1700000000 4000 EspTimeSource_init)) = 1700000005"
  using unix_time_follows_uptime [OF _ _ refl, of 9000000 9000000 1700000000 4000 EspTimeSource_init] by simp

end
