(* ===== verification/Diagnostics.thy ===== *)
theory Diagnostics
  imports Core_Types
begin

text \<open>The rule engine \<open>diagnostics.h/.cpp\<close>: the first rule that applies decides.\<close>

record DiagnosticObservation =
  do_present :: bool
  do_commandedOn :: bool
  do_lampFailureFlag :: bool
  do_gearFailureFlag :: bool
  do_temperatureC :: f32
  do_temperatureWarningC :: f32
  do_temperatureCriticalC :: f32
  do_currentAbnormal :: bool
  do_powerAbnormal :: bool

definition DiagnosticObservation_init :: DiagnosticObservation where
  "DiagnosticObservation_init = \<lparr>do_present = True, do_commandedOn = False, do_lampFailureFlag = False,
     do_gearFailureFlag = False, do_temperatureC = f32_lit 0, do_temperatureWarningC = f32_lit 80,
     do_temperatureCriticalC = f32_lit 90, do_currentAbnormal = False, do_powerAbnormal = False\<rparr>"

record DiagnosticResult =
  dr_confirmed :: bool
  dr_warning :: bool
  dr_critical :: bool
  dr_eventType :: LightEventType
  dr_severity :: EventSeverity
  dr_confidence :: f32

definition DiagnosticResult_init :: DiagnosticResult where
  "DiagnosticResult_init = \<lparr>dr_confirmed = False, dr_warning = False, dr_critical = False,
     dr_eventType = LeHealthScoreChanged, dr_severity = SevInfo, dr_confidence = f32_lit 0\<rparr>"

definition diag_evaluate :: "DiagnosticObservation \<Rightarrow> DiagnosticResult" where
  "diag_evaluate ob =
     (if do_lampFailureFlag ob
      then \<lparr>dr_confirmed = True, dr_warning = False, dr_critical = True,
             dr_eventType = LeLampFailure, dr_severity = SevCritical, dr_confidence = f32_lit 1\<rparr>
      else if do_gearFailureFlag ob
      then \<lparr>dr_confirmed = True, dr_warning = False, dr_critical = True,
             dr_eventType = LeControlGearFailure, dr_severity = SevCritical, dr_confidence = f32_lit 1\<rparr>
      else if \<not> do_present ob
      then \<lparr>dr_confirmed = True, dr_warning = False, dr_critical = True,
             dr_eventType = LeDeviceMissing, dr_severity = SevCritical, dr_confidence = f32_lit 1\<rparr>
      else if f32_le (do_temperatureCriticalC ob) (do_temperatureC ob)
      then \<lparr>dr_confirmed = True, dr_warning = True, dr_critical = True,
             dr_eventType = LeThermalCritical, dr_severity = SevCritical, dr_confidence = f32_lit 1\<rparr>
      else if f32_le (do_temperatureWarningC ob) (do_temperatureC ob)
      then \<lparr>dr_confirmed = False, dr_warning = True, dr_critical = False,
             dr_eventType = LeThermalWarning, dr_severity = SevWarning, dr_confidence = f32_lit (8 / 10)\<rparr>
      else if do_currentAbnormal ob \<or> do_powerAbnormal ob
      then \<lparr>dr_confirmed = False, dr_warning = True, dr_critical = False,
             dr_eventType = LeElectricalDrift, dr_severity = SevWarning, dr_confidence = f32_lit (5 / 10)\<rparr>
      else DiagnosticResult_init)"

text \<open>A confirmed finding is a critical one and carries full confidence.\<close>

lemma diag_consistent:
  "dr_critical (diag_evaluate ob) \<longleftrightarrow> dr_severity (diag_evaluate ob) = SevCritical"
  "dr_confirmed (diag_evaluate ob) \<longleftrightarrow> dr_critical (diag_evaluate ob)"
  "dr_severity (diag_evaluate ob) = SevWarning \<longleftrightarrow> dr_warning (diag_evaluate ob) \<and> \<not> dr_critical (diag_evaluate ob)"
  by (auto simp: diag_evaluate_def DiagnosticResult_init_def)

text \<open>The rules ordered by weight: severity and confidence go together.\<close>

lemma confidence_order:
  "f32_le (f32_lit 0) (f32_lit 0)" "f32_le (f32_lit 0) (f32_lit (5 / 10))" "f32_le (f32_lit 0) (f32_lit (8 / 10))"
  "f32_le (f32_lit 0) (f32_lit 1)" "f32_le (f32_lit (5 / 10)) (f32_lit (5 / 10))"
  "f32_le (f32_lit (5 / 10)) (f32_lit (8 / 10))" "f32_le (f32_lit (5 / 10)) (f32_lit 1)"
  "f32_le (f32_lit (8 / 10)) (f32_lit (8 / 10))" "f32_le (f32_lit (8 / 10)) (f32_lit 1)"
  "f32_le (f32_lit 1) (f32_lit 1)"
  by code_simp+

lemma severity_bounds: "SevInfo \<le> s" "s \<le> SevCritical"
  by (cases s; simp add: less_eq_EventSeverity_def word_le_nat_alt)+

section \<open>Properties\<close>

text \<open>
  C33: a diagnosis means what it says, and heat never calms it. The result is critical exactly
  for a failed lamp or gear, an absent device or a temperature at the critical threshold; the
  confirmed findings are the critical ones; no finding is the empty result. With thresholds in
  order, a hotter reading of the same device never gets a lower severity or confidence.
\<close>

theorem diagnosis_sound:
  assumes "f32_le (do_temperatureC ob) t" and "f32_le (do_temperatureWarningC ob) (do_temperatureCriticalC ob)"
  shows "(dr_critical (diag_evaluate ob) \<longleftrightarrow> do_lampFailureFlag ob \<or> do_gearFailureFlag ob \<or> \<not> do_present ob \<or>
      f32_le (do_temperatureCriticalC ob) (do_temperatureC ob)) \<and>
    (dr_critical (diag_evaluate ob) \<longleftrightarrow> dr_severity (diag_evaluate ob) = SevCritical) \<and>
    (dr_confirmed (diag_evaluate ob) \<longleftrightarrow> dr_critical (diag_evaluate ob)) \<and>
    (dr_severity (diag_evaluate ob) = SevInfo \<longleftrightarrow> diag_evaluate ob = DiagnosticResult_init) \<and>
    dr_severity (diag_evaluate ob) \<le> dr_severity (diag_evaluate (ob\<lparr>do_temperatureC := t\<rparr>)) \<and>
    f32_le (dr_confidence (diag_evaluate ob)) (dr_confidence (diag_evaluate (ob\<lparr>do_temperatureC := t\<rparr>)))"
proof -
  have up: "f32_le x (do_temperatureC ob) \<Longrightarrow> f32_le x t" for x
    using assms(1) f32_le_trans by blast
  have flags: "dr_critical (diag_evaluate ob) \<longleftrightarrow> do_lampFailureFlag ob \<or> do_gearFailureFlag ob \<or> \<not> do_present ob \<or>
      f32_le (do_temperatureCriticalC ob) (do_temperatureC ob)"
    by (simp add: diag_evaluate_def DiagnosticResult_init_def)
  have none: "dr_severity (diag_evaluate ob) = SevInfo \<longleftrightarrow> diag_evaluate ob = DiagnosticResult_init"
    by (simp add: diag_evaluate_def DiagnosticResult_init_def)
  have severity: "dr_severity (diag_evaluate ob) \<le> dr_severity (diag_evaluate (ob\<lparr>do_temperatureC := t\<rparr>))"
    using up [of "do_temperatureWarningC ob"] up [of "do_temperatureCriticalC ob"] assms(2) severity_bounds
    by (auto simp: diag_evaluate_def DiagnosticResult_init_def dest: f32_le_trans)
  have confidence: "f32_le (dr_confidence (diag_evaluate ob)) (dr_confidence (diag_evaluate (ob\<lparr>do_temperatureC := t\<rparr>)))"
    using up [of "do_temperatureWarningC ob"] up [of "do_temperatureCriticalC ob"] assms(2) confidence_order
    by (auto simp: diag_evaluate_def DiagnosticResult_init_def dest: f32_le_trans)
  show ?thesis using flags none severity confidence diag_consistent by blast
qed

lemma diagnosis_sound_witness:
  "dr_severity (diag_evaluate (DiagnosticObservation_init\<lparr>do_temperatureC := f32_lit 85\<rparr>)) \<le>
   dr_severity (diag_evaluate (DiagnosticObservation_init\<lparr>do_temperatureC := f32_lit 95\<rparr>))"
proof -
  have "f32_le (f32_lit 85) (f32_lit 95)" "f32_le (f32_lit 80) (f32_lit 90)" by code_simp+
  with diagnosis_sound [of "DiagnosticObservation_init\<lparr>do_temperatureC := f32_lit 85\<rparr>" "f32_lit 95"]
  show ?thesis by (simp only: DiagnosticObservation_init_def) simp
qed

end
