(* ===== verification/App_Config.thy ===== *)
theory App_Config
  imports Dali_Phy
begin

text \<open>
  The configuration \<open>app_config.h/.cpp\<close> and the foundation check
  \<open>foundation_runtime.h/.cpp\<close>. The \<open>CONFIG_SAVANTIX_*\<close> macros of the generated
  \<open>sdkconfig.h\<close> are the record \<open>Kconfig\<close>, integers as the preprocessor sees them; the
  conversions to the members' types are the source's.
\<close>

record SmartLightConfig =
  cfg_daliTxGpio :: int
  cfg_daliRxGpio :: int
  cfg_busPowerGpio :: int
  cfg_transceiverFaultGpio :: int
  cfg_busVoltageAdcGpio :: int
  cfg_busCurrentAdcGpio :: int
  cfg_c6TxGpio :: int
  cfg_c6RxGpio :: int
  cfg_c6RtsGpio :: int
  cfg_c6CtsGpio :: int
  cfg_maximumLights :: u8
  cfg_onStatusPollMs :: u32
  cfg_offStatusPollMs :: u32
  cfg_warningStatusPollMs :: u32
  cfg_maxCommandRetries :: u8
  cfg_maximumNormalBusUtilisation :: f32
  cfg_maximumDiagnosticBusUtilisation :: f32
  cfg_temperatureWarningC :: f32
  cfg_temperatureCriticalC :: f32
  cfg_warningPersistenceSamples :: u8
  cfg_faultPersistenceSamples :: u8
  cfg_recoveryPersistenceSamples :: u8
  cfg_c6Enabled :: bool
  cfg_demoEnabled :: bool
  cfg_anomalyInterfaceEnabled :: bool

definition kMaximumDaliLights :: u8 where "kMaximumDaliLights = 64"

definition config_defaults :: SmartLightConfig where
  "config_defaults = \<lparr>cfg_daliTxGpio = -1, cfg_daliRxGpio = -1, cfg_busPowerGpio = -1,
     cfg_transceiverFaultGpio = -1, cfg_busVoltageAdcGpio = -1, cfg_busCurrentAdcGpio = -1,
     cfg_c6TxGpio = -1, cfg_c6RxGpio = -1, cfg_c6RtsGpio = -1, cfg_c6CtsGpio = -1,
     cfg_maximumLights = 64, cfg_onStatusPollMs = 5000, cfg_offStatusPollMs = 30000,
     cfg_warningStatusPollMs = 2000, cfg_maxCommandRetries = 3,
     cfg_maximumNormalBusUtilisation = f32_lit (30 / 100),
     cfg_maximumDiagnosticBusUtilisation = f32_lit (60 / 100),
     cfg_temperatureWarningC = f32_lit 80, cfg_temperatureCriticalC = f32_lit 90,
     cfg_warningPersistenceSamples = 3, cfg_faultPersistenceSamples = 5,
     cfg_recoveryPersistenceSamples = 10, cfg_c6Enabled = False, cfg_demoEnabled = True,
     cfg_anomalyInterfaceEnabled = False\<rparr>"

record Kconfig =
  kc_daliTxGpio :: int
  kc_daliRxGpio :: int
  kc_busPowerGpio :: int
  kc_transceiverFaultGpio :: int
  kc_busVoltageAdcGpio :: int
  kc_busCurrentAdcGpio :: int
  kc_c6TxGpio :: int
  kc_c6RxGpio :: int
  kc_c6RtsGpio :: int
  kc_c6CtsGpio :: int
  kc_maxLights :: int
  kc_onStatusPollMs :: int
  kc_offStatusPollMs :: int
  kc_warningStatusPollMs :: int
  kc_maxCommandRetries :: int
  kc_normalBusUtilisationPercent :: int
  kc_diagnosticBusUtilisationPercent :: int
  kc_temperatureWarningC :: int
  kc_temperatureCriticalC :: int
  kc_warningPersistenceSamples :: int
  kc_faultPersistenceSamples :: int
  kc_recoveryPersistenceSamples :: int
  kc_c6Enable :: bool
  kc_demoEnable :: bool
  kc_anomalyInterfaceEnable :: bool

text \<open>\<open>None\<close> is a build without \<open>ESP_PLATFORM\<close>, the host tests.\<close>

definition fromKconfig :: "Kconfig option \<Rightarrow> SmartLightConfig" where
  "fromKconfig platform =
     (case platform of
        None \<Rightarrow> config_defaults
      | Some k \<Rightarrow>
          let config = config_defaults\<lparr>
                cfg_daliTxGpio := kc_daliTxGpio k,
                cfg_daliRxGpio := kc_daliRxGpio k,
                cfg_busPowerGpio := kc_busPowerGpio k,
                cfg_transceiverFaultGpio := kc_transceiverFaultGpio k,
                cfg_busVoltageAdcGpio := kc_busVoltageAdcGpio k,
                cfg_busCurrentAdcGpio := kc_busCurrentAdcGpio k,
                cfg_c6TxGpio := kc_c6TxGpio k,
                cfg_c6RxGpio := kc_c6RxGpio k,
                cfg_c6RtsGpio := kc_c6RtsGpio k,
                cfg_c6CtsGpio := kc_c6CtsGpio k,
                cfg_maximumLights := word_of_int (kc_maxLights k),
                cfg_onStatusPollMs := word_of_int (kc_onStatusPollMs k),
                cfg_offStatusPollMs := word_of_int (kc_offStatusPollMs k),
                cfg_warningStatusPollMs := word_of_int (kc_warningStatusPollMs k),
                cfg_maxCommandRetries := word_of_int (kc_maxCommandRetries k),
                cfg_maximumNormalBusUtilisation :=
                  f32_div (f32_lit (of_int (kc_normalBusUtilisationPercent k))) (f32_lit 100),
                cfg_maximumDiagnosticBusUtilisation :=
                  f32_div (f32_lit (of_int (kc_diagnosticBusUtilisationPercent k))) (f32_lit 100),
                cfg_temperatureWarningC := f32_lit (of_int (kc_temperatureWarningC k)),
                cfg_temperatureCriticalC := f32_lit (of_int (kc_temperatureCriticalC k)),
                cfg_warningPersistenceSamples := word_of_int (kc_warningPersistenceSamples k),
                cfg_faultPersistenceSamples := word_of_int (kc_faultPersistenceSamples k),
                cfg_recoveryPersistenceSamples := word_of_int (kc_recoveryPersistenceSamples k)\<rparr>;
              config = (if kc_c6Enable k then config\<lparr>cfg_c6Enabled := True\<rparr> else config);
              config = (if kc_demoEnable k then config\<lparr>cfg_demoEnabled := True\<rparr>
                        else config\<lparr>cfg_demoEnabled := False\<rparr>)
          in if kc_anomalyInterfaceEnable k then config\<lparr>cfg_anomalyInterfaceEnabled := True\<rparr> else config)"

definition validate :: "SmartLightConfig \<Rightarrow> bool" where
  "validate c \<longleftrightarrow>
     (let lightCountValid = (0 < cfg_maximumLights c \<and> cfg_maximumLights c \<le> kMaximumDaliLights);
          periodsValid = (0 < cfg_onStatusPollMs c \<and> 0 < cfg_offStatusPollMs c \<and>
                          0 < cfg_warningStatusPollMs c);
          retryValid = (cfg_maxCommandRetries c \<le> 8);
          utilisationValid = (f32_lt (f32_lit 0) (cfg_maximumNormalBusUtilisation c) \<and>
            f32_le (cfg_maximumNormalBusUtilisation c) (f32_lit 1) \<and>
            f32_le (cfg_maximumNormalBusUtilisation c) (cfg_maximumDiagnosticBusUtilisation c) \<and>
            f32_le (cfg_maximumDiagnosticBusUtilisation c) (f32_lit 1));
          temperatureValid = f32_lt (cfg_temperatureWarningC c) (cfg_temperatureCriticalC c);
          persistenceValid = (0 < cfg_warningPersistenceSamples c \<and>
            0 < cfg_faultPersistenceSamples c \<and> 0 < cfg_recoveryPersistenceSamples c);
          daliPinsDistinct = (cfg_daliTxGpio c < 0 \<or> cfg_daliRxGpio c < 0 \<or>
            cfg_daliTxGpio c \<noteq> cfg_daliRxGpio c);
          c6PinsValid = (\<not> cfg_c6Enabled c \<or>
            (0 \<le> cfg_c6TxGpio c \<and> 0 \<le> cfg_c6RxGpio c \<and> cfg_c6TxGpio c \<noteq> cfg_c6RxGpio c))
      in lightCountValid \<and> periodsValid \<and> retryValid \<and> utilisationValid \<and> temperatureValid \<and>
         persistenceValid \<and> daliPinsDistinct \<and> c6PinsValid)"

section \<open>The foundation check\<close>

datatype FoundationResult = FrReady | FrInvalidConfiguration | FrPhyInitialisationFailed | FrPhyUnhealthy

definition initialiseFoundation ::
  "SmartLightConfig \<Rightarrow> 'p IDaliPhy \<Rightarrow> 'p \<Rightarrow> FoundationResult \<times> 'p"
where
  "initialiseFoundation config dev p =
     (if \<not> validate config then (FrInvalidConfiguration, p)
      else
        let (r, p) = phy_init dev p in
        if r \<noteq> PhyOk then (FrPhyInitialisationFailed, p)
        else
          let health = phy_health dev p in
          if \<not> ph_initialised health \<or> \<not> ph_busPowered health \<or> \<not> ph_transceiverHealthy health \<or>
             ph_lineStuckHigh health \<or> ph_lineStuckLow health
          then (FrPhyUnhealthy, p) else (FrReady, p))"

lemma validate_retries: "validate c \<Longrightarrow> cfg_maxCommandRetries c \<le> 8"
  by (simp add: validate_def Let_def)

lemma defaults_valid: "validate config_defaults" "validate (fromKconfig None)"
  by code_simp+

end
