(* ===== verification/App_Main.thy ===== *)
theory App_Main
  imports App_Adapters App_Config
begin

text \<open>
  \<open>app_main\<close> of \<open>app_main.cpp\<close> up to the creation of the demo task: the configuration, the
  foundation on the static simulated PHY, and the self-check that sends one status query
  through pipeline, transaction service and parser. Log lines are the outcome value; the delay
  provider's SDK functions are parameters, as is the state \<open>d\<close> of the delay.
\<close>

datatype BootOutcome =
    BootInvalidConfiguration | BootNoHardwarePhy | BootFoundationFailed FoundationResult
  | BootSetupFailed | BootQueueFull | BootTransactionFailed | BootResponseInvalid | BootDemoStarted

definition app_main ::
  "(u32 \<Rightarrow> 'd \<Rightarrow> 'd) \<Rightarrow> (u32 \<Rightarrow> u32) \<Rightarrow> 'd \<Rightarrow> Kconfig option \<Rightarrow> BootOutcome \<times> SimulatedDaliPhy \<times> 'd"
where
  "app_main vTaskDelay pdMS_TO_TICKS d platform =
     (let config = fromKconfig platform in
      if \<not> validate config then (BootInvalidConfiguration, SimulatedDaliPhy_init, d)
      else if \<not> cfg_demoEnabled config then (BootNoHardwarePhy, SimulatedDaliPhy_init, d)
      else
        let (result, phy) = initialiseFoundation config sim_phy SimulatedDaliPhy_init in
        if result \<noteq> FrReady then (BootFoundationFailed result, phy, d)
        else
          case ShortAddress_fromRaw 3 of
            None \<Rightarrow> (BootSetupFailed, phy, d)
          | Some address \<Rightarrow>
              let (queued, phy) = enqueueResponse \<lparr>sr_result = PhyOk, sr_value = 0x04, sr_delayMs = 0\<rparr> phy in
              if queued \<noteq> PhyOk then (BootSetupFailed, phy, d)
              else
                let ops = app_ops vTaskDelay pdMS_TO_TICKS;
                    pl = pipeline_init \<lparr>bus_phy = phy, bus_delay = d, bus_jitter = lcg_seed\<rparr>;
                    (accepted, pl) = pl_enqueue \<lparr>rq_frame = makeShortCommand address QueryStatus,
                       rq_expectsResponse = True, rq_timeoutMs = 20,
                       rq_maxRetries = cfg_maxCommandRetries config, rq_priority = CpNormal,
                       rq_deviceKey = sa_value address, rq_requestSequence = 1\<rparr> pl
                in if accepted \<noteq> QrOk then (BootQueueFull, bus_phy (pl_bus pl), bus_delay (pl_bus pl))
                   else
                     let (processed, pl) = pl_processNext ops pl;
                         world = (bus_phy (pl_bus pl), bus_delay (pl_bus pl))
                     in case processed of
                          None \<Rightarrow> (BootTransactionFailed, world)
                        | Some p \<Rightarrow>
                            if tr_status (pd_result p) \<noteq> TsOk then (BootTransactionFailed, world)
                            else case tr_response (pd_result p) of
                                None \<Rightarrow> (BootTransactionFailed, world)
                              | Some response \<Rightarrow>
                                  let status = parseBasicStatus
                                        (makeBackwardResponse (tr_lastPhyResult (pd_result p)) response)
                                  in if \<not> hasValue status \<or> \<not> bs_lampPowerOn (rd_value status)
                                     then (BootResponseInvalid, world)
                                     else (BootDemoStarted, world))"

section \<open>The self-check's transaction\<close>

definition boot_phy :: SimulatedDaliPhy where
  "boot_phy = snd (enqueueResponse \<lparr>sr_result = PhyOk, sr_value = 0x04, sr_delayMs = 0\<rparr>
     (snd (sim_init SimulatedDaliPhy_init)))"

lemma boot_foundation:
  "validate c \<Longrightarrow> initialiseFoundation c sim_phy SimulatedDaliPhy_init =
     (FrReady, snd (sim_init SimulatedDaliPhy_init))"
  by (simp add: initialiseFoundation_def sim_phy_def sim_init_def SimulatedDaliPhy_init_def Let_def)

lemma boot_script:
  "enqueueResponse \<lparr>sr_result = PhyOk, sr_value = 0x04, sr_delayMs = 0\<rparr>
     (snd (sim_init SimulatedDaliPhy_init)) = (PhyOk, boot_phy)"
  by (simp add: boot_phy_def enqueueResponse_def sim_init_def SimulatedDaliPhy_init_def
      kResponseCapacity_def Let_def)

lemma boot_exchange:
  assumes "n \<le> 8"
  shows "\<exists>w. execute (app_ops vTaskDelay pdMS_TO_TICKS) (selfcheck_request n)
      \<lparr>bus_phy = boot_phy, bus_delay = d, bus_jitter = j\<rparr> =
    (\<lparr>tr_status = TsOk, tr_response = Some 4, tr_attempts = 1, tr_lastPhyResult = PhyOk,
      tr_retryDelayTotalMs = 0\<rparr>, w) \<and> bus_delay w = d \<and>
    sp_lastForwardFrame (bus_phy w) = frame_raw (makeShortCommand (ShortAddress 3) QueryStatus) \<and>
    sp_transmittedFrameCount (bus_phy w) = 1"
proof -
  have n: "\<not> kAbsoluteMaxRetries < n" using assms by (simp add: kAbsoluteMaxRetries_def not_less)
  have t: "sim_transmit f boot_phy = (PhyOk, boot_phy\<lparr>sp_lastForwardFrame := f,
      sp_transmittedFrameCount := 1\<rparr>)" for f
    by (simp add: boot_phy_def enqueueResponse_def sim_init_def SimulatedDaliPhy_init_def
        kResponseCapacity_def Let_def sim_transmit_def)
  have r: "\<exists>p. sim_receive 20 (boot_phy\<lparr>sp_lastForwardFrame := f, sp_transmittedFrameCount := 1\<rparr>) =
      (PhyOk, Some 4, p) \<and> sp_lastForwardFrame p = f \<and> sp_transmittedFrameCount p = 1" for f
    by (simp add: boot_phy_def enqueueResponse_def sim_init_def SimulatedDaliPhy_init_def
        kResponseCapacity_def Let_def sim_receive_def)
  obtain p where p: "sim_receive 20 (boot_phy\<lparr>sp_lastForwardFrame :=
        frame_raw (makeShortCommand (ShortAddress 3) QueryStatus), sp_transmittedFrameCount := 1\<rparr>) = (PhyOk, Some 4, p)"
    "sp_lastForwardFrame p = frame_raw (makeShortCommand (ShortAddress 3) QueryStatus)"
    "sp_transmittedFrameCount p = 1"
    using r by blast
  have "exchange (app_ops vTaskDelay pdMS_TO_TICKS) (selfcheck_request n)
      \<lparr>bus_phy = boot_phy, bus_delay = d, bus_jitter = j\<rparr> =
      (PhyOk, 4, \<lparr>bus_phy = p, bus_delay = d, bus_jitter = j\<rparr>)"
    by (simp add: exchange_def app_ops_def sim_phy_def selfcheck_request_def t p(1))
  then show ?thesis using n p(2,3)
    by (simp add: execute_def Let_def execute_loop.simps [of _ _ 0] DaliTransactionResult_init_def
        selfcheck_request_def)
qed

section \<open>Properties\<close>

text \<open>
  C38: the boot sequence succeeds whenever it should. On a fresh simulated PHY every valid
  configuration with the demo enabled reaches the demo task, whatever the retry limit and
  whatever the SDK's delay does; exactly one frame was sent, the status query to short
  address 3, and no delay was spent. An invalid configuration, or one without the demo, stops
  before the PHY is touched.
\<close>

theorem boot_reaches_demo:
  fixes vTaskDelay pdMS_TO_TICKS and d :: 'd and platform
  shows "(validate (fromKconfig platform) \<and> cfg_demoEnabled (fromKconfig platform) \<longrightarrow>
      (\<exists>phy. app_main vTaskDelay pdMS_TO_TICKS d platform = (BootDemoStarted, phy, d) \<and>
        sp_transmittedFrameCount phy = 1 \<and>
        sp_lastForwardFrame phy = frame_raw (makeShortCommand (ShortAddress 3) QueryStatus))) \<and>
    (\<not> (validate (fromKconfig platform) \<and> cfg_demoEnabled (fromKconfig platform)) \<longrightarrow>
      fst (app_main vTaskDelay pdMS_TO_TICKS d platform) \<in> {BootInvalidConfiguration, BootNoHardwarePhy} \<and>
      fst (snd (app_main vTaskDelay pdMS_TO_TICKS d platform)) = SimulatedDaliPhy_init)"
proof (intro conjI impI)
  let ?c = "fromKconfig platform" and ?ops = "app_ops vTaskDelay pdMS_TO_TICKS"
  let ?n = "cfg_maxCommandRetries ?c"
  let ?pl = "pipeline_init \<lparr>bus_phy = boot_phy, bus_delay = d, bus_jitter = lcg_seed\<rparr>"
  assume valid: "validate ?c \<and> cfg_demoEnabled ?c"
  then have "?n \<le> 8" by (simp add: validate_retries)
  from boot_exchange [OF this, of vTaskDelay pdMS_TO_TICKS d lcg_seed] obtain w where
    w: "execute ?ops (selfcheck_request ?n) (pl_bus ?pl) =
      (\<lparr>tr_status = TsOk, tr_response = Some 4, tr_attempts = 1, tr_lastPhyResult = PhyOk,
        tr_retryDelayTotalMs = 0\<rparr>, w)" "bus_delay w = d" "sp_transmittedFrameCount (bus_phy w) = 1"
      "sp_lastForwardFrame (bus_phy w) = frame_raw (makeShortCommand (ShortAddress 3) QueryStatus)"
    by (auto simp: pipeline_init_def)
  obtain pl where pl: "pl_processNext ?ops (snd (pl_enqueue (selfcheck_request ?n) ?pl)) =
      (Some \<lparr>pd_request = selfcheck_request ?n, pd_result = \<lparr>tr_status = TsOk, tr_response = Some 4,
         tr_attempts = 1, tr_lastPhyResult = PhyOk, tr_retryDelayTotalMs = 0\<rparr>\<rparr>, pl)" "pl_bus pl = w"
    using pl_submit_idle [OF pipeline_init_idle w(1)] by (auto simp: pl_submit_def)
  have accepted: "fst (pl_enqueue (selfcheck_request ?n) ?pl) = QrOk"
    by (rule pl_enqueue_idle [OF pipeline_init_idle])
  have parsed: "hasValue (parseBasicStatus (makeBackwardResponse PhyOk 4))"
    "bs_lampPowerOn (rd_value (parseBasicStatus (makeBackwardResponse PhyOk 4)))"
    by (simp_all add: parseBasicStatus_def makeBackwardResponse_def status_of_byte_def)
  have addr: "ShortAddress_fromRaw 3 = Some (ShortAddress 3)" by code_simp
  have "app_main vTaskDelay pdMS_TO_TICKS d platform = (BootDemoStarted, bus_phy w, d)"
    using valid accepted pl w(2) parsed
    by (simp add: app_main_def Let_def boot_foundation boot_script addr selfcheck_request_def case_prod_beta)
  with w(3,4) show "\<exists>phy. app_main vTaskDelay pdMS_TO_TICKS d platform = (BootDemoStarted, phy, d) \<and>
        sp_transmittedFrameCount phy = 1 \<and>
        sp_lastForwardFrame phy = frame_raw (makeShortCommand (ShortAddress 3) QueryStatus)"
    by simp
qed (auto simp: app_main_def Let_def)

lemma boot_reaches_demo_witness:
  "fst (app_main (\<lambda>ms log. log @ [ms]) id [] None) = BootDemoStarted"
  using boot_reaches_demo [of None "\<lambda>ms log. log @ [ms]" id "[]"] defaults_valid(2)
  by (auto simp: fromKconfig_def config_defaults_def)

end
