(* ===== verification/Demo_Controller.thy ===== *)
theory Demo_Controller
  imports Device_Manager Health_Engine Event_Manager C6_Interface
begin

text \<open>
  The four-light demo, \<open>demo_controller.h/.cpp\<close>: device manager, event manager, four health
  engines and the C6 session composed in one step. The device manager holds a reference to the
  demo's query client, whose state (\<open>nowMs_\<close>) is therefore the client state inside the manager;
  the function-static flags of \<open>scanPresence\<close> are passed through \<open>step\<close>.
\<close>

record DemoController =
  demo_devices :: "u64 DaliDeviceManager"
  demo_events :: EventManager
  demo_c6 :: "MockC6Transport C6Session"
  demo_health :: "LightHealthEngine list"
  demo_discoveredLights :: nat

definition DemoController_new :: DemoController where
  "DemoController_new = \<lparr>demo_devices = \<lparr>dm_client = 0, dm_registry = DaliDeviceRegistry_init\<rparr>,
     demo_events = EventManager_init, demo_c6 = C6Session_new MockC6Transport_init 3,
     demo_health = replicate 4 (LightHealthEngine_new HealthScoringConfig_init),
     demo_discoveredLights = 0\<rparr>"

definition demo_query ::
  "ShortAddress \<Rightarrow> DaliCommand \<Rightarrow> CommandPriority \<Rightarrow> u64 \<Rightarrow> DaliQueryResult \<times> u64"
where
  "demo_query address command priority nowMs =
     (if 3 < sa_value address \<or> sa_value address = 3 \<and> command = QueryControlGearPresent \<and>
         nowMs div 2000 mod 2 = 1
      then (\<lparr>qr_outcome = QoNoResponse, qr_response = Reading_temporarilyUnavailable 0,
              qr_attempts = 1, qr_phyResult = PhyTimeout\<rparr>, nowMs)
      else (\<lparr>qr_outcome = QoOk, qr_response = Reading_valid 0 nowMs 0 False,
              qr_attempts = 1, qr_phyResult = PhyOk\<rparr>, nowMs))"

definition DemoQueryClient :: "u64 IDaliQueryClient" where
  "DemoQueryClient = \<lparr>qc_query = demo_query\<rparr>"

definition demo_publish :: "LightEvent \<Rightarrow> DemoController \<Rightarrow> DemoController" where
  "demo_publish event d =
     (let frame = C6Frame_init\<lparr>cf_type := MtLightEvent,
            cf_payload := (cf_payload C6Frame_init)[0 := ev_shortAddress event,
              1 := event_type_code (ev_type event), 2 := severity_code (ev_severity event)],
            cf_payloadLength := 3\<rparr>
      in d\<lparr>demo_c6 := snd (publish mock_transport frame (demo_c6 d))\<rparr>)"

text \<open>\<open>if (events_.raise(event).has_value()) publish(event)\<close>.\<close>

definition raise_publish :: "LightEvent \<Rightarrow> DemoController \<Rightarrow> DemoController" where
  "raise_publish event d =
     (let (raised, em) = em_raise event (demo_events d);
          d = d\<lparr>demo_events := em\<rparr>
      in if raised \<noteq> None then demo_publish event d else d)"

definition change_event :: "u64 \<Rightarrow> DiscoveryChange \<Rightarrow> LightEvent" where
  "change_event nowMs change =
     (let event = LightEvent_init\<lparr>ev_shortAddress := sa_value (dg_address change), ev_timestamp := nowMs\<rparr>;
          event = event\<lparr>ev_type :=
            (if dg_type change = DcDeviceMissing then LeDeviceMissing
             else if dg_type change = DcDeviceRecovered then LeDeviceRecovered
             else LeDeviceDiscovered)\<rparr>
      in event\<lparr>ev_severity := (if ev_type event = LeDeviceMissing then SevCritical else SevInfo)\<rparr>)"

definition change_step :: "u64 \<Rightarrow> DiscoveryChange \<Rightarrow> DemoController \<Rightarrow> DemoController" where
  "change_step nowMs change d =
     (let d = raise_publish (change_event nowMs change) d
      in if dg_type change = DcDeviceDiscovered
         then d\<lparr>demo_discoveredLights := demo_discoveredLights d + 1\<rparr> else d)"

definition demo_observation :: "u64 \<Rightarrow> nat \<Rightarrow> HealthObservation" where
  "demo_observation nowMs address = HealthObservation_init\<lparr>ho_commandedOn := True,
     ho_lampFailure := (address = 1), ho_thermalWarning := (address = 2 \<and> 1000 \<le> nowMs),
     ho_intermittentFault := (address = 3 \<and> nowMs div 2000 mod 2 = 1)\<rparr>"

definition health_event :: "u64 \<Rightarrow> nat \<Rightarrow> HealthObservation \<Rightarrow> HealthEvaluation \<Rightarrow> LightEvent" where
  "health_event nowMs address observation evaluation =
     LightEvent_init\<lparr>ev_shortAddress := word_of_nat address, ev_timestamp := nowMs,
       ev_healthScore := he_healthScore evaluation,
       ev_activeFaultFlags := he_activeFaultFlags evaluation,
       ev_type := (if ho_lampFailure observation then LeLampFailure
                   else if ho_thermalWarning observation then LeThermalWarning
                   else LeIntermittentFault),
       ev_severity := (if ho_lampFailure observation then SevCritical else SevWarning)\<rparr>"

definition health_step :: "u64 \<Rightarrow> nat \<Rightarrow> DemoController \<Rightarrow> DemoController" where
  "health_step nowMs address d =
     (let observation = demo_observation nowMs address;
          (evaluation, engine) = evaluate observation (demo_health d ! address);
          d = d\<lparr>demo_health := (demo_health d)[address := engine]\<rparr>
      in if ho_lampFailure observation \<or> ho_thermalWarning observation \<or> ho_intermittentFault observation
         then raise_publish (health_event nowMs address observation evaluation) d else d)"

definition demo_step :: "u64 \<Rightarrow> bool list \<times> DemoController \<Rightarrow> bool list \<times> DemoController" where
  "demo_step nowMs st =
     (let (reported, d) = st;
          (changes, reported, devices) = scanPresence DemoQueryClient nowMs reported
            ((demo_devices d)\<lparr>dm_client := nowMs\<rparr>);
          d = d\<lparr>demo_devices := devices\<rparr>;
          d = fold (\<lambda>i. change_step nowMs (db_changes changes ! i)) [0..<db_size changes] d;
          d = fold (health_step nowMs) [0..<4] d
      in (reported, d))"

text \<open>
  The loop of the demo task in \<open>app_main.cpp\<close>, as far as the clock readings \<open>clock\<close> go: one
  step for each, on the static controller.
\<close>

definition demo_task :: "u64 list \<Rightarrow> bool list \<times> DemoController" where
  "demo_task clock = fold demo_step clock (replicate 64 False, DemoController_new)"

definition c6MessagesSent :: "DemoController \<Rightarrow> u32" where
  "c6MessagesSent d = sentCount (cs_transport (demo_c6 d))"

definition discoveredLights :: "DemoController \<Rightarrow> nat" where
  [simp]: "discoveredLights d = demo_discoveredLights d"

definition activeFaultEvents :: "DemoController \<Rightarrow> nat" where
  "activeFaultEvents d = em_activeCount (demo_events d)"

definition demo_healthScore :: "u8 \<Rightarrow> DemoController \<Rightarrow> f32" where
  "demo_healthScore address d =
     (if unat address < length (demo_health d) then hn_score (demo_health d ! unat address) else f32_lit 0)"

text \<open>The demo meets the contract the device manager's lemmas rest on.\<close>

interpretation demo_client: dali_query_client DemoQueryClient "\<lambda>_. True"
  by unfold_locales (simp_all add: DemoQueryClient_def demo_query_def)

section \<open>What a scan of the demo reports\<close>

definition demo_silent :: "u64 \<Rightarrow> nat \<Rightarrow> bool" where
  "demo_silent nowMs i \<longleftrightarrow> 3 < i \<or> i = 3 \<and> nowMs div 2000 mod 2 = 1"

lemma demo_asked:
  "n \<le> kRegistryCapacity \<Longrightarrow> snd (asked DemoQueryClient c n) = c \<and>
    (\<forall>i < n. classify (fst (asked DemoQueryClient c n) ! i) = (if demo_silent c i then Silent else Heard))"
proof (induction n)
  case (Suc n)
  then have n: "n < kRegistryCapacity" by simp
  have "unat (word_of_nat n :: u8) = n" by (rule slot_index [OF n])
  then have "3 < (word_of_nat n :: u8) \<longleftrightarrow> 3 < n" "(word_of_nat n :: u8) = 3 \<longleftrightarrow> n = 3"
    by (auto simp: word_less_nat_alt word_unat_eq_iff)
  then have q: "classify (fst (qc_query DemoQueryClient (ShortAddress (word_of_nat n)) QueryControlGearPresent CpHigh c)) =
      (if demo_silent c n then Silent else Heard)"
    "snd (qc_query DemoQueryClient (ShortAddress (word_of_nat n)) QueryControlGearPresent CpHigh c) = c"
    by (auto simp: DemoQueryClient_def demo_query_def demo_silent_def classify_def isValidResponse_def isBusFailure_def)
  show ?case using Suc q(2)
    by (auto simp: asked_Suc q(1) less_Suc_eq nth_append simp del: asked.simps) (simp add: case_prod_beta)
qed simp

text \<open>Who can be in the registry: lights 0 to 2 are always heard, light 3 comes and goes.\<close>

definition demo_view_ok :: "nat \<Rightarrow> light_view \<Rightarrow> bool" where
  "demo_view_ok i v \<longleftrightarrow> (case fst v of None \<Rightarrow> True
     | Some (l, n) \<Rightarrow> i \<le> 3 \<and> (l = DlPresent \<or> i = 3 \<and> l = DlMissing))"

lemma demo_life:
  assumes "demo_view_ok i v" "light_step (if demo_silent nowMs i then Silent else Heard) v = (v', t)"
  shows "demo_view_ok i v'" "t = Some ty \<Longrightarrow> i \<le> 3 \<and>
    (ty = DcDeviceDiscovered \<or> i = 3 \<and> (ty = DcDeviceMissing \<or> ty = DcDeviceRecovered))"
proof -
  obtain s b where v: "v = (s, b)" by (cases v)
  show "demo_view_ok i v'"
    using assms v by (cases s) (auto simp: demo_view_ok_def demo_silent_def split: if_splits)
  show "t = Some ty \<Longrightarrow> i \<le> 3 \<and>
    (ty = DcDeviceDiscovered \<or> i = 3 \<and> (ty = DcDeviceMissing \<or> ty = DcDeviceRecovered))"
    using assms v by (cases s) (auto simp: demo_view_ok_def demo_silent_def split: if_splits)
qed

lemma demo_scan:
  assumes inv: "reg_inv (dm_registry m)" "length reported = kRegistryCapacity" "dm_client m = nowMs"
    and ok: "\<forall>i < kRegistryCapacity. demo_view_ok i (light_view m reported i)"
    and scan: "scanPresence DemoQueryClient nowMs reported m = (batch, reported', m')"
  shows "reg_inv (dm_registry m')" "length reported' = kRegistryCapacity"
    and "\<forall>i < kRegistryCapacity. demo_view_ok i (light_view m' reported' i)"
    and "\<forall>i < kRegistryCapacity. light_view m' reported' i =
      fst (light_step (if demo_silent nowMs i then Silent else Heard) (light_view m reported i))"
    and "batch_list batch = concat (map (\<lambda>i. change_at nowMs i (snd (light_step
      (if demo_silent nowMs i then Silent else Heard) (light_view m reported i)))) [0..<kRegistryCapacity])"
    and "\<forall>c \<in> set (batch_list batch). dg_address c = ShortAddress 3 \<and>
        (dg_type c = DcDeviceMissing \<or> dg_type c = DcDeviceRecovered) \<or>
      dg_type c = DcDeviceDiscovered \<and> (\<exists>i \<le> 3. dg_address c = ShortAddress (word_of_nat i))"
proof -
  note slots = scan_slots [OF inv(1,2) scan]
  show "reg_inv (dm_registry m')" "length reported' = kRegistryCapacity" by (rule slots(1,2))+
  have life: "life_of DemoQueryClient reported m i =
      light_step (if demo_silent nowMs i then Silent else Heard) (light_view m reported i)"
    if "i < kRegistryCapacity" for i
    using demo_asked [OF order.refl, of "dm_client m"] inv(3) that by (simp add: life_of_def)
  show views: "\<forall>i < kRegistryCapacity. light_view m' reported' i =
      fst (light_step (if demo_silent nowMs i then Silent else Heard) (light_view m reported i))"
    using slots(4) life by simp
  show "\<forall>i < kRegistryCapacity. demo_view_ok i (light_view m' reported' i)"
    using demo_life(1) ok views by (metis prod.collapse)
  show b: "batch_list batch = concat (map (\<lambda>i. change_at nowMs i (snd (light_step
      (if demo_silent nowMs i then Silent else Heard) (light_view m reported i)))) [0..<kRegistryCapacity])"
    unfolding slots(5) using life by (intro arg_cong [where f = concat] map_cong) simp_all
  show "\<forall>c \<in> set (batch_list batch). dg_address c = ShortAddress 3 \<and>
        (dg_type c = DcDeviceMissing \<or> dg_type c = DcDeviceRecovered) \<or>
      dg_type c = DcDeviceDiscovered \<and> (\<exists>i \<le> 3. dg_address c = ShortAddress (word_of_nat i))"
  proof
    fix c assume "c \<in> set (batch_list batch)"
    then obtain i where i: "i < kRegistryCapacity" and c: "c \<in> set (change_at nowMs i (snd (light_step
        (if demo_silent nowMs i then Silent else Heard) (light_view m reported i))))"
      unfolding b by (auto simp del: light_step.simps)
    then obtain ty where ty: "snd (light_step (if demo_silent nowMs i then Silent else Heard)
        (light_view m reported i)) = Some ty" "dg_type c = ty" "dg_address c = ShortAddress (word_of_nat i)"
      by (cases "snd (light_step (if demo_silent nowMs i then Silent else Heard) (light_view m reported i))")
        (simp_all add: change_at_def)
    have "i \<le> 3 \<and> (ty = DcDeviceDiscovered \<or> i = 3 \<and> (ty = DcDeviceMissing \<or> ty = DcDeviceRecovered))"
      by (rule demo_life(2) [OF ok [rule_format, OF i] prod.collapse [symmetric] ty(1)])
    with ty(2,3) show "dg_address c = ShortAddress 3 \<and> (dg_type c = DcDeviceMissing \<or> dg_type c = DcDeviceRecovered) \<or>
      dg_type c = DcDeviceDiscovered \<and> (\<exists>i \<le> 3. dg_address c = ShortAddress (word_of_nat i))"
      by auto
  qed
qed

section \<open>Events and messages\<close>

text \<open>Everything the demo can raise, with its severity.\<close>

definition demo_reports :: "(event_key \<times> EventSeverity) list" where
  "demo_reports = [((0, LeDeviceDiscovered), SevInfo), ((1, LeDeviceDiscovered), SevInfo),
     ((2, LeDeviceDiscovered), SevInfo), ((3, LeDeviceDiscovered), SevInfo),
     ((3, LeDeviceMissing), SevCritical), ((3, LeDeviceRecovered), SevInfo),
     ((1, LeLampFailure), SevCritical), ((2, LeThermalWarning), SevWarning),
     ((3, LeIntermittentFault), SevWarning)]"

lemma demo_reports_distinct: "distinct (map fst demo_reports)"
  by (simp add: demo_reports_def)

definition comm_inv :: "DemoController \<Rightarrow> bool" where
  "comm_inv d \<longleftrightarrow> em_inv (demo_events d) \<and>
     (\<forall>k v. em_map (demo_events d) k = Some v \<longrightarrow> (k, ev_severity (fst v)) \<in> set demo_reports) \<and>
     length (mt_lastFrame (cs_transport (demo_c6 d))) = kMaximumEncodedSize \<and>
     cs_maximumRetries (demo_c6 d) = 3 \<and>
     c6MessagesSent d = word_of_nat (em_activeCount (demo_events d))"

lemma comm_new: "comm_inv DemoController_new"
proof -
  have "em_activeCount EventManager_init = 0"
    by (simp add: em_activeCount_def EventManager_init_def ActiveEvent_init_def)
  then show ?thesis
    by (simp add: comm_inv_def DemoController_new_def em_init_inv C6Session_new_def MockC6Transport_init_def
        c6MessagesSent_def)
qed

lemma comm_dom:
  assumes "comm_inv d"
  shows "dom (em_map (demo_events d)) \<subseteq> fst ` set demo_reports"
    and "em_activeCount (demo_events d) \<le> 9"
proof -
  show sub: "dom (em_map (demo_events d)) \<subseteq> fst ` set demo_reports"
    using assms by (force simp: comm_inv_def dom_def)
  have "card (dom (em_map (demo_events d))) \<le> card (fst ` set demo_reports)"
    by (rule card_mono) (use sub in auto)
  also have "\<dots> \<le> length demo_reports" by (metis card_length length_map set_map)
  finally show "em_activeCount (demo_events d) \<le> 9"
    using assms by (simp add: comm_inv_def activeCount_dom demo_reports_def)
qed

lemma mock_publish_counts:
  assumes "length (mt_lastFrame (cs_transport s)) = kMaximumEncodedSize" "frame_ok f" "cs_maximumRetries s \<noteq> 0"
  shows "mt_sentCount (cs_transport (snd (publish mock_transport f s))) = mt_sentCount (cs_transport s) + 1"
  using mock_sends [OF assms] assms(3)
  by (auto simp: publish_def Let_def case_prod_beta mock_transport_def mock_send_def split: if_splits)

lemma raise_publish_frame:
  "demo_devices (raise_publish e d) = demo_devices d" "demo_health (raise_publish e d) = demo_health d"
  "demo_discoveredLights (raise_publish e d) = demo_discoveredLights d"
  "demo_events (raise_publish e d) = snd (em_raise e (demo_events d))"
  by (simp_all add: raise_publish_def demo_publish_def case_prod_beta Let_def)

text \<open>Publishing an event sends exactly one message.\<close>

lemma demo_publish_sends:
  assumes "comm_inv d"
  shows "length (mt_lastFrame (cs_transport (demo_c6 (demo_publish e d)))) = kMaximumEncodedSize"
    and "cs_maximumRetries (demo_c6 (demo_publish e d)) = 3"
    and "c6MessagesSent (demo_publish e d) = c6MessagesSent d + 1"
proof -
  let ?f = "C6Frame_init\<lparr>cf_type := MtLightEvent, cf_payload := (cf_payload C6Frame_init)[0 := ev_shortAddress e,
      1 := event_type_code (ev_type e), 2 := severity_code (ev_severity e)], cf_payloadLength := 3\<rparr>"
  have s: "length (mt_lastFrame (cs_transport (demo_c6 d))) = kMaximumEncodedSize" "cs_maximumRetries (demo_c6 d) = 3"
    using assms by (simp_all add: comm_inv_def)
  have f: "frame_ok ?f" by (simp add: frame_ok_def C6Frame_init_def kMaximumPayload_def)
  have c6: "demo_c6 (demo_publish e d) = snd (publish mock_transport ?f (demo_c6 d))"
    by (simp add: demo_publish_def case_prod_beta Let_def)
  note r = mock.published [OF s(1) f mock_sends [OF s(1) f]] mock_publish_counts [OF s(1) f]
  show "length (mt_lastFrame (cs_transport (demo_c6 (demo_publish e d)))) = kMaximumEncodedSize"
    "cs_maximumRetries (demo_c6 (demo_publish e d)) = 3"
    "c6MessagesSent (demo_publish e d) = c6MessagesSent d + 1"
    unfolding c6 c6MessagesSent_def using r s(2) by simp_all
qed

lemma raise_publish_new:
  assumes inv: "comm_inv d" and e: "(event_key e, ev_severity e) \<in> set demo_reports"
    and fresh: "em_map (demo_events d) (event_key e) = None"
  shows "comm_inv (raise_publish e d) \<and>
    dom (em_map (demo_events (raise_publish e d))) = insert (event_key e) (dom (em_map (demo_events d)))"
proof -
  let ?em = "demo_events d" and ?em' = "snd (em_raise e (demo_events d))"
  have em: "em_inv ?em" using inv by (simp add: comm_inv_def)
  have "em_activeCount ?em \<noteq> kEventCapacity" using comm_dom(2) [OF inv] by (simp add: kEventCapacity_def)
  note r = raise_new [OF em fresh this refl]
  note em' = raise_spec(1) [OF em, of e]
  have dom': "dom (em_map ?em') = insert (event_key e) (dom (em_map ?em))" using r(3) by simp
  have "em_activeCount ?em' = Suc (em_activeCount ?em)"
    using activeCount_dom [OF em] activeCount_dom [OF em'] fresh dom' by (simp add: domIff)
  moreover have "demo_c6 (raise_publish e d) = demo_c6 (demo_publish e d)"
    using r(1) by (simp add: raise_publish_def demo_publish_def case_prod_beta Let_def)
  moreover have "\<forall>k v. em_map ?em' k = Some v \<longrightarrow> (k, ev_severity (fst v)) \<in> set demo_reports"
    using inv e unfolding r(3) by (auto simp: comm_inv_def)
  ultimately have "comm_inv (raise_publish e d)"
    using demo_publish_sends [OF inv] em' inv by (simp add: comm_inv_def c6MessagesSent_def raise_publish_frame)
  with dom' show ?thesis by (simp add: raise_publish_frame)
qed

lemma raise_publish_known:
  assumes inv: "comm_inv d" and e: "(event_key e, ev_severity e) \<in> set demo_reports"
    and known: "em_map (demo_events d) (event_key e) = Some v"
  shows "comm_inv (raise_publish e d) \<and>
    dom (em_map (demo_events (raise_publish e d))) = insert (event_key e) (dom (em_map (demo_events d)))"
proof -
  let ?em = "demo_events d" and ?em' = "snd (em_raise e (demo_events d))"
  have em: "em_inv ?em" and held: "\<forall>k v. em_map ?em k = Some v \<longrightarrow> (k, ev_severity (fst v)) \<in> set demo_reports"
    using inv by (simp_all add: comm_inv_def)
  note em' = raise_spec(1) [OF em, of e]
  obtain old ack l where v: "v = (old, ack, l)" using prod_cases3 by blast
  have "(event_key e, ev_severity old) \<in> set demo_reports" using held [rule_format, OF known] v by simp
  with e have same: "ev_severity old = ev_severity e"
    using demo_reports_distinct by (metis eq_key_imp_eq_value)
  note r = raise_known [OF em known [unfolded v]]
  have dom': "dom (em_map ?em') = insert (event_key e) (dom (em_map ?em))" using r(3) by simp
  then have "dom (em_map ?em') = dom (em_map ?em)" using known by auto
  then have "em_activeCount ?em' = em_activeCount ?em"
    using activeCount_dom(2) [OF em] activeCount_dom(2) [OF em'] by simp
  moreover have "demo_c6 (raise_publish e d) = demo_c6 d"
    using r(1) same by (simp add: raise_publish_def case_prod_beta Let_def)
  moreover have "\<forall>k v. em_map ?em' k = Some v \<longrightarrow> (k, ev_severity (fst v)) \<in> set demo_reports"
    using inv e unfolding r(3) by (auto simp: comm_inv_def)
  ultimately have "comm_inv (raise_publish e d)"
    using em' inv by (simp add: comm_inv_def c6MessagesSent_def raise_publish_frame)
  with dom' show ?thesis by (simp add: raise_publish_frame)
qed

lemma raise_publish_comm:
  assumes "comm_inv d" and "(event_key e, ev_severity e) \<in> set demo_reports"
  shows "comm_inv (raise_publish e d)"
    and "dom (em_map (demo_events (raise_publish e d))) = insert (event_key e) (dom (em_map (demo_events d)))"
    and "demo_devices (raise_publish e d) = demo_devices d" "demo_health (raise_publish e d) = demo_health d"
    and "demo_discoveredLights (raise_publish e d) = demo_discoveredLights d"
  using raise_publish_new [OF assms] raise_publish_known [OF assms]
  by (cases "em_map (demo_events d) (event_key e)"; simp add: raise_publish_frame)+

section \<open>One step of the demo\<close>

lemma change_event_report:
  assumes "dg_address c = ShortAddress 3 \<and> (dg_type c = DcDeviceMissing \<or> dg_type c = DcDeviceRecovered) \<or>
      dg_type c = DcDeviceDiscovered \<and> (\<exists>i \<le> 3. dg_address c = ShortAddress (word_of_nat i))"
  shows "(event_key (change_event nowMs c), ev_severity (change_event nowMs c)) \<in> set demo_reports"
proof -
  have small: "word_of_nat i \<in> {0 :: u8, 1, 2, 3}" if "i \<le> 3" for i
    using that by (auto simp: le_Suc_eq numeral_3_eq_3 numeral_2_eq_2)
  from assms consider (three) "dg_address c = ShortAddress 3" "dg_type c = DcDeviceMissing \<or> dg_type c = DcDeviceRecovered"
    | (found) w where "dg_type c = DcDeviceDiscovered" "dg_address c = ShortAddress w" "w \<in> {0, 1, 2, 3}"
    using small by metis
  then show ?thesis
    by cases (auto simp: change_event_def event_key_def demo_reports_def Let_def LightEvent_init_def)
qed

lemma changes_comm:
  assumes "comm_inv d" "\<forall>c \<in> set cs. (event_key (change_event nowMs c), ev_severity (change_event nowMs c)) \<in> set demo_reports"
  shows "comm_inv (fold (change_step nowMs) cs d)"
    and "dom (em_map (demo_events (fold (change_step nowMs) cs d))) =
      (\<lambda>c. event_key (change_event nowMs c)) ` set cs \<union> dom (em_map (demo_events d))"
    and "demo_devices (fold (change_step nowMs) cs d) = demo_devices d"
    and "demo_health (fold (change_step nowMs) cs d) = demo_health d"
    and "demo_discoveredLights (fold (change_step nowMs) cs d) =
      demo_discoveredLights d + length (filter (\<lambda>c. dg_type c = DcDeviceDiscovered) cs)"
proof -
  have frame: "comm_inv (d\<lparr>demo_discoveredLights := n\<rparr>) = comm_inv d" for d n
    by (simp add: comm_inv_def c6MessagesSent_def)
  have "comm_inv (fold (change_step nowMs) cs d) \<and>
      dom (em_map (demo_events (fold (change_step nowMs) cs d))) =
        (\<lambda>c. event_key (change_event nowMs c)) ` set cs \<union> dom (em_map (demo_events d)) \<and>
      demo_devices (fold (change_step nowMs) cs d) = demo_devices d \<and>
      demo_health (fold (change_step nowMs) cs d) = demo_health d \<and>
      demo_discoveredLights (fold (change_step nowMs) cs d) =
        demo_discoveredLights d + length (filter (\<lambda>c. dg_type c = DcDeviceDiscovered) cs)"
    using assms
  proof (induction cs arbitrary: d)
    case (Cons c cs)
    have c: "(event_key (change_event nowMs c), ev_severity (change_event nowMs c)) \<in> set demo_reports"
      using Cons.prems(2) by simp
    note r = raise_publish_comm [OF Cons.prems(1) c]
    have "comm_inv (change_step nowMs c d)" using r(1) by (simp add: change_step_def Let_def frame)
    note IH = Cons.IH [OF this]
    then show ?case using Cons.prems(2) r(2-5) by (auto simp: change_step_def Let_def)
  qed simp
  then show "comm_inv (fold (change_step nowMs) cs d)"
    "dom (em_map (demo_events (fold (change_step nowMs) cs d))) =
      (\<lambda>c. event_key (change_event nowMs c)) ` set cs \<union> dom (em_map (demo_events d))"
    "demo_devices (fold (change_step nowMs) cs d) = demo_devices d"
    "demo_health (fold (change_step nowMs) cs d) = demo_health d"
    "demo_discoveredLights (fold (change_step nowMs) cs d) =
      demo_discoveredLights d + length (filter (\<lambda>c. dg_type c = DcDeviceDiscovered) cs)" by blast+
qed

text \<open>What the health loop raises at a time.\<close>

definition fault_keys :: "u64 \<Rightarrow> nat \<Rightarrow> event_key set" where
  "fault_keys nowMs address =
     (if address = 1 then {(1, LeLampFailure)}
      else if address = 2 \<and> 1000 \<le> nowMs then {(2, LeThermalWarning)}
      else if address = 3 \<and> nowMs div 2000 mod 2 = 1 then {(3, LeIntermittentFault)} else {})"

lemma health_step_comm:
  assumes "comm_inv d" "address < 4"
  shows "comm_inv (health_step nowMs address d)"
    and "dom (em_map (demo_events (health_step nowMs address d))) =
      fault_keys nowMs address \<union> dom (em_map (demo_events d))"
    and "demo_devices (health_step nowMs address d) = demo_devices d"
    and "demo_discoveredLights (health_step nowMs address d) = demo_discoveredLights d"
    and "length (demo_health (health_step nowMs address d)) = length (demo_health d)"
proof -
  let ?o = "demo_observation nowMs address"
  let ?d = "d\<lparr>demo_health := (demo_health d)[address := snd (evaluate ?o (demo_health d ! address))]\<rparr>"
  let ?e = "health_event nowMs address ?o (fst (evaluate ?o (demo_health d ! address)))"
  define odd2s where "odd2s \<longleftrightarrow> nowMs div 2000 mod 2 = 1"
  note o = odd2s_def [symmetric]
  have s: "health_step nowMs address d =
      (if ho_lampFailure ?o \<or> ho_thermalWarning ?o \<or> ho_intermittentFault ?o then raise_publish ?e ?d else ?d)"
    by (simp add: health_step_def Let_def case_prod_beta)
  have d: "comm_inv ?d" using assms(1) by (simp add: comm_inv_def c6MessagesSent_def)
  show "demo_devices (health_step nowMs address d) = demo_devices d"
    "demo_discoveredLights (health_step nowMs address d) = demo_discoveredLights d"
    "length (demo_health (health_step nowMs address d)) = length (demo_health d)"
    by (simp_all add: s raise_publish_def demo_publish_def case_prod_beta Let_def)
  have "comm_inv (health_step nowMs address d) \<and> dom (em_map (demo_events (health_step nowMs address d))) =
      fault_keys nowMs address \<union> dom (em_map (demo_events d))"
  proof (cases "ho_lampFailure ?o \<or> ho_thermalWarning ?o \<or> ho_intermittentFault ?o")
    case True
    then have k: "(event_key ?e, ev_severity ?e) \<in> set demo_reports \<and> fault_keys nowMs address = {event_key ?e}"
      by (auto simp: demo_observation_def HealthObservation_init_def health_event_def event_key_def
          demo_reports_def fault_keys_def LightEvent_init_def o)
    then show ?thesis using raise_publish_comm(1,2) [OF d, of ?e] True by (simp add: s)
  next
    case False
    then have "fault_keys nowMs address = {}"
      by (auto simp: demo_observation_def HealthObservation_init_def fault_keys_def o)
    then show ?thesis using d False by (simp add: s)
  qed
  then show "comm_inv (health_step nowMs address d)"
    "dom (em_map (demo_events (health_step nowMs address d))) = fault_keys nowMs address \<union> dom (em_map (demo_events d))"
    by blast+
qed

lemma health_steps_comm:
  assumes "comm_inv d" "\<forall>a \<in> set as. a < 4"
  shows "comm_inv (fold (health_step nowMs) as d) \<and>
    dom (em_map (demo_events (fold (health_step nowMs) as d))) =
      (\<Union>a \<in> set as. fault_keys nowMs a) \<union> dom (em_map (demo_events d)) \<and>
    demo_devices (fold (health_step nowMs) as d) = demo_devices d \<and>
    demo_discoveredLights (fold (health_step nowMs) as d) = demo_discoveredLights d \<and>
    length (demo_health (fold (health_step nowMs) as d)) = length (demo_health d)"
  using assms
proof (induction as arbitrary: d)
  case (Cons a as)
  have a: "a < 4" using Cons.prems(2) by simp
  note h = health_step_comm [OF Cons.prems(1) a, of nowMs]
  show ?case using Cons.IH [OF h(1)] Cons.prems(2) h(2-5) by auto
qed simp

definition demo_inv :: "bool list \<times> DemoController \<Rightarrow> bool" where
  "demo_inv st \<longleftrightarrow> (case st of (reported, d) \<Rightarrow>
     comm_inv d \<and> length reported = kRegistryCapacity \<and> reg_inv (dm_registry (demo_devices d)) \<and>
     (\<forall>i < kRegistryCapacity. demo_view_ok i (light_view (demo_devices d) reported i)) \<and> length (demo_health d) = 4)"

lemma demo_new_inv: "demo_inv (replicate 64 False, DemoController_new)"
proof -
  have "light_view (demo_devices DemoController_new) (replicate 64 False) i = (None, False)"
    if "i < kRegistryCapacity" for i
    using that by (simp add: light_view_def DemoController_new_def DaliDeviceRegistry_init_def kRegistryCapacity_def)
  then show ?thesis
    using comm_new by (simp add: demo_inv_def demo_view_ok_def)
      (simp add: DemoController_new_def keeps kRegistryCapacity_def)
qed

lemma demo_step_effect:
  assumes inv: "demo_inv (reported, d)" and st: "demo_step nowMs (reported, d) = (reported', d')"
    and scan: "scanPresence DemoQueryClient nowMs reported ((demo_devices d)\<lparr>dm_client := nowMs\<rparr>) = (batch, reported1, m')"
  shows "demo_inv (reported', d')" "reported' = reported1" "demo_devices d' = m'"
    and "dom (em_map (demo_events d')) = dom (em_map (demo_events d)) \<union>
      (\<lambda>c. event_key (change_event nowMs c)) ` set (batch_list batch) \<union> (\<Union>a < 4. fault_keys nowMs a)"
    and "demo_discoveredLights d' = demo_discoveredLights d +
      length (filter (\<lambda>c. dg_type c = DcDeviceDiscovered) (batch_list batch))"
proof -
  let ?m = "(demo_devices d)\<lparr>dm_client := nowMs\<rparr>"
  have i: "comm_inv d" "length reported = kRegistryCapacity" "reg_inv (dm_registry ?m)" "dm_client ?m = nowMs"
    "\<forall>i < kRegistryCapacity. demo_view_ok i (light_view ?m reported i)" "length (demo_health d) = 4"
    using inv by (simp_all add: demo_inv_def light_view_def)
  note s = demo_scan [OF i(3,2,4,5) scan]
  let ?d1 = "d\<lparr>demo_devices := m'\<rparr>"
  have c1: "comm_inv ?d1" using i(1) by (simp add: comm_inv_def c6MessagesSent_def)
  note batch = fold_batch [OF scan_batch_inv [OF i(3,2) scan], of "change_step nowMs"]
  have reports: "\<forall>c \<in> set (batch_list batch).
      (event_key (change_event nowMs c), ev_severity (change_event nowMs c)) \<in> set demo_reports"
    using s(6) change_event_report by blast
  note ch = changes_comm [OF c1 reports]
  let ?d2 = "fold (change_step nowMs) (batch_list batch) ?d1"
  have four: "\<forall>a \<in> set [0..<4]. a < (4::nat)" by simp
  note he = health_steps_comm [OF ch(1) four, of nowMs]
  have d': "reported' = reported1" "d' = fold (health_step nowMs) [0..<4] ?d2"
    using st scan by (simp_all add: demo_step_def Let_def batch del: upt_Suc)
  show "reported' = reported1" by (rule d'(1))
  show dev: "demo_devices d' = m'" using he ch(3) by (simp add: d'(2))
  show "demo_inv (reported', d')"
    using he s(1-3) ch(4) i(6) dev unfolding demo_inv_def d'(1) by (simp add: d'(2))
  have "{..<4} = set [0..<4::nat]" by auto
  then show "dom (em_map (demo_events d')) = dom (em_map (demo_events d)) \<union>
      (\<lambda>c. event_key (change_event nowMs c)) ` set (batch_list batch) \<union> (\<Union>a < 4. fault_keys nowMs a)"
    using he ch(2) unfolding d'(2) by (simp only:) auto
  show "demo_discoveredLights d' = demo_discoveredLights d +
      length (filter (\<lambda>c. dg_type c = DcDeviceDiscovered) (batch_list batch))"
    using he ch(5) by (simp add: d'(2))
qed

lemma demo_run_inv: "demo_inv (demo_task ts)"
  unfolding demo_task_def
proof (induction ts rule: rev_induct)
  case (snoc t ts)
  obtain reported d where st: "fold demo_step ts (replicate 64 False, DemoController_new) = (reported, d)"
    by (metis prod.exhaust)
  obtain batch r m where "scanPresence DemoQueryClient t reported ((demo_devices d)\<lparr>dm_client := t\<rparr>) = (batch, r, m)"
    by (metis prod.exhaust)
  from demo_step_effect(1) [OF _ prod.collapse [symmetric] this] snoc show ?case by (simp add: st)
qed (simp add: demo_new_inv)

section \<open>Properties\<close>

text \<open>
  C39: whatever the times of its steps, the demo reports each of its nine conditions at most
  once in its life. The messages sent to the C6 are as many as the events the manager holds,
  which are among the nine (four discoveries, light 3 missing and recovered, the lamp failure,
  the thermal warning and the intermittent fault): events are never cleared, so a fault that
  comes back, or a second loss of light 3, is not reported again.
\<close>

theorem demo_reports_once:
  assumes "demo_task ts = (reported, d)"
  shows "unat (c6MessagesSent d) = activeFaultEvents d \<and> activeFaultEvents d \<le> 9 \<and>
    dom (em_map (demo_events d)) \<subseteq> fst ` set demo_reports"
proof -
  have c: "comm_inv d" using demo_run_inv [of ts] assms by (simp add: demo_inv_def)
  note b = comm_dom [OF c]
  have "unat (word_of_nat (em_activeCount (demo_events d)) :: u32) = em_activeCount (demo_events d)"
    using b(2) by (simp add: unat_of_nat)
  then show ?thesis using b c by (simp add: comm_inv_def activeFaultEvents_def)
qed

lemma demo_reports_once_witness:
  "unat (c6MessagesSent (snd (demo_task [0, 1000, 2000]))) \<le> 9"
  using demo_reports_once [OF prod.collapse [symmetric], of "[0, 1000, 2000]"] by simp

text \<open>The changes of the first scan.\<close>

lemma first_changes:
  assumes "\<not> nowMs div 2000 mod 2 = 1"
  shows "concat (map (\<lambda>i. change_at nowMs i (snd (light_step (if demo_silent nowMs i then Silent else Heard)
      (None, False)))) [0..<kRegistryCapacity]) =
    map (\<lambda>i. \<lparr>dg_type = DcDeviceDiscovered, dg_address = ShortAddress (word_of_nat i), dg_uptimeMs = nowMs\<rparr>) [0..<4]"
proof -
  let ?g = "\<lambda>i. change_at nowMs i (snd (light_step (if demo_silent nowMs i then Silent else Heard) (None, False)))"
  have u: "[0..<kRegistryCapacity] = [0..<4] @ [4..<kRegistryCapacity]"
    using upt_add_eq_append [of 0 4 60] by (simp add: kRegistryCapacity_def del: upt_Suc)
  have "map ?g [4..<kRegistryCapacity] = map (\<lambda>_. []) [4..<kRegistryCapacity]"
    by (intro map_cong) (auto simp: demo_silent_def change_at_def)
  then have "concat (map ?g [4..<kRegistryCapacity]) = []" by (simp only: concat_eq_Nil_conv) auto
  moreover have "map ?g [0..<4] = map (\<lambda>i. [\<lparr>dg_type = DcDeviceDiscovered,
      dg_address = ShortAddress (word_of_nat i), dg_uptimeMs = nowMs\<rparr>]) [0..<4]"
    using assms by (intro map_cong) (auto simp: demo_silent_def change_at_def)
  ultimately show ?thesis unfolding u map_append concat_append by (simp only: concat_map_singleton append_Nil2)
qed

text \<open>
  The first step of the demo, at a time when light 3 answers, discovers the four lights,
  and puts into the event manager and on the C6 link exactly their discoveries, the lamp
  failure of light 1 and, from second 1 on, the thermal warning of light 2.
\<close>

theorem demo_first_step:
  assumes "\<not> nowMs div 2000 mod 2 = 1"
    and "demo_step nowMs (replicate 64 False, DemoController_new) = (reported, d)"
  shows "demo_discoveredLights d = 4 \<and>
    dom (em_map (demo_events d)) = {(0, LeDeviceDiscovered), (1, LeDeviceDiscovered), (2, LeDeviceDiscovered),
      (3, LeDeviceDiscovered), (1, LeLampFailure)} \<union> (if 1000 \<le> nowMs then {(2, LeThermalWarning)} else {}) \<and>
    unat (c6MessagesSent d) = (if 1000 \<le> nowMs then 6 else 5)"
proof -
  let ?m = "(demo_devices DemoController_new)\<lparr>dm_client := nowMs\<rparr>"
  obtain batch r m where scan: "scanPresence DemoQueryClient nowMs (replicate 64 False) ?m = (batch, r, m)"
    by (metis prod.exhaust)
  note e = demo_step_effect [OF demo_new_inv assms(2) scan]
  have i: "reg_inv (dm_registry ?m)" "length (replicate 64 False) = kRegistryCapacity" "dm_client ?m = nowMs"
    by (simp_all add: DemoController_new_def keeps kRegistryCapacity_def)
  have v: "light_view ?m (replicate 64 False) i = (None, False)" if "i < kRegistryCapacity" for i
    using that by (simp add: light_view_def DemoController_new_def DaliDeviceRegistry_init_def kRegistryCapacity_def)
  have ok: "\<forall>i < kRegistryCapacity. demo_view_ok i (light_view ?m (replicate 64 False) i)"
    using v by (simp add: demo_view_ok_def)
  have "batch_list batch = concat (map (\<lambda>i. change_at nowMs i (snd (light_step
      (if demo_silent nowMs i then Silent else Heard) (None, False)))) [0..<kRegistryCapacity])"
    unfolding demo_scan(5) [OF i ok scan]
    using v by (intro arg_cong [where f = concat] map_cong) simp_all
  then have b: "batch_list batch = map (\<lambda>i. \<lparr>dg_type = DcDeviceDiscovered,
      dg_address = ShortAddress (word_of_nat i), dg_uptimeMs = nowMs\<rparr>) [0..<4]"
    using first_changes [OF assms(1)] by simp
  have four: "[0..<4] = [0, 1, 2, 3::nat]" by code_simp
  have "{..<4} = {0, 1, 2, 3::nat}" by auto
  then have "(\<Union>a < 4. fault_keys nowMs a) = {(1, LeLampFailure)} \<union> (if 1000 \<le> nowMs then {(2, LeThermalWarning)} else {})"
    using assms(1) by (simp add: fault_keys_def)
  moreover have "(\<lambda>c. event_key (change_event nowMs c)) ` set (batch_list batch) =
      {(0, LeDeviceDiscovered), (1, LeDeviceDiscovered), (2, LeDeviceDiscovered), (3, LeDeviceDiscovered)}"
    unfolding b four by (simp add: change_event_def event_key_def Let_def LightEvent_init_def)
  moreover have "dom (em_map (demo_events DemoController_new)) = {}"
    by (simp add: DemoController_new_def dom_def)
  ultimately have d: "dom (em_map (demo_events d)) = {(0, LeDeviceDiscovered), (1, LeDeviceDiscovered),
      (2, LeDeviceDiscovered), (3, LeDeviceDiscovered), (1, LeLampFailure)} \<union>
      (if 1000 \<le> nowMs then {(2, LeThermalWarning)} else {})"
    unfolding e(4) by auto
  have c: "comm_inv d" using e(1) by (simp add: demo_inv_def)
  then have "em_activeCount (demo_events d) = card (dom (em_map (demo_events d)))"
    by (simp add: comm_inv_def activeCount_dom)
  then have n: "em_activeCount (demo_events d) = (if 1000 \<le> nowMs then 6 else 5)"
    unfolding d by (simp add: card_insert_if)
  have "demo_discoveredLights d = 4"
    unfolding e(5) b four by (simp add: DemoController_new_def)
  with d c n show ?thesis by (simp add: comm_inv_def)
qed

lemma demo_first_step_witness:
  "demo_discoveredLights (snd (demo_step 0 (replicate 64 False, DemoController_new))) = 4"
  using demo_first_step [OF _ prod.collapse [symmetric], of 0] by simp

end
