(* ===== verification/Demo_Run.thy ===== *)
theory Demo_Run
  imports Demo_Controller
begin

text \<open>
  The demo at the cadence of its task, one step a second: what it has reported after any number
  of seconds.
\<close>

section \<open>Seconds\<close>

text \<open>Light 3 over steps one second apart: silent at the seconds 2 and 3 of every four.\<close>

lemma second_k_silent:
  assumes "k < 2 ^ 50"
  shows "demo_silent (1000 * word_of_nat k) 3 \<longleftrightarrow> k mod 4 \<in> {2, 3}"
proof -
  have "unat (1000 * word_of_nat k :: u64) = 1000 * k"
    using assms by (simp add: unat_word_ariths unat_of_nat)
  then have "unat ((1000 * word_of_nat k :: u64) div 2000 mod 2) = k div 2 mod 2"
    by (simp add: unat_div unat_mod div_mult2_eq [of "1000 * k" 1000 2, simplified])
  then have "(1000 * word_of_nat k :: u64) div 2000 mod 2 = 1 \<longleftrightarrow> k div 2 mod 2 = 1"
    by (metis unat_1 unsigned_word_eqI)
  moreover have "k div 2 mod 2 = 1 \<longleftrightarrow> k mod 4 \<in> {2, 3}"
  proof -
    have "k div 2 mod 2 = 1 \<longleftrightarrow> k mod 4 = 2 \<or> k mod 4 = 3" by presburger
    then show ?thesis by simp
  qed
  ultimately show ?thesis by (simp add: demo_silent_def)
qed

definition misses_after :: "nat \<Rightarrow> nat" where
  "misses_after k = (if k mod 4 = 3 then 1 else if k mod 4 = 0 then 2 else 0)"

definition demo_seconds :: "nat \<Rightarrow> bool list \<times> DemoController" where
  "demo_seconds n = demo_task (map (\<lambda>k. 1000 * word_of_nat k) [0..<n])"

text \<open>The records of the lights after \<open>n\<close> steps, and the conditions reported by then.\<close>

definition seconds_view :: "nat \<Rightarrow> nat \<Rightarrow> (DeviceLifecycle \<times> nat) option" where
  "seconds_view n i = (if i < 3 then Some (DlPresent, 0)
     else if i = 3 then Some (DlPresent, misses_after n) else None)"

definition seconds_keys :: "nat \<Rightarrow> event_key set" where
  "seconds_keys n = {(0, LeDeviceDiscovered), (1, LeDeviceDiscovered), (2, LeDeviceDiscovered),
      (3, LeDeviceDiscovered), (1, LeLampFailure)} \<union>
    (if 2 \<le> n then {(2, LeThermalWarning)} else {}) \<union> (if 3 \<le> n then {(3, LeIntermittentFault)} else {})"

text \<open>After the first step no scan changes a lifecycle: light 3 is never silent for a third time.\<close>

lemma seconds_life:
  assumes "0 < n" "n < 2 ^ 50" "i < kRegistryCapacity"
  shows "light_step (if demo_silent (1000 * word_of_nat n) i then Silent else Heard) (seconds_view n i, b) =
    ((seconds_view (Suc n) i, if i \<le> 3 \<and> \<not> demo_silent (1000 * word_of_nat n) i then False else b), None)"
proof (cases "i = 3")
  case True
  have sil: "demo_silent (1000 * word_of_nat n) 3 \<longleftrightarrow> n mod 4 \<in> {2, 3}" using assms(2) by (rule second_k_silent)
  have m4: "Suc n mod 4 = (if n mod 4 = 3 then 0 else Suc (n mod 4))" by (simp add: mod_Suc)
  have "n mod 4 = 0 \<or> n mod 4 = 1 \<or> n mod 4 = 2 \<or> n mod 4 = 3" by linarith
  then show ?thesis unfolding True sil
    by (elim disjE) (simp_all add: seconds_view_def misses_after_def m4)
next
  case False
  then show ?thesis by (cases "i < 3") (simp_all add: seconds_view_def demo_silent_def)
qed

lemma seconds_faults:
  assumes "n < 2 ^ 50"
  shows "(\<Union>a < 4. fault_keys (1000 * word_of_nat n) a) = {(1, LeLampFailure)} \<union>
    (if 1 \<le> n then {(2, LeThermalWarning)} else {}) \<union>
    (if n mod 4 \<in> {2, 3} then {(3, LeIntermittentFault)} else {})"
proof -
  have "unat (1000 * word_of_nat n :: u64) = 1000 * n"
    using assms by (simp add: unat_word_ariths unat_of_nat)
  then have late: "(1000 :: u64) \<le> 1000 * word_of_nat n \<longleftrightarrow> 1 \<le> n" by (simp add: word_le_nat_alt)
  have odd: "(1000 * word_of_nat n :: u64) div 2000 mod 2 = 1 \<longleftrightarrow> n mod 4 \<in> {2, 3}"
    using second_k_silent [OF assms] by (simp add: demo_silent_def)
  have "{..<4} = {0, 1, 2, 3::nat}" by auto
  then show ?thesis using late odd by (simp add: fault_keys_def)
qed

text \<open>The state after \<open>n\<close> seconds.\<close>

definition seconds_ok :: "nat \<Rightarrow> bool list \<times> DemoController \<Rightarrow> bool" where
  "seconds_ok n st \<longleftrightarrow> (case st of (reported, d) \<Rightarrow>
     (\<forall>i < kRegistryCapacity. fst (light_view (demo_devices d) reported i) = seconds_view n i) \<and>
     dom (em_map (demo_events d)) = seconds_keys n \<and> demo_discoveredLights d = 4)"

lemma seconds_Suc: "demo_seconds (Suc n) = demo_step (1000 * word_of_nat n) (demo_seconds n)"
  by (simp add: demo_seconds_def demo_task_def)

lemma seconds_first: "seconds_ok 1 (demo_seconds 1)"
proof -
  obtain reported d where st: "demo_step 0 (replicate 64 False, DemoController_new) = (reported, d)"
    by (metis prod.exhaust)
  let ?m = "(demo_devices DemoController_new)\<lparr>dm_client := 0\<rparr>"
  obtain batch r m where scan: "scanPresence DemoQueryClient 0 (replicate 64 False) ?m = (batch, r, m)"
    by (metis prod.exhaust)
  note e = demo_step_effect [OF demo_new_inv st scan]
  have i: "reg_inv (dm_registry ?m)" "length (replicate 64 False) = kRegistryCapacity" "dm_client ?m = 0"
    by (simp_all add: DemoController_new_def keeps kRegistryCapacity_def)
  have v: "light_view ?m (replicate 64 False) i = (None, False)" if "i < kRegistryCapacity" for i
    using that by (simp add: light_view_def DemoController_new_def DaliDeviceRegistry_init_def kRegistryCapacity_def)
  then have ok: "\<forall>i < kRegistryCapacity. demo_view_ok i (light_view ?m (replicate 64 False) i)"
    by (simp add: demo_view_ok_def)
  have "fst (light_view (demo_devices d) reported i) = seconds_view 1 i" if "i < kRegistryCapacity" for i
    using demo_scan(4) [OF i ok scan] v that
    by (simp add: e(2,3) seconds_view_def misses_after_def demo_silent_def)
  moreover have "demo_discoveredLights d = 4 \<and> dom (em_map (demo_events d)) = seconds_keys 1"
    using demo_first_step [OF _ st] by (simp add: seconds_keys_def)
  moreover have "demo_seconds 1 = (reported, d)" using st by (simp add: demo_seconds_def demo_task_def)
  ultimately show ?thesis by (simp add: seconds_ok_def)
qed

lemma seconds_step:
  assumes n: "0 < n" "n < 2 ^ 50" and ok: "seconds_ok n (demo_seconds n)"
  shows "seconds_ok (Suc n) (demo_seconds (Suc n))"
proof -
  let ?t = "1000 * word_of_nat n :: u64"
  obtain r0 d0 where s0: "demo_seconds n = (r0, d0)" by (metis prod.exhaust)
  obtain reported d where st: "demo_step ?t (r0, d0) = (reported, d)" by (metis prod.exhaust)
  have inv: "demo_inv (r0, d0)" using demo_run_inv unfolding s0 [symmetric] demo_seconds_def by blast
  let ?m = "(demo_devices d0)\<lparr>dm_client := ?t\<rparr>"
  obtain batch r m where scan: "scanPresence DemoQueryClient ?t r0 ?m = (batch, r, m)" by (metis prod.exhaust)
  note e = demo_step_effect [OF inv st scan]
  have i: "reg_inv (dm_registry ?m)" "length r0 = kRegistryCapacity" "dm_client ?m = ?t"
    and vok: "\<forall>i < kRegistryCapacity. demo_view_ok i (light_view ?m r0 i)"
    using inv by (simp_all add: demo_inv_def light_view_def)
  note sc = demo_scan [OF i vok scan]
  have view: "light_view ?m r0 i = (seconds_view n i, r0 ! i)" if "i < kRegistryCapacity" for i
    using ok s0 that by (simp add: seconds_ok_def light_view_def)
  have quiet: "batch_list batch = []"
    unfolding sc(5) using view seconds_life [OF n] by (auto simp: change_at_def simp del: light_step.simps)
  have "fst (light_view (demo_devices d) reported i) = seconds_view (Suc n) i" if "i < kRegistryCapacity" for i
    using sc(4) view [OF that] seconds_life [OF n that, of "r0 ! i"] that
    by (simp add: e(2,3) del: light_step.simps)
  moreover have "dom (em_map (demo_events d)) = seconds_keys (Suc n)"
  proof -
    have "dom (em_map (demo_events d0)) = seconds_keys n" using ok s0 by (simp add: seconds_ok_def)
    then have "dom (em_map (demo_events d)) = seconds_keys n \<union> (\<Union>a < 4. fault_keys ?t a)"
      unfolding e(4) quiet by simp
    moreover have "n mod 4 \<in> {2, 3} \<Longrightarrow> 2 \<le> n" by (cases "n < 2") auto
    ultimately show ?thesis using n(1) unfolding seconds_faults [OF n(2)] seconds_keys_def
      by (cases "n = 2") (auto split: if_splits)
  qed
  moreover have "demo_discoveredLights d = 4" using ok s0 by (simp add: e(5) quiet seconds_ok_def)
  ultimately show ?thesis by (simp add: seconds_ok_def seconds_Suc s0 st)
qed

lemma seconds_run: "0 < n \<Longrightarrow> n \<le> 2 ^ 50 \<Longrightarrow> seconds_ok n (demo_seconds n)"
proof (induction n)
  case (Suc n)
  then show ?case by (cases "n = 0") (use seconds_first seconds_step in simp_all)
qed simp

section \<open>Properties\<close>

text \<open>
  C40: what the demo comes to. At one step a second, from the third second on and for more
  than thirty million years, it has discovered four lights and reported exactly seven
  conditions, each with one message to the C6: the four discoveries, the lamp failure of light
  1, the thermal warning of light 2 and the intermittent fault of light 3. Light 3 is never
  reported missing nor recovered: it is silent for two scans out of four, the third silent scan
  that a report needs never comes, and its record stays present throughout.
\<close>

theorem demo_settles:
  assumes "3 \<le> n" "n \<le> 2 ^ 50" "demo_seconds n = (reported, d)"
  shows "dom (em_map (demo_events d)) = {(0, LeDeviceDiscovered), (1, LeDeviceDiscovered),
      (2, LeDeviceDiscovered), (3, LeDeviceDiscovered), (1, LeLampFailure), (2, LeThermalWarning),
      (3, LeIntermittentFault)} \<and>
    unat (c6MessagesSent d) = 7 \<and> discoveredLights d = 4 \<and>
    (\<exists>misses \<le> 2. fst (light_view (demo_devices d) reported 3) = Some (DlPresent, misses))"
proof -
  have ok: "seconds_ok n (reported, d)" using seconds_run [of n] assms by simp
  have keys: "seconds_keys n = {(0, LeDeviceDiscovered), (1, LeDeviceDiscovered),
      (2, LeDeviceDiscovered), (3, LeDeviceDiscovered), (1, LeLampFailure), (2, LeThermalWarning),
      (3, LeIntermittentFault)}"
    using assms(1) by (auto simp: seconds_keys_def)
  have c: "comm_inv d" using demo_run_inv [of "map (\<lambda>k. 1000 * word_of_nat k) [0..<n]"] assms(3)
    by (simp add: demo_seconds_def demo_inv_def)
  have "em_inv (demo_events d)" using c by (simp add: comm_inv_def)
  then have "em_activeCount (demo_events d) = card (seconds_keys n)"
    using ok activeCount_dom(2) [of "demo_events d"] by (simp add: seconds_ok_def)
  then have "em_activeCount (demo_events d) = 7" unfolding keys by simp
  then have "unat (c6MessagesSent d) = 7" using c by (simp add: comm_inv_def)
  with ok keys show ?thesis
    by (simp add: seconds_ok_def kRegistryCapacity_def seconds_view_def misses_after_def)
qed

lemma demo_settles_witness: "unat (c6MessagesSent (snd (demo_seconds 3600))) = 7"
  using demo_settles [OF _ _ prod.collapse [symmetric], of 3600] by simp

end
