(* ===== verification/Device_Life.thy ===== *)
theory Device_Life
  imports Device_Manager
begin

text \<open>
  The device manager over its whole life: any interleaving of presence scans and capability
  detections, with any client, from the empty registry. What every registry so reached
  satisfies is the type of the manager's state.
\<close>

section \<open>Reachable managers\<close>

inductive dm_reachable :: "'c IDaliQueryClient \<Rightarrow> bool list \<Rightarrow> 'c DaliDeviceManager \<Rightarrow> bool"
  for client
where
  start: "dm_reachable client (replicate 64 False) \<lparr>dm_client = c, dm_registry = DaliDeviceRegistry_init\<rparr>"
| scan: "dm_reachable client reported m \<Longrightarrow> scanPresence client nowMs reported m = (batch, reported', m') \<Longrightarrow>
    dm_reachable client reported' m'"
| detect: "dm_reachable client reported m \<Longrightarrow> short_ok a \<Longrightarrow>
    detectCoreCapabilities client a nowMs m = (batch, m') \<Longrightarrow> dm_reachable client reported m'"

section \<open>Capability entries\<close>

text \<open>A feature counts at most two misses, and is unsupported exactly when it has counted them.\<close>

definition entry_inv :: "CapabilityEntry \<Rightarrow> bool" where
  "entry_inv e \<longleftrightarrow> ce_consecutiveNoResponses e \<le> 2 \<and>
     (ce_state e = CsUnsupported \<longleftrightarrow> ce_consecutiveNoResponses e = 2)"

definition caps_inv :: "DaliDeviceRecord \<Rightarrow> bool" where
  "caps_inv r \<longleftrightarrow> list_all entry_inv (dv_capabilities r)"

definition regs_caps_inv :: "DaliDeviceRegistry \<Rightarrow> bool" where
  "regs_caps_inv rg \<longleftrightarrow> list_all (pred_option caps_inv) (rg_records rg)"

lemma upsert_caps: "regs_caps_inv rg \<Longrightarrow> regs_caps_inv (rg_upsert a t rg)"
proof -
  have new: "caps_inv (DaliDeviceRecord_new a t)"
    by (simp add: caps_inv_def DaliDeviceRecord_new_def DaliCapabilityMap_init_def entry_inv_def
        list_all_iff)
  assume inv: "regs_caps_inv rg"
  let ?i = "unat (sa_value a)"
  show ?thesis
  proof (cases "?i < length (rg_records rg)")
    case True
    then have "pred_option caps_inv (rg_records rg ! ?i)" using inv by (simp add: regs_caps_inv_def list_all_length)
    then show ?thesis using inv new
      by (cases "rg_records rg ! ?i")
        (simp_all add: regs_caps_inv_def rg_upsert_def list_all_update caps_inv_def)
  next
    case False
    then show ?thesis using inv by (simp add: regs_caps_inv_def rg_upsert_def list_update_beyond split: option.split)
  qed
qed

lemma modify_caps:
  assumes "regs_caps_inv rg" and "\<And>r. rg_find a rg = Some r \<Longrightarrow> caps_inv r \<Longrightarrow> caps_inv (f r)"
  shows "regs_caps_inv (rg_modify a f rg)"
proof (cases "unat (sa_value a) < length (rg_records rg)")
  case True
  then have "pred_option caps_inv (rg_records rg ! unat (sa_value a))"
    using assms(1) by (simp add: regs_caps_inv_def list_all_length)
  then show ?thesis using assms
    by (cases "rg_records rg ! unat (sa_value a)")
      (simp_all add: regs_caps_inv_def rg_modify_def rg_find_def list_all_update)
next
  case False
  then show ?thesis using assms(1) by (simp add: regs_caps_inv_def rg_modify_def list_update_beyond)
qed

text \<open>A probe changes its own entry, by the rules, and the reading it stores.\<close>

lemma entry_inv_miss:
  assumes "entry_inv e" "ce_state e \<noteq> CsUnsupported"
  shows "entry_inv \<lparr>ce_state = (if 2 \<le> ce_consecutiveNoResponses e + 1 then CsUnsupported else ce_state e),
      ce_consecutiveNoResponses = ce_consecutiveNoResponses e + 1\<rparr>"
    and "ce_consecutiveNoResponses e < 2"
proof -
  have "ce_consecutiveNoResponses e \<le> 2 \<and> ce_consecutiveNoResponses e \<noteq> 2" using assms by (simp add: entry_inv_def)
  then have l: "unat (ce_consecutiveNoResponses e) < 2" by (simp add: word_le_nat_alt word_unat_eq_iff)
  then have n: "unat (ce_consecutiveNoResponses e) = 0 \<or> unat (ce_consecutiveNoResponses e) = 1" by linarith
  then have "ce_consecutiveNoResponses e = 0 \<or> ce_consecutiveNoResponses e = 1" by (simp add: word_unat_eq_iff)
  then show "entry_inv \<lparr>ce_state = (if 2 \<le> ce_consecutiveNoResponses e + 1 then CsUnsupported else ce_state e),
      ce_consecutiveNoResponses = ce_consecutiveNoResponses e + 1\<rparr>"
    using assms(2) by (auto simp: entry_inv_def word_le_nat_alt)
  show "ce_consecutiveNoResponses e < 2" using l by (simp add: word_less_nat_alt)
qed

lemma probe_caps:
  assumes "caps_inv (fst st)" and "length (dv_capabilities (fst st)) = feature_index CfCount" and "f \<noteq> CfCount"
    and "\<And>v r. dv_capabilities (store v r) = dv_capabilities r"
  shows "caps_inv (fst (probe client a t f cmd store st))"
proof -
  obtain r c where st: "st = (r, c)" by (cases st)
  have "feature_index f < length (dv_capabilities r)" using assms(2,3) by (cases f) (simp_all add: st)
  then have e: "entry_inv (cap_at (dv_capabilities r) f)"
    using assms(1) by (simp add: caps_inv_def cap_at_def list_all_length st)
  note miss = entry_inv_miss [OF e]
  have ok: "entry_inv \<lparr>ce_state = CsSupported, ce_consecutiveNoResponses = 0\<rparr>" by (simp add: entry_inv_def)
  obtain result c' where q: "qc_query client a cmd CpHigh c = (result, c')" by (metis prod.exhaust)
  show ?thesis using assms(1) miss
    by (auto simp: probe_def st q Let_def caps_inv_def assms(4) ok intro!: list_all_update)
qed

lemma probe_record:
  assumes "record_inv i (fst st)"
    and "\<And>v r. record_inv i r \<Longrightarrow> record_inv i (store v r)"
  shows "record_inv i (fst (probe client a t f cmd store st))"
proof -
  obtain r c where st: "st = (r, c)" by (cases st)
  have put: "record_inv i (r\<lparr>dv_capabilities := (dv_capabilities r)[k := e]\<rparr>)" for k e
    using assms(1) by (simp add: record_inv_def st)
  show ?thesis using assms put by (simp add: probe_def Let_def st split: prod.split)
qed

definition record_ok :: "nat \<Rightarrow> DaliDeviceRecord \<Rightarrow> bool" where
  "record_ok i r \<longleftrightarrow> record_inv i r \<and> caps_inv r"

lemma probe_ok:
  assumes "record_ok i (fst st)" and "f \<noteq> CfCount"
    and "\<And>v r. dv_capabilities (store v r) = dv_capabilities r"
    and "\<And>v r. record_inv i r \<Longrightarrow> record_inv i (store v r)"
  shows "record_ok i (fst (probe client a t f cmd store st))"
  using assms probe_record [of i st store client a t f cmd] probe_caps [of st f store client a t cmd]
  by (simp add: record_ok_def record_inv_def)

lemma detect_ok:
  assumes "reg_inv (dm_registry m)" "regs_caps_inv (dm_registry m)" "short_ok a"
    and "detectCoreCapabilities client a nowMs m = (batch, m')"
  shows "reg_inv (dm_registry m') \<and> regs_caps_inv (dm_registry m')"
proof (cases "rg_find a (dm_registry m)")
  case None
  then show ?thesis using assms by (simp add: detectCoreCapabilities_def)
next
  case (Some r)
  let ?i = "unat (sa_value a)"
  have i: "?i < kRegistryCapacity" using assms(3) by (simp add: kRegistryCapacity_def short_ok_unat)
  have a: "a = ShortAddress (word_of_nat ?i)" by (cases a) simp
  have "pred_option (record_inv ?i) (rg_records (dm_registry m) ! ?i)" using assms(1) i by (simp add: reg_inv_def)
  moreover have "pred_option caps_inv (rg_records (dm_registry m) ! ?i)"
    using assms(1,2) i by (simp add: reg_inv_def regs_caps_inv_def list_all_length)
  ultimately have ok: "record_ok ?i r" using Some by (simp add: rg_find_def record_ok_def)
  obtain r' c' where r': "record_ok ?i r'"
    and m': "m' = m\<lparr>dm_client := c', dm_registry := rg_modify a (\<lambda>_. r') (dm_registry m)\<rparr>"
  proof -
    let ?st1 = "probe client a nowMs CfBasicStatus QueryStatus (\<lambda>v r. r) (r, dm_client m)"
    let ?st2 = "probe client a nowMs CfDeviceType QueryDeviceType (\<lambda>v r. r\<lparr>dv_deviceType := v\<rparr>) ?st1"
    let ?st3 = "probe client a nowMs CfVersion QueryVersionNumber (\<lambda>v r. r\<lparr>dv_version := v\<rparr>) ?st2"
    let ?st4 = "probe client a nowMs CfPhysicalMinimum QueryPhysicalMinimum (\<lambda>v r. r\<lparr>dv_physicalMinimum := v\<rparr>) ?st3"
    have "record_ok ?i (fst ?st4)"
      using ok by (intro probe_ok) (simp_all add: record_inv_def)
    moreover have "m' = m\<lparr>dm_client := snd ?st4, dm_registry := rg_modify a (\<lambda>_. fst ?st4) (dm_registry m)\<rparr>"
      using assms(4) Some by (simp add: detectCoreCapabilities_def Let_def case_prod_beta)
    ultimately show thesis by (rule that)
  qed
  have "reg_inv (rg_modify a (\<lambda>_. r') (dm_registry m))"
    by (subst a, rule modify_inv) (use assms(1) i r' in \<open>simp_all add: record_ok_def\<close>)
  moreover have "regs_caps_inv (rg_modify a (\<lambda>_. r') (dm_registry m))"
    using assms(2) r' by (intro modify_caps) (simp_all add: record_ok_def)
  ultimately show ?thesis by (simp add: m')
qed

text \<open>A scan does not touch the capabilities.\<close>

lemma scan_step_caps:
  assumes "regs_caps_inv (dm_registry (snd (snd st)))"
  shows "regs_caps_inv (dm_registry (snd (snd (scan_step client nowMs raw st))))"
proof -
  obtain b r m where st: "st = (b, r, m)" by (metis prod.exhaust)
  obtain result c where q: "qc_query client (ShortAddress (word_of_nat raw)) QueryControlGearPresent CpHigh (dm_client m) = (result, c)"
    by (metis prod.exhaust)
  show ?thesis using assms
    by (auto simp: scan_step_def st q Let_def mark_present_def caps_inv_def
        intro!: modify_caps upsert_caps split: option.split)
qed

lemma scan_caps:
  assumes "regs_caps_inv (dm_registry m)" "scanPresence client nowMs reported m = (batch, reported', m')"
  shows "regs_caps_inv (dm_registry m')"
proof -
  have "regs_caps_inv (dm_registry (snd (snd (fold (scan_step client nowMs) is st))))"
    if "regs_caps_inv (dm_registry (snd (snd st)))" for "is" st
    using that by (induction "is" arbitrary: st) (simp_all add: scan_step_caps)
  from this [of "(DiscoveryBatch_init, reported, m)" "[0..<kRegistryCapacity]"] assms show ?thesis by (simp add: scanPresence_def)
qed

lemma dm_reachable_inv:
  "dm_reachable client reported m \<Longrightarrow>
     length reported = 64 \<and> reg_inv (dm_registry m) \<and> regs_caps_inv (dm_registry m)"
proof (induction rule: dm_reachable.induct)
  case (start c)
  show ?case by (simp add: keeps) (simp add: regs_caps_inv_def DaliDeviceRegistry_init_def list_all_iff)
next
  case (scan reported m nowMs batch reported' m')
  then show ?case using scan_slots(1,2) [OF _ _ scan.hyps(2)] scan_caps [OF _ scan.hyps(2)]
    by (simp add: kRegistryCapacity_def)
next
  case (detect reported m a nowMs batch m')
  then show ?case using detect_ok [OF _ _ detect.hyps(2,3)] by simp
qed

section \<open>Properties\<close>

text \<open>
  C17: the type of the manager's state. Whatever scans and capability detections run, in
  whatever order and with whatever answers, the device count is the number of records, the
  record found under an address carries that address, counts at most three misses, is present
  or missing exactly as its lifecycle says, and has for each of its twelve features a miss
  count of at most two that is two exactly when the feature is held unsupported.
\<close>

theorem manager_state_well_typed:
  assumes "dm_reachable client reported m"
  shows "rg_count (dm_registry m) = card {a. short_ok a \<and> rg_find a (dm_registry m) \<noteq> None} \<and>
    (\<forall>a r. short_ok a \<and> rg_find a (dm_registry m) = Some r \<longrightarrow>
       dv_address r = a \<and> rt_shortAddress (dv_realtime r) = sa_value a \<and> dv_missedPresenceChecks r \<le> 3 \<and>
       (dv_lifecycle r = DlMissing \<longrightarrow> \<not> dv_present r \<and> dv_missedPresenceChecks r = 3) \<and>
       (dv_lifecycle r = DlPresent \<longrightarrow> dv_present r \<and> dv_missedPresenceChecks r < 3) \<and>
       length (dv_capabilities r) = 12 \<and>
       (\<forall>e \<in> set (dv_capabilities r). ce_consecutiveNoResponses e \<le> 2 \<and>
          (ce_state e = CsUnsupported \<longleftrightarrow> ce_consecutiveNoResponses e = 2)))"
proof -
  let ?rg = "dm_registry m" and ?A = "{a. short_ok a \<and> rg_find a (dm_registry m) \<noteq> None}"
  have inv: "reg_inv ?rg" "regs_caps_inv ?rg" using dm_reachable_inv [OF assms] by simp_all
  have inj: "inj_on (unat \<circ> sa_value) ?A"
    by (auto simp: inj_on_def word_unat_eq_iff [symmetric] intro: ShortAddress.expand)
  have img: "(unat \<circ> sa_value) ` ?A = {i. i < 64 \<and> rg_records ?rg ! i \<noteq> None}" (is "?L = ?R")
  proof
    show "?L \<subseteq> ?R" by (auto simp: rg_find_def short_ok_unat)
    show "?R \<subseteq> ?L"
    proof
      fix i assume i: "i \<in> ?R"
      then have u: "unat (word_of_nat i :: u8) = i" by (simp add: unsigned_of_nat take_bit_nat_eq_self)
      then have "short_ok (ShortAddress (word_of_nat i))" using i by (simp add: short_ok_unat)
      then have "ShortAddress (word_of_nat i) \<in> ?A" using i u by (simp add: rg_find_def)
      then show "i \<in> ?L" by (rule rev_image_eqI) (simp add: u)
    qed
  qed
  have "card ?A = card {i. i < 64 \<and> rg_records ?rg ! i \<noteq> None}"
    using card_image [OF inj] unfolding img by (rule sym)
  then have count: "rg_count ?rg = card ?A"
    using inv(1) by (simp add: reg_inv_def kRegistryCapacity_def length_filter_conv_card)
  have rec: "record_inv (unat (sa_value a)) r \<and> caps_inv r"
    if "short_ok a" "rg_find a ?rg = Some r" for a r
    using inv that
    by (auto simp: short_ok_unat reg_inv_def regs_caps_inv_def rg_find_def kRegistryCapacity_def list_all_length dest!: spec [of _ "unat (sa_value a)"])
  show ?thesis
    using count rec by (fastforce simp: record_inv_def caps_inv_def entry_inv_def list_all_iff)
qed

lemma manager_state_well_typed_witness:
  "let m = snd (snd (scanPresence scripted_client 1000 (replicate 64 False)
      \<lparr>dm_client = [QoOk], dm_registry = DaliDeviceRegistry_init\<rparr>))
   in rg_count (dm_registry m) = card {a. short_ok a \<and> rg_find a (dm_registry m) \<noteq> None}"
proof -
  obtain batch r m where "scanPresence scripted_client 1000 (replicate 64 False)
      \<lparr>dm_client = [QoOk], dm_registry = DaliDeviceRegistry_init\<rparr> = (batch, r, m)"
    by (metis prod.exhaust)
  with manager_state_well_typed [OF dm_reachable.scan [OF dm_reachable.start this]] show ?thesis
    by (simp add: Let_def)
qed

end
