(* ===== verification/Nvs_Store.thy ===== *)
theory Nvs_Store
  imports Dali_Prelude
begin

text \<open>
  The metadata store \<open>nvs_metadata_store.h/.cpp\<close> over the flash store (NVS) of the SDK. The
  SDK functions are the record \<open>nvs_api\<close>, a parameter, over the state \<open>'s\<close> of the flash; an
  out parameter is passed with its old value and returned. What the SDK documents of them and
  the store relies on is the predicate \<open>nvs_contract\<close>, over a view of that state: a value set
  through a handle is pending until a commit makes it durable.
\<close>

section \<open>The SDK as a parameter\<close>

text \<open>The codes the source names, and all others.\<close>

datatype esp_err =
    ESP_OK | ESP_ERR_NVS_NO_FREE_PAGES | ESP_ERR_NVS_NEW_VERSION_FOUND | ESP_ERR_OTHER int

datatype nvs_open_mode = NVS_READONLY | NVS_READWRITE

type_synonym nvs_handle = u32

record 's nvs_api =
  nvs_flash_init :: "'s \<Rightarrow> esp_err \<times> 's"
  nvs_flash_erase :: "'s \<Rightarrow> esp_err \<times> 's"
  nvs_open :: "string \<Rightarrow> nvs_open_mode \<Rightarrow> nvs_handle \<Rightarrow> 's \<Rightarrow> esp_err \<times> nvs_handle \<times> 's"
  nvs_set_u32 :: "nvs_handle \<Rightarrow> string \<Rightarrow> u32 \<Rightarrow> 's \<Rightarrow> esp_err \<times> 's"
  nvs_get_u32 :: "nvs_handle \<Rightarrow> string \<Rightarrow> u32 \<Rightarrow> 's \<Rightarrow> esp_err \<times> u32 \<times> 's"
  nvs_commit :: "nvs_handle \<Rightarrow> 's \<Rightarrow> esp_err \<times> 's"
  nvs_close :: "nvs_handle \<Rightarrow> 's \<Rightarrow> 's"

section \<open>The store\<close>

definition kNamespace :: string where
  "kNamespace = ''dali_meta''"

definition NvsMetadataStore_init :: "'s nvs_api \<Rightarrow> 's \<Rightarrow> esp_err \<times> 's" where
  "NvsMetadataStore_init api s =
     (let (result, s) = nvs_flash_init api s in
      if result = ESP_ERR_NVS_NO_FREE_PAGES \<or> result = ESP_ERR_NVS_NEW_VERSION_FOUND
      then let (result, s) = nvs_flash_erase api s in
        if result \<noteq> ESP_OK then (result, s) else nvs_flash_init api s
      else (result, s))"

definition saveUint32 :: "'s nvs_api \<Rightarrow> string \<Rightarrow> u32 \<Rightarrow> 's \<Rightarrow> esp_err \<times> 's" where
  "saveUint32 api key v s =
     (let (result, handle, s) = nvs_open api kNamespace NVS_READWRITE 0 s in
      if result \<noteq> ESP_OK then (result, s)
      else let (result, s) = nvs_set_u32 api handle key v s;
               (result, s) = (if result = ESP_OK then nvs_commit api handle s else (result, s))
        in (result, nvs_close api handle s))"

definition loadUint32 :: "'s nvs_api \<Rightarrow> string \<Rightarrow> u32 \<Rightarrow> 's \<Rightarrow> esp_err \<times> u32 \<times> 's" where
  "loadUint32 api key v s =
     (let (result, handle, s) = nvs_open api kNamespace NVS_READONLY 0 s in
      if result \<noteq> ESP_OK then (result, v, s)
      else let (result, v, s) = nvs_get_u32 api handle key v s
        in (result, v, nvs_close api handle s))"

section \<open>What the SDK promises\<close>

text \<open>
  What can be observed of the flash store: the open handles with their namespace and mode, the
  changes set through a handle and not yet committed, and the contents of the non-volatile
  storage, a value for a key of a namespace.
\<close>

record nvs_view =
  nv_handles :: "nvs_handle \<rightharpoonup> string \<times> nvs_open_mode"
  nv_pending :: "nvs_handle \<Rightarrow> string \<rightharpoonup> u32"
  nv_stored :: "string \<times> string \<rightharpoonup> u32"

text \<open>
  A set is written to the storage by a commit at the latest; an implementation may write it
  earlier. \<open>settled V V'\<close>: the storage of \<open>V'\<close> is that of \<open>V\<close>, apart from changes pending in \<open>V\<close>.
\<close>

definition settled :: "nvs_view \<Rightarrow> nvs_view \<Rightarrow> bool" where
  "settled V V' \<longleftrightarrow> (\<forall>ns key. nv_stored V' (ns, key) = nv_stored V (ns, key) \<or>
     (\<exists>h mode v. nv_handles V h = Some (ns, mode) \<and> nv_pending V h key = Some v \<and>
        nv_stored V' (ns, key) = Some v))"

text \<open>
  The documented behaviour. A successful open gives a fresh handle with nothing pending, a
  failed one gives none. A set through a read-write handle makes its value pending there (a
  failed one may have). A read delivers a value that is stored or pending, a failed one leaves
  the out parameter alone. Only a successful commit promises that what was pending through its
  handle is stored; closing does not, and ends what is still pending through the handle.
\<close>

definition init_contract :: "('s \<Rightarrow> nvs_view) \<Rightarrow> 's nvs_api \<Rightarrow> bool" where
  "init_contract view api \<longleftrightarrow> (\<forall>s result s'. nvs_flash_init api s = (result, s') \<longrightarrow>
     settled (view s) (view s') \<and> nv_handles (view s') = nv_handles (view s) \<and>
     nv_pending (view s') = nv_pending (view s))"

definition open_contract :: "('s \<Rightarrow> nvs_view) \<Rightarrow> 's nvs_api \<Rightarrow> bool" where
  "open_contract view api \<longleftrightarrow>
     (\<forall>ns mode h0 s result h s'. nvs_open api ns mode h0 s = (result, h, s') \<longrightarrow>
        settled (view s) (view s') \<and>
        (if result = ESP_OK
         then nv_handles (view s) h = None \<and> nv_handles (view s') = (nv_handles (view s))(h \<mapsto> (ns, mode)) \<and>
           nv_pending (view s') = (nv_pending (view s))(h := Map.empty)
         else nv_handles (view s') = nv_handles (view s) \<and> nv_pending (view s') = nv_pending (view s)))"

definition set_contract :: "('s \<Rightarrow> nvs_view) \<Rightarrow> 's nvs_api \<Rightarrow> bool" where
  "set_contract view api \<longleftrightarrow>
     (\<forall>h ns key v s result s'. nvs_set_u32 api h key v s = (result, s') \<and>
        nv_handles (view s) h = Some (ns, NVS_READWRITE) \<longrightarrow>
        settled ((view s)\<lparr>nv_pending := nv_pending (view s')\<rparr>) (view s') \<and>
        nv_handles (view s') = nv_handles (view s) \<and>
        (let written = (nv_pending (view s))(h := (nv_pending (view s) h)(key \<mapsto> v))
         in nv_pending (view s') = written \<or> result \<noteq> ESP_OK \<and> nv_pending (view s') = nv_pending (view s)))"

definition get_contract :: "('s \<Rightarrow> nvs_view) \<Rightarrow> 's nvs_api \<Rightarrow> bool" where
  "get_contract view api \<longleftrightarrow>
     (\<forall>h ns mode key v0 s result v s'. nvs_get_u32 api h key v0 s = (result, v, s') \<and>
        nv_handles (view s) h = Some (ns, mode) \<longrightarrow>
        settled (view s) (view s') \<and> nv_handles (view s') = nv_handles (view s) \<and>
        nv_pending (view s') = nv_pending (view s) \<and>
        (if result = ESP_OK
         then nv_stored (view s) (ns, key) = Some v \<or>
           (\<exists>h' mode'. nv_handles (view s) h' = Some (ns, mode') \<and> nv_pending (view s) h' key = Some v)
         else v = v0))"

definition commit_contract :: "('s \<Rightarrow> nvs_view) \<Rightarrow> 's nvs_api \<Rightarrow> bool" where
  "commit_contract view api \<longleftrightarrow>
     (\<forall>h ns s result s'. nvs_commit api h s = (result, s') \<and>
        nv_handles (view s) h = Some (ns, NVS_READWRITE) \<longrightarrow>
        settled (view s) (view s') \<and> nv_handles (view s') = nv_handles (view s) \<and>
        (\<exists>rest. rest \<subseteq>\<^sub>m nv_pending (view s) h \<and> nv_pending (view s') = (nv_pending (view s))(h := rest)) \<and>
        (result = ESP_OK \<longrightarrow>
           (\<forall>key v. nv_pending (view s) h key = Some v \<longrightarrow> nv_stored (view s') (ns, key) = Some v)))"

definition close_contract :: "('s \<Rightarrow> nvs_view) \<Rightarrow> 's nvs_api \<Rightarrow> bool" where
  "close_contract view api \<longleftrightarrow>
     (\<forall>h s. settled (view s) (view (nvs_close api h s)) \<and>
        nv_handles (view (nvs_close api h s)) = (nv_handles (view s))(h := None) \<and>
        nv_pending (view (nvs_close api h s)) = (nv_pending (view s))(h := Map.empty))"

definition nvs_contract :: "('s \<Rightarrow> nvs_view) \<Rightarrow> 's nvs_api \<Rightarrow> bool" where
  "nvs_contract view api \<longleftrightarrow> init_contract view api \<and> open_contract view api \<and> set_contract view api \<and>
     get_contract view api \<and> commit_contract view api \<and> close_contract view api"

text \<open>A loss of power ends all handles; what was pending has reached the storage or is lost.\<close>

definition power_lost :: "nvs_view \<Rightarrow> nvs_view \<Rightarrow> bool" where
  "power_lost V V' \<longleftrightarrow> settled V V' \<and> nv_handles V' = Map.empty \<and> nv_pending V' = (\<lambda>_. Map.empty)"

section \<open>What can be pending for a key\<close>

text \<open>
  \<open>pending_in V x A\<close>: every change pending for the key \<open>x\<close> has its value in \<open>A\<close>; with no value
  allowed, nothing is pending for it.
\<close>

definition pending_in :: "nvs_view \<Rightarrow> string \<times> string \<Rightarrow> u32 set \<Rightarrow> bool" where
  "pending_in V x A \<longleftrightarrow> (\<forall>h mode v. nv_handles V h = Some (fst x, mode) \<and> nv_pending V h (snd x) = Some v \<longrightarrow> v \<in> A)"

lemma settled_pending:
  assumes "settled V V'" and "pending_in V x A"
  shows "nv_stored V' x = nv_stored V x \<or> nv_stored V' x \<in> Some ` A"
  using assms unfolding settled_def pending_in_def by (cases x) force

lemma settled_quiet: "settled V V' \<Longrightarrow> pending_in V x {} \<Longrightarrow> nv_stored V' x = nv_stored V x"
  using settled_pending [of V V' x "{}"] by simp

lemma pending_in_mono: "pending_in V x A \<Longrightarrow> A \<subseteq> B \<Longrightarrow> pending_in V x B"
  by (auto simp: pending_in_def)

lemma pending_in_handle:
  assumes "pending_in V x A" and "\<And>h'. h' \<noteq> h \<Longrightarrow> nv_handles V' h' = nv_handles V h'"
    and "nv_pending V' = (nv_pending V)(h := p)"
    and "\<And>v mode. nv_handles V' h = Some (fst x, mode) \<Longrightarrow> p (snd x) = Some v \<Longrightarrow> v \<in> A"
  shows "pending_in V' x A"
  unfolding pending_in_def
proof (intro allI impI)
  fix h' mode v assume "nv_handles V' h' = Some (fst x, mode) \<and> nv_pending V' h' (snd x) = Some v"
  then show "v \<in> A" using assms by (cases "h' = h") (auto simp: pending_in_def)
qed

text \<open>The open handles and what is pending through them are the same.\<close>

definition same_handles :: "nvs_view \<Rightarrow> nvs_view \<Rightarrow> bool" where
  "same_handles V V' \<longleftrightarrow> nv_handles V' = nv_handles V \<and>
     (\<forall>h. nv_handles V h \<noteq> None \<longrightarrow> nv_pending V' h = nv_pending V h)"

lemma pending_in_same: "same_handles V V' \<Longrightarrow> pending_in V x A \<Longrightarrow> pending_in V' x A"
  by (auto simp: same_handles_def pending_in_def)

section \<open>The SDK functions one by one\<close>

lemma contract_open_fails:
  assumes "nvs_contract view api" and "nvs_open api ns mode h0 s = (result, h, s')" and "result \<noteq> ESP_OK"
  shows "settled (view s) (view s')" and "same_handles (view s) (view s')"
  using assms unfolding nvs_contract_def open_contract_def same_handles_def by (metis (full_types))+

lemma contract_open:
  assumes "nvs_contract view api" and "nvs_open api ns mode h0 s = (ESP_OK, h, s')"
  shows "settled (view s) (view s')" and "nv_handles (view s) h = None"
    and "nv_handles (view s') = (nv_handles (view s))(h \<mapsto> (ns, mode))"
    and "nv_pending (view s') = (nv_pending (view s))(h := Map.empty)"
  using assms unfolding nvs_contract_def open_contract_def by (metis (full_types))+

lemma contract_set:
  assumes "nvs_contract view api" and "nvs_set_u32 api h key v s = (result, s')"
    and "nv_handles (view s) h = Some (ns, NVS_READWRITE)"
  shows "settled ((view s)\<lparr>nv_pending := nv_pending (view s')\<rparr>) (view s')"
    and "nv_handles (view s') = nv_handles (view s)"
    and "nv_pending (view s') = (nv_pending (view s))(h := (nv_pending (view s) h)(key \<mapsto> v)) \<or>
      result \<noteq> ESP_OK \<and> nv_pending (view s') = nv_pending (view s)"
proof -
  have "set_contract view api" using assms(1) by (simp add: nvs_contract_def)
  then show "settled ((view s)\<lparr>nv_pending := nv_pending (view s')\<rparr>) (view s')"
    and "nv_handles (view s') = nv_handles (view s)"
    and "nv_pending (view s') = (nv_pending (view s))(h := (nv_pending (view s) h)(key \<mapsto> v)) \<or>
      result \<noteq> ESP_OK \<and> nv_pending (view s') = nv_pending (view s)"
    unfolding set_contract_def Let_def using assms(2,3) by blast+
qed

lemma contract_get:
  assumes "nvs_contract view api" and "nvs_get_u32 api h key v0 s = (result, v, s')"
    and "nv_handles (view s) h = Some (ns, mode)"
  shows "settled (view s) (view s')" and "nv_handles (view s') = nv_handles (view s)"
    and "nv_pending (view s') = nv_pending (view s)" and "result \<noteq> ESP_OK \<Longrightarrow> v = v0"
    and "result = ESP_OK \<Longrightarrow> pending_in (view s) (ns, key) {} \<Longrightarrow> nv_stored (view s) (ns, key) = Some v"
proof -
  have "settled (view s) (view s') \<and> nv_handles (view s') = nv_handles (view s) \<and>
    nv_pending (view s') = nv_pending (view s) \<and>
    (if result = ESP_OK
     then nv_stored (view s) (ns, key) = Some v \<or>
       (\<exists>h' mode'. nv_handles (view s) h' = Some (ns, mode') \<and> nv_pending (view s) h' key = Some v)
     else v = v0)"
    using assms unfolding nvs_contract_def get_contract_def by blast
  then show "settled (view s) (view s')" and "nv_handles (view s') = nv_handles (view s)"
    and "nv_pending (view s') = nv_pending (view s)" and "result \<noteq> ESP_OK \<Longrightarrow> v = v0"
    and "result = ESP_OK \<Longrightarrow> pending_in (view s) (ns, key) {} \<Longrightarrow> nv_stored (view s) (ns, key) = Some v"
    by (auto simp: pending_in_def)
qed

lemma contract_commit:
  assumes "nvs_contract view api" and "nvs_commit api h s = (result, s')"
    and "nv_handles (view s) h = Some (ns, NVS_READWRITE)"
  shows "settled (view s) (view s')" and "nv_handles (view s') = nv_handles (view s)"
    and "\<exists>rest. rest \<subseteq>\<^sub>m nv_pending (view s) h \<and> nv_pending (view s') = (nv_pending (view s))(h := rest)"
    and "result = ESP_OK \<Longrightarrow> nv_pending (view s) h key = Some v \<Longrightarrow> nv_stored (view s') (ns, key) = Some v"
proof -
  have "commit_contract view api" using assms(1) by (simp add: nvs_contract_def)
  then show "settled (view s) (view s')" and "nv_handles (view s') = nv_handles (view s)"
    and "\<exists>rest. rest \<subseteq>\<^sub>m nv_pending (view s) h \<and> nv_pending (view s') = (nv_pending (view s))(h := rest)"
    and "result = ESP_OK \<Longrightarrow> nv_pending (view s) h key = Some v \<Longrightarrow> nv_stored (view s') (ns, key) = Some v"
    unfolding commit_contract_def using assms(2,3) by blast+
qed

lemma contract_close:
  assumes "nvs_contract view api"
  shows "settled (view s) (view (nvs_close api h s))"
    and "nv_handles (view (nvs_close api h s)) = (nv_handles (view s))(h := None)"
    and "nv_pending (view (nvs_close api h s)) = (nv_pending (view s))(h := Map.empty)"
  using assms unfolding nvs_contract_def close_contract_def by blast+

section \<open>Saving\<close>

text \<open>The changes a save of \<open>v\<close> under \<open>key\<close> may leave pending for \<open>x\<close> before its handle is closed.\<close>

definition saved_for :: "string \<times> string \<Rightarrow> string \<Rightarrow> u32 \<Rightarrow> u32 set" where
  "saved_for x key v = (if x = (kNamespace, key) then {v} else {})"

text \<open>Between the open and the close.\<close>

lemma save_writes:
  assumes con: "nvs_contract view api" and set: "nvs_set_u32 api h key v s1 = (r2, s2)"
    and commit: "(if r2 = ESP_OK then nvs_commit api h s2 else (r2, s2)) = (r3, s3)"
    and h: "nv_handles (view s1) h = Some (kNamespace, NVS_READWRITE)" "nv_pending (view s1) h = Map.empty"
  shows "nv_handles (view s3) = nv_handles (view s1)"
    and "\<exists>p. nv_pending (view s3) = (nv_pending (view s1))(h := p)"
    and "pending_in (view s1) x {} \<Longrightarrow> pending_in (view s3) x (saved_for x key v) \<and>
      (nv_stored (view s3) x = nv_stored (view s1) x \<or> nv_stored (view s3) x \<in> Some ` saved_for x key v)"
    and "r3 = ESP_OK \<Longrightarrow> nv_stored (view s3) (kNamespace, key) = Some v"
proof -
  let ?A = "saved_for x key v"
  note w = contract_set [OF con set h(1)]
  have h2: "nv_handles (view s2) h = Some (kNamespace, NVS_READWRITE)" using w(2) h(1) by simp
  have p2: "nv_pending (view s2) = (nv_pending (view s1))(h := [key \<mapsto> v]) \<or>
      r2 \<noteq> ESP_OK \<and> nv_pending (view s2) = (nv_pending (view s1))(h := Map.empty)"
    using w(3) h(2) by (simp add: fun_upd_idem)
  have c: "nv_handles (view s3) = nv_handles (view s2) \<and> (r2 \<noteq> ESP_OK \<and> s3 = s2 \<or>
      settled (view s2) (view s3) \<and>
      (\<exists>rest. rest \<subseteq>\<^sub>m nv_pending (view s2) h \<and> nv_pending (view s3) = (nv_pending (view s2))(h := rest)))"
    using commit contract_commit(1-3) [OF con _ h2] by (cases "r2 = ESP_OK") auto
  then show "nv_handles (view s3) = nv_handles (view s1)" using w(2) by simp
  obtain q where q: "q \<subseteq>\<^sub>m [key \<mapsto> v]" "nv_pending (view s2) = (nv_pending (view s1))(h := q)"
    using p2 map_le_empty map_le_refl by metis
  then have q2: "nv_pending (view s2) h = q" by simp
  have p3: "\<exists>p. p \<subseteq>\<^sub>m [key \<mapsto> v] \<and> nv_pending (view s3) = (nv_pending (view s1))(h := p)"
    using c
  proof (elim conjE disjE exE)
    fix rest assume "rest \<subseteq>\<^sub>m nv_pending (view s2) h" "nv_pending (view s3) = (nv_pending (view s2))(h := rest)"
    then show ?thesis using q map_le_trans unfolding q2 by (intro exI [of _ rest]) auto
  qed (use q in auto)
  then show "\<exists>p. nv_pending (view s3) = (nv_pending (view s1))(h := p)" by blast
  show "r3 = ESP_OK \<Longrightarrow> nv_stored (view s3) (kNamespace, key) = Some v"
    using commit p2 contract_commit(4) [OF con _ h2, of r3 s3 key v] by (auto split: if_splits)
  assume quiet: "pending_in (view s1) x {}"
  have A: "pending_in V x ?A" if "nv_handles V = nv_handles (view s1)"
    "nv_pending V = (nv_pending (view s1))(h := p)" "p \<subseteq>\<^sub>m [key \<mapsto> v]" for V p
  proof (rule pending_in_handle [OF pending_in_mono [OF quiet empty_subsetI] _ that(2)])
    show "nv_handles V h' = nv_handles (view s1) h'" for h' by (simp add: that(1))
    fix w mode assume open_h: "nv_handles V h = Some (fst x, mode)" and "p (snd x) = Some w"
    then have "[key \<mapsto> v] (snd x) = Some w" using that(3) unfolding map_le_def by (metis domI)
    with open_h show "w \<in> ?A" using h(1) that(1) by (auto simp: saved_for_def prod_eq_iff split: if_splits)
  qed
  have set_A: "pending_in ((view s1)\<lparr>nv_pending := nv_pending (view s2)\<rparr>) x ?A" and A2: "pending_in (view s2) x ?A"
    using p2 w(2) by (auto intro!: A)
  have A3: "pending_in (view s3) x ?A" using p3 c w(2) by (auto intro: A)
  have "nv_stored (view s2) x = nv_stored (view s1) x \<or> nv_stored (view s2) x \<in> Some ` ?A"
    using settled_pending [OF w(1) set_A] by simp
  moreover have "nv_stored (view s3) x = nv_stored (view s2) x \<or> nv_stored (view s3) x \<in> Some ` ?A"
    using c settled_pending [OF _ A2] by blast
  ultimately show "pending_in (view s3) x ?A \<and>
      (nv_stored (view s3) x = nv_stored (view s1) x \<or> nv_stored (view s3) x \<in> Some ` ?A)"
    using A3 by (simp only: simp_thms) metis
qed

text \<open>The whole of a save.\<close>

lemma save_effect:
  assumes con: "nvs_contract view api" and save: "saveUint32 api key v s = (result, s')"
  shows "same_handles (view s) (view s')"
    and "pending_in (view s) x {} \<Longrightarrow>
      nv_stored (view s') x = nv_stored (view s) x \<or> nv_stored (view s') x \<in> Some ` saved_for x key v"
    and "pending_in (view s) (kNamespace, key) {} \<Longrightarrow> result = ESP_OK \<Longrightarrow>
      nv_stored (view s') (kNamespace, key) = Some v"
proof -
  obtain r1 h s1 where o: "nvs_open api kNamespace NVS_READWRITE 0 s = (r1, h, s1)" by (metis prod.exhaust)
  have "same_handles (view s) (view s') \<and>
    (\<forall>x. pending_in (view s) x {} \<longrightarrow>
      nv_stored (view s') x = nv_stored (view s) x \<or> nv_stored (view s') x \<in> Some ` saved_for x key v) \<and>
    (pending_in (view s) (kNamespace, key) {} \<longrightarrow> result = ESP_OK \<longrightarrow>
      nv_stored (view s') (kNamespace, key) = Some v)"
  proof (cases "r1 = ESP_OK")
    case False
    then have "result = r1" "s' = s1" using save o by (simp_all add: saveUint32_def)
    then show ?thesis using contract_open_fails [OF con o False] False settled_quiet by metis
  next
    case True
    note opened = contract_open [OF con o [unfolded True]]
    obtain r2 s2 where set: "nvs_set_u32 api h key v s1 = (r2, s2)" by (metis prod.exhaust)
    obtain r3 s3 where c: "(if r2 = ESP_OK then nvs_commit api h s2 else (r2, s2)) = (r3, s3)"
      by (metis prod.exhaust)
    have s': "result = r3" "s' = nvs_close api h s3"
      using save o set True c by (auto simp: saveUint32_def Let_def split: if_splits prod.splits)
    have h: "nv_handles (view s1) h = Some (kNamespace, NVS_READWRITE)" "nv_pending (view s1) h = Map.empty"
      using opened(3,4) by simp_all
    note w = save_writes [OF con set c h]
    note closed = contract_close [OF con, where h = h and s = s3]
    have "same_handles (view s) (view s')"
      using closed(2,3) w(1,2) opened by (auto simp: same_handles_def s' fun_eq_iff)
    moreover have "nv_stored (view s') x = nv_stored (view s) x \<or> nv_stored (view s') x \<in> Some ` saved_for x key v"
      "result = ESP_OK \<Longrightarrow> x = (kNamespace, key) \<Longrightarrow> nv_stored (view s') x = Some v"
      if q: "pending_in (view s) x {}" for x
    proof -
      have "pending_in (view s1) x {}"
        by (rule pending_in_handle [OF q _ opened(4)]) (simp_all add: opened(3))
      note w3 = w(3) [OF this]
      have e: "nv_stored (view s1) x = nv_stored (view s) x" by (rule settled_quiet [OF opened(1) q])
      have z: "nv_stored (view s') x = nv_stored (view s3) x \<or> nv_stored (view s') x \<in> Some ` saved_for x key v"
        using settled_pending [OF closed(1)] w3 unfolding s' by blast
      then show "nv_stored (view s') x = nv_stored (view s) x \<or> nv_stored (view s') x \<in> Some ` saved_for x key v"
        using w3 e by metis
      show "nv_stored (view s') x = Some v" if "result = ESP_OK" "x = (kNamespace, key)"
        using z w(4) that s' by (auto simp: saved_for_def)
    qed
    ultimately show ?thesis by blast
  qed
  then show "same_handles (view s) (view s')"
    and "pending_in (view s) x {} \<Longrightarrow>
      nv_stored (view s') x = nv_stored (view s) x \<or> nv_stored (view s') x \<in> Some ` saved_for x key v"
    and "pending_in (view s) (kNamespace, key) {} \<Longrightarrow> result = ESP_OK \<Longrightarrow>
      nv_stored (view s') (kNamespace, key) = Some v"
    by blast+
qed

section \<open>Loading and booting\<close>

lemma load_effect:
  assumes con: "nvs_contract view api" and load: "loadUint32 api key v0 s = (result, v, s')"
  shows "same_handles (view s) (view s')"
    and "pending_in (view s) x {} \<Longrightarrow> nv_stored (view s') x = nv_stored (view s) x"
    and "result \<noteq> ESP_OK \<Longrightarrow> v = v0"
    and "pending_in (view s) (kNamespace, key) {} \<Longrightarrow> result = ESP_OK \<Longrightarrow>
      nv_stored (view s) (kNamespace, key) = Some v"
proof -
  obtain r1 h s1 where o: "nvs_open api kNamespace NVS_READONLY 0 s = (r1, h, s1)" by (metis prod.exhaust)
  have "same_handles (view s) (view s') \<and> (result \<noteq> ESP_OK \<longrightarrow> v = v0) \<and>
    (\<forall>x. pending_in (view s) x {} \<longrightarrow> nv_stored (view s') x = nv_stored (view s) x \<and>
      (x = (kNamespace, key) \<longrightarrow> result = ESP_OK \<longrightarrow> nv_stored (view s) x = Some v))"
  proof (cases "r1 = ESP_OK")
    case False
    then have "result = r1" "v = v0" "s' = s1" using load o by (simp_all add: loadUint32_def)
    then show ?thesis using contract_open_fails [OF con o False] False settled_quiet by metis
  next
    case True
    note opened = contract_open [OF con o [unfolded True]]
    obtain r2 w s2 where g: "nvs_get_u32 api h key v0 s1 = (r2, w, s2)" by (metis prod.exhaust)
    have s': "result = r2" "v = w" "s' = nvs_close api h s2"
      using load o g True by (simp_all add: loadUint32_def)
    have "nv_handles (view s1) h = Some (kNamespace, NVS_READONLY)" using opened(3) by simp
    note got = contract_get [OF con g this]
    note closed = contract_close [OF con, where h = h and s = s2]
    have "same_handles (view s) (view s')"
      using closed(2,3) got(2,3) opened by (auto simp: same_handles_def s' fun_eq_iff)
    moreover have "nv_stored (view s') x = nv_stored (view s) x \<and>
        (x = (kNamespace, key) \<longrightarrow> result = ESP_OK \<longrightarrow> nv_stored (view s) x = Some v)"
      if q: "pending_in (view s) x {}" for x
    proof -
      have q1: "pending_in (view s1) x {}"
        by (rule pending_in_handle [OF q _ opened(4)]) (simp_all add: opened(3))
      then have q2: "pending_in (view s2) x {}" using got(2,3) by (simp add: pending_in_def)
      show ?thesis
        using settled_quiet [OF opened(1) q] settled_quiet [OF got(1) q1] settled_quiet [OF closed(1) q2]
          got(5) q1 by (auto simp: s')
    qed
    ultimately show ?thesis using got(4) s' by blast
  qed
  then show "same_handles (view s) (view s')"
    and "pending_in (view s) x {} \<Longrightarrow> nv_stored (view s') x = nv_stored (view s) x"
    and "result \<noteq> ESP_OK \<Longrightarrow> v = v0"
    and "pending_in (view s) (kNamespace, key) {} \<Longrightarrow> result = ESP_OK \<Longrightarrow>
      nv_stored (view s) (kNamespace, key) = Some v"
    by blast+
qed

text \<open>A boot that finds the partition usable does not erase it.\<close>

lemma init_effect:
  assumes "nvs_contract view api"
    and "fst (nvs_flash_init api s) \<notin> {ESP_ERR_NVS_NO_FREE_PAGES, ESP_ERR_NVS_NEW_VERSION_FOUND}"
  shows "same_handles (view s) (view (snd (NvsMetadataStore_init api s)))"
    and "settled (view s) (view (snd (NvsMetadataStore_init api s)))"
proof -
  obtain r s' where i: "nvs_flash_init api s = (r, s')" by (metis prod.exhaust)
  then have "NvsMetadataStore_init api s = (r, s')" using assms(2) by (simp add: NvsMetadataStore_init_def)
  moreover have "settled (view s) (view s') \<and> same_handles (view s) (view s')"
    using assms(1) i by (simp add: nvs_contract_def init_contract_def same_handles_def)
  ultimately show "same_handles (view s) (view (snd (NvsMetadataStore_init api s)))"
    and "settled (view s) (view (snd (NvsMetadataStore_init api s)))" by simp_all
qed

text \<open>
  What may happen after a save, other than a save of the same key and a boot that erases the
  partition: calls of the store, successful or not, and losses of power with the boot after.
\<close>

inductive since_then :: "('s \<Rightarrow> nvs_view) \<Rightarrow> 's nvs_api \<Rightarrow> string \<Rightarrow> 's \<Rightarrow> 's \<Rightarrow> bool"
  for view api key s
where
  nothing: "since_then view api key s s"
| saved: "since_then view api key s t \<Longrightarrow> k \<noteq> key \<Longrightarrow> since_then view api key s (snd (saveUint32 api k v t))"
| loaded: "since_then view api key s t \<Longrightarrow> since_then view api key s (snd (snd (loadUint32 api k v t)))"
| restarted: "since_then view api key s t \<Longrightarrow> power_lost (view t) (view u) \<Longrightarrow>
    fst (nvs_flash_init api u) \<notin> {ESP_ERR_NVS_NO_FREE_PAGES, ESP_ERR_NVS_NEW_VERSION_FOUND} \<Longrightarrow>
    since_then view api key s (snd (NvsMetadataStore_init api u))"

lemma since_then_keeps:
  assumes con: "nvs_contract view api" and "since_then view api key s t"
    and "pending_in (view s) (kNamespace, key) {}"
  shows "pending_in (view t) (kNamespace, key) {} \<and>
    nv_stored (view t) (kNamespace, key) = nv_stored (view s) (kNamespace, key)"
  using assms(2)
proof (induction rule: since_then.induct)
  case nothing
  then show ?case using assms(3) by simp
next
  case (saved t k v)
  note e = save_effect [OF con prod.collapse [symmetric], where key = k and v = v and s = t]
  show ?case using saved pending_in_same [OF e(1)] e(2) [of "(kNamespace, key)"]
    by (simp add: saved_for_def)
next
  case (loaded t k v)
  obtain r w t' where l: "loadUint32 api k v t = (r, w, t')" by (metis prod.exhaust)
  note e = load_effect [OF con l]
  show ?case using loaded pending_in_same [OF e(1)] e(2) [of "(kNamespace, key)"] l by simp
next
  case (restarted t u)
  have u: "pending_in (view u) (kNamespace, key) {}" using restarted.hyps(2) by (simp add: power_lost_def pending_in_def)
  note e = init_effect [OF con restarted.hyps(3)]
  have "nv_stored (view u) (kNamespace, key) = nv_stored (view t) (kNamespace, key)"
    using restarted.hyps(2) restarted.IH settled_quiet [of "view t" "view u" "(kNamespace, key)"]
    by (simp add: power_lost_def)
  then show ?case using restarted.IH pending_in_same [OF e(1) u] settled_quiet [OF e(2) u] by simp
qed

section \<open>Properties\<close>

text \<open>
  C37: the metadata store keeps what it is given and leaks nothing. On an SDK with the
  documented contract, where only a commit makes a value durable, and with nobody else's change
  of the key pending: once a save reported success, its value is in the storage and is what
  every later successful load of its key returns, whatever was saved or attempted for other
  keys or loaded in the meantime, and however often the power was lost between the calls and
  the next boot found the partition usable (otherwise it erases it); a load that fails leaves the caller's value alone. A save that fails leaves the old value or the new one and
  touches no other key. Neither operation leaves a handle open, on no error path.
\<close>

theorem metadata_store_keeps:
  assumes "nvs_contract view api" and "pending_in (view s) (kNamespace, key) {}"
    and "saveUint32 api key v s = (ESP_OK, s1)" and "since_then view api key s1 s2"
    and "loadUint32 api key v0 s2 = (result, w, s3)"
  shows "(result = ESP_OK \<longrightarrow> w = v) \<and> (result \<noteq> ESP_OK \<longrightarrow> w = v0) \<and>
    nv_stored (view s1) (kNamespace, key) = Some v \<and> nv_stored (view s3) (kNamespace, key) = Some v \<and>
    (\<forall>k u t. nv_handles (view (snd (saveUint32 api k u t))) = nv_handles (view t)) \<and>
    (\<forall>k u t. nv_handles (view (snd (snd (loadUint32 api k u t)))) = nv_handles (view t)) \<and>
    (\<forall>k u t x. pending_in (view t) x {} \<longrightarrow>
      nv_stored (view (snd (saveUint32 api k u t))) x = nv_stored (view t) x \<or>
      x = (kNamespace, k) \<and> nv_stored (view (snd (saveUint32 api k u t))) x = Some u)"
proof (intro conjI allI impI)
  note saved = save_effect [OF assms(1,3)]
  have "pending_in (view s1) (kNamespace, key) {}" by (rule pending_in_same [OF saved(1) assms(2)])
  note later = since_then_keeps [OF assms(1,4) this]
  show s1: "nv_stored (view s1) (kNamespace, key) = Some v" by (rule saved(3) [OF assms(2) refl])
  note loaded = load_effect [OF assms(1,5)]
  show "w = v" if "result = ESP_OK" using loaded(4) later s1 that by simp
  show "w = v0" if "result \<noteq> ESP_OK" using loaded(3) that by simp
  show "nv_stored (view s3) (kNamespace, key) = Some v" using loaded(2) later s1 by simp
next
  fix k u t
  note e = save_effect [OF assms(1) prod.collapse [symmetric], where key = k and v = u and s = t]
  show "nv_handles (view (snd (saveUint32 api k u t))) = nv_handles (view t)"
    using e(1) by (simp add: same_handles_def)
  show "nv_stored (view (snd (saveUint32 api k u t))) x = nv_stored (view t) x \<or>
      x = (kNamespace, k) \<and> nv_stored (view (snd (saveUint32 api k u t))) x = Some u"
    if "pending_in (view t) x {}" for x
    using e(2) [OF that] by (auto simp: saved_for_def split: if_splits)
next
  fix k u t
  obtain r w' t' where l: "loadUint32 api k u t = (r, w', t')" by (metis prod.exhaust)
  show "nv_handles (view (snd (snd (loadUint32 api k u t)))) = nv_handles (view t)"
    using load_effect(1) [OF assms(1) l] l by (simp add: same_handles_def)
qed

text \<open>
  A flash store with one handle at a time and a cache that a commit writes through: without a
  commit, nothing reaches the storage.
\<close>

definition flash_api :: "nvs_view nvs_api" where
  "flash_api = \<lparr>nvs_flash_init = (\<lambda>V. (ESP_OK, V)),
     nvs_flash_erase = (\<lambda>V. (ESP_OK, V\<lparr>nv_stored := Map.empty\<rparr>)),
     nvs_open = (\<lambda>ns mode h V. case nv_handles V 1 of
         Some _ \<Rightarrow> (ESP_ERR_OTHER 1, h, V)
       | None \<Rightarrow> (ESP_OK, 1, V\<lparr>nv_handles := (nv_handles V)(1 \<mapsto> (ns, mode)),
           nv_pending := (nv_pending V)(1 := Map.empty)\<rparr>)),
     nvs_set_u32 = (\<lambda>h key v V. case nv_handles V h of
         Some (ns, NVS_READWRITE) \<Rightarrow>
           (ESP_OK, V\<lparr>nv_pending := (nv_pending V)(h := (nv_pending V h)(key \<mapsto> v))\<rparr>)
       | _ \<Rightarrow> (ESP_ERR_OTHER 2, V)),
     nvs_get_u32 = (\<lambda>h key v V. case nv_handles V h of
         Some (ns, mode) \<Rightarrow> (case nv_stored V (ns, key) of Some w \<Rightarrow> (ESP_OK, w, V)
           | None \<Rightarrow> (ESP_ERR_OTHER 3, v, V))
       | None \<Rightarrow> (ESP_ERR_OTHER 2, v, V)),
     nvs_commit = (\<lambda>h V. case nv_handles V h of
         Some (ns, NVS_READWRITE) \<Rightarrow> (ESP_OK, V\<lparr>nv_stored := \<lambda>(n, k).
           if n = ns \<and> nv_pending V h k \<noteq> None then nv_pending V h k else nv_stored V (n, k),
           nv_pending := (nv_pending V)(h := Map.empty)\<rparr>)
       | _ \<Rightarrow> (ESP_ERR_OTHER 2, V)),
     nvs_close = (\<lambda>h V. V\<lparr>nv_handles := (nv_handles V)(h := None),
       nv_pending := (nv_pending V)(h := Map.empty)\<rparr>)\<rparr>"

lemma settled_same_storage: "nv_stored V' = nv_stored V \<Longrightarrow> settled V V'"
  by (simp add: settled_def)

lemma flash_contract: "nvs_contract (\<lambda>V. V) flash_api"
proof -
  have "init_contract (\<lambda>V. V) flash_api"
    by (simp add: init_contract_def flash_api_def settled_same_storage)
  moreover have "open_contract (\<lambda>V. V) flash_api"
    by (auto simp: open_contract_def flash_api_def settled_same_storage split: option.splits)
  moreover have "set_contract (\<lambda>V. V) flash_api"
    by (auto simp: set_contract_def flash_api_def settled_same_storage Let_def)
  moreover have "get_contract (\<lambda>V. V) flash_api"
    by (auto simp: get_contract_def flash_api_def settled_same_storage split: option.splits)
  moreover have "commit_contract (\<lambda>V. V) flash_api"
    by (auto simp: commit_contract_def flash_api_def settled_def intro!: exI [of _ Map.empty]) blast
  moreover have "close_contract (\<lambda>V. V) flash_api"
    by (simp add: close_contract_def flash_api_def settled_same_storage)
  ultimately show ?thesis by (simp add: nvs_contract_def)
qed

definition flash_with :: "(string \<times> string \<rightharpoonup> u32) \<Rightarrow> nvs_view" where
  "flash_with st = \<lparr>nv_handles = Map.empty, nv_pending = (\<lambda>_. Map.empty), nv_stored = st\<rparr>"

lemma flash_save:
  "saveUint32 flash_api k v (flash_with st) = (ESP_OK, flash_with (st((kNamespace, k) \<mapsto> v)))"
  by (auto simp: saveUint32_def flash_api_def flash_with_def Let_def fun_eq_iff)

lemma flash_load:
  "st (kNamespace, k) = Some w \<Longrightarrow> loadUint32 flash_api k v (flash_with st) = (ESP_OK, w, flash_with st)"
  by (auto simp: loadUint32_def flash_api_def flash_with_def fun_eq_iff)

lemma flash_boot: "NvsMetadataStore_init flash_api (flash_with st) = (ESP_OK, flash_with st)"
  by (simp add: NvsMetadataStore_init_def flash_api_def)

lemma metadata_store_keeps_witness:
  "nv_stored (snd (saveUint32 flash_api ''boots'' 7 (flash_with Map.empty))) (kNamespace, ''boots'') = Some 7 \<and>
   fst (snd (loadUint32 flash_api ''boots'' 0 (snd (NvsMetadataStore_init flash_api
     (snd (saveUint32 flash_api ''mode'' 5 (snd (saveUint32 flash_api ''boots'' 7 (flash_with Map.empty))))))))) = 7"
proof -
  let ?st = "[(kNamespace, ''boots'') \<mapsto> 7]"
  let ?st2 = "?st((kNamespace, ''mode'') \<mapsto> 5)"
  have "since_then (\<lambda>V. V) flash_api ''boots'' (flash_with ?st) (snd (saveUint32 flash_api ''mode'' 5 (flash_with ?st)))"
    by (intro since_then.saved since_then.nothing) simp
  then have "since_then (\<lambda>V. V) flash_api ''boots'' (flash_with ?st) (flash_with ?st2)"
    by (simp add: flash_save)
  moreover have "power_lost (flash_with ?st2) (flash_with ?st2)"
    by (simp add: power_lost_def flash_with_def settled_same_storage)
  ultimately have later: "since_then (\<lambda>V. V) flash_api ''boots'' (flash_with ?st)
      (snd (NvsMetadataStore_init flash_api (flash_with ?st2)))"
    by (rule since_then.restarted) (simp add: flash_api_def)
  have "pending_in (flash_with Map.empty) (kNamespace, ''boots'') {}"
    by (simp add: pending_in_def flash_with_def)
  note keeps = metadata_store_keeps [OF flash_contract this flash_save later]
  have "loadUint32 flash_api ''boots'' 0 (snd (NvsMetadataStore_init flash_api (flash_with ?st2))) =
      (ESP_OK, the (?st2 (kNamespace, ''boots'')), flash_with ?st2)"
    unfolding flash_boot snd_conv by (rule flash_load) simp
  from keeps [OF this] this show ?thesis by (simp add: flash_save)
qed

end
