(* ===== verification/Bus_Scan.thy ===== *)
theory Bus_Scan
  imports Device_Manager
begin

text \<open>
  The whole stack at work: a presence scan of the device manager through query client, queue,
  pipeline and transaction service on the simulated bus. The specification reads the
  simulator's script of responses: \<open>play\<close> is one query with its retries, \<open>hear_all\<close> the 64
  queries of a scan. Nothing of the layers in between is left in it.
\<close>

section \<open>Reading a script\<close>

text \<open>One exchange: what comes back, and the script afterwards.\<close>

definition play_once :: "u32 \<Rightarrow> SimulatedResponse list \<Rightarrow> PhyResult \<times> SimulatedResponse list" where
  "play_once timeout rs =
     (case rs of [] \<Rightarrow> (PhyTimeout, [])
      | x # xs \<Rightarrow> if timeout < sr_delayMs x then (PhyTimeout, x # xs) else (sr_result x, xs))"

text \<open>A query with \<open>k\<close> retries: its last verdict, the number of frames sent, the rest of the script.\<close>

primrec play :: "nat \<Rightarrow> u32 \<Rightarrow> SimulatedResponse list \<Rightarrow> PhyResult \<times> nat \<times> SimulatedResponse list" where
  "play 0 timeout rs = (let (v, rest) = play_once timeout rs in (v, 1, rest))"
| "play (Suc k) timeout rs =
     (let (v, rest) = play_once timeout rs
      in if isRetryable v then let (v', n, rest') = play k timeout rest in (v', n + 1, rest')
         else (v, 1, rest))"

definition presence_of :: "PhyResult \<Rightarrow> presence_answer" where
  "presence_of v = (case v of PhyOk \<Rightarrow> Heard | PhyCollision \<Rightarrow> Clash | PhyBusPowerLost \<Rightarrow> BusLost | _ \<Rightarrow> Silent)"

text \<open>The first \<open>n\<close> queries: what each address answered, the frames sent, the rest of the script.\<close>

primrec hear_all ::
  "nat \<Rightarrow> nat \<Rightarrow> u32 \<Rightarrow> SimulatedResponse list \<Rightarrow> presence_answer list \<times> nat \<times> SimulatedResponse list"
where
  "hear_all 0 k timeout rs = ([], 0, rs)"
| "hear_all (Suc n) k timeout rs =
     (let (answers, frames, rest) = hear_all n k timeout rs;
          (v, sent, rest') = play k timeout rest
      in (answers @ [presence_of v], frames + sent, rest'))"

section \<open>A transaction reads the script\<close>

definition sim_free :: "SimulatedDaliPhy \<Rightarrow> bool" where
  "sim_free p \<longleftrightarrow> sim_inv p \<and> sim_operational p \<and> \<not> sp_busBusy p \<and> \<not> sp_collision p"

lemma exchange_plays:
  assumes "ops_phy ops = sim_phy" "rq_expectsResponse request" "sim_free (bus_phy w)"
    and "exchange ops request w = (v, byte, w')"
  shows "play_once (rq_timeoutMs request) (pending (bus_phy w)) = (v, pending (bus_phy w'))"
    and "sim_free (bus_phy w')"
    and "transmittedFrameCount (bus_phy w') = transmittedFrameCount (bus_phy w) + 1"
proof -
  let ?p = "bus_phy w" and ?f = "frame_raw (rq_frame request)" and ?t = "rq_timeoutMs request"
  let ?p1 = "?p\<lparr>sp_lastForwardFrame := ?f, sp_transmittedFrameCount := sp_transmittedFrameCount ?p + 1\<rparr>"
  have tx: "sim_transmit ?f ?p = (PhyOk, ?p1)"
    using assms(3) by (simp add: sim_free_def sim_operational_def sim_transmit_def)
  have p1: "sim_inv ?p1" "sim_operational ?p1" "pending ?p1 = pending ?p"
    using assms(3) by (simp_all add: sim_free_def sim_inv_def sim_operational_def pending_def)
  obtain b p2 where rx: "sim_receive ?t ?p1 = (v, b, p2)" and w': "w' = w\<lparr>bus_phy := p2\<rparr>"
    using assms(1,2,4) tx by (auto simp: exchange_def sim_phy_def split: prod.splits)
  note r = sim_receive_pending [OF p1(1,2), of ?t, unfolded rx p1(3)]
  show "play_once ?t (pending ?p) = (v, pending (bus_phy w'))"
    using r by (auto simp: w' play_once_def split: list.splits if_splits)
  have "sp_health p2 = sp_health ?p1 \<and> sp_busBusy p2 = sp_busBusy ?p1 \<and> sp_collision p2 = sp_collision ?p1 \<and>
      sp_transmittedFrameCount p2 = sp_transmittedFrameCount ?p1"
    using rx by (auto simp: sim_receive_def Let_def split: if_splits)
  moreover have "sim_inv p2" using sim_keeps(3) [OF p1(1), of ?t] rx by simp
  ultimately show "sim_free (bus_phy w')"
    "transmittedFrameCount (bus_phy w') = transmittedFrameCount ?p + 1"
    using assms(3) by (simp_all add: w' sim_free_def sim_operational_def)
qed

text \<open>The attempt that ends the loop, and the one that goes on.\<close>

lemma loop_stops:
  assumes "exchange ops request w = (v, b, w1)" "rq_expectsResponse request" "attempt \<le> rq_maxRetries request"
    and "\<not> isRetryable v \<or> attempt = rq_maxRetries request"
    and "execute_loop ops request attempt result w = (res, w')"
  shows "w' = w1 \<and> tr_lastPhyResult res = v \<and> (tr_status res = TsOk \<longleftrightarrow> v = PhyOk) \<and>
    (v = PhyOk \<longrightarrow> tr_response res \<noteq> None)"
  using assms(5) unfolding execute_loop.simps [of ops request attempt] assms(1)
  using assms(2-4) by (cases v) (auto simp: isRetryable_def Let_def split: if_splits)

lemma loop_goes_on:
  assumes "exchange ops request w = (v, b, w1)" "isRetryable v" "attempt < rq_maxRetries request"
    and "pause ops attempt w1 = (ms, w2)"
  shows "\<exists>result'. execute_loop ops request attempt result w = execute_loop ops request (attempt + 1) result' w2"
  unfolding execute_loop.simps [of ops request attempt] assms(1)
  using assms(2-4) by (auto simp: isRetryable_def Let_def)

lemma loop_plays:
  assumes "ops_phy ops = sim_phy" "rq_expectsResponse request" "sim_free (bus_phy w)"
    and "unat (rq_maxRetries request) = unat attempt + k" "attempt \<le> rq_maxRetries request"
    and "execute_loop ops request attempt result w = (res, w')"
    and "play k (rq_timeoutMs request) (pending (bus_phy w)) = (v, n, rest)"
  shows "pending (bus_phy w') = rest \<and> sim_free (bus_phy w') \<and>
    transmittedFrameCount (bus_phy w') = transmittedFrameCount (bus_phy w) + of_nat n \<and>
    tr_lastPhyResult res = v \<and> (tr_status res = TsOk \<longleftrightarrow> v = PhyOk) \<and>
    (v = PhyOk \<longrightarrow> tr_response res \<noteq> None)"
  using assms(3-)
proof (induction k arbitrary: attempt result w n)
  case 0
  then have last: "attempt = rq_maxRetries request" by (simp add: word_unat_eq_iff)
  obtain b w1 v1 where x: "exchange ops request w = (v1, b, w1)" by (metis prod.exhaust)
  note e = exchange_plays [OF assms(1,2) "0.prems"(1) x]
  from loop_stops [OF x assms(2) "0.prems"(3) _ "0.prems"(4)] last have
    "w' = w1 \<and> tr_lastPhyResult res = v1 \<and> (tr_status res = TsOk \<longleftrightarrow> v1 = PhyOk) \<and>
      (v1 = PhyOk \<longrightarrow> tr_response res \<noteq> None)" by simp
  then show ?case using "0.prems"(5) e by auto
next
  case (Suc k)
  then have less: "attempt < rq_maxRetries request" by (simp add: word_less_nat_alt)
  obtain b w1 v1 where x: "exchange ops request w = (v1, b, w1)" by (metis prod.exhaust)
  note e = exchange_plays [OF assms(1,2) Suc.prems(1) x]
  show ?case
  proof (cases "isRetryable v1")
    case False
    from loop_stops [OF x assms(2) Suc.prems(3) _ Suc.prems(4)] False have
      "w' = w1 \<and> tr_lastPhyResult res = v1 \<and> (tr_status res = TsOk \<longleftrightarrow> v1 = PhyOk) \<and>
        (v1 = PhyOk \<longrightarrow> tr_response res \<noteq> None)" by simp
    then show ?thesis using Suc.prems(5) e False by auto
  next
    case True
    obtain ms w2 where p: "pause ops attempt w1 = (ms, w2)" by (metis prod.exhaust)
    have phy: "bus_phy w2 = bus_phy w1" using p by (auto simp: pause_def Let_def split: prod.splits)
    obtain n' where n': "play k (rq_timeoutMs request) (pending (bus_phy w2)) = (v, n', rest)" "n = n' + 1"
      using Suc.prems(5) e(1) True phy by (auto split: prod.splits)
    obtain result' where loop: "execute_loop ops request (attempt + 1) result' w2 = (res, w')"
      using loop_goes_on [OF x True less p, of result] Suc.prems(4) by auto
    have next_attempt: "unat (attempt + 1) = unat attempt + 1" using less by simp
    have "sim_free (bus_phy w2)" using e(2) phy by simp
    from Suc.IH [OF this _ _ loop n'(1)] Suc.prems(2) next_attempt e(3) phy n'(2)
    show ?thesis by (simp add: word_le_nat_alt)
  qed
qed

section \<open>A query and a scan read the script\<close>

text \<open>A client that owns an idle pipeline with valid parameters, on a free simulated bus.\<close>

definition client_phy :: "(SimulatedDaliPhy, 'd, 'j) PipelineQueryClient \<Rightarrow> SimulatedDaliPhy" where
  "client_phy c = bus_phy (pl_bus (pc_pipeline c))"

definition client_ready ::
  "(SimulatedDaliPhy, 'd, 'j) bus_ops \<Rightarrow> (SimulatedDaliPhy, 'd, 'j) PipelineQueryClient \<Rightarrow> bool"
where
  "client_ready ops c \<longleftrightarrow> ops_phy ops = sim_phy \<and> pl_idle (pc_pipeline c) \<and> pc_timeoutMs c \<noteq> 0 \<and>
     pc_maximumRetries c \<le> kAbsoluteMaxRetries \<and> sim_free (client_phy c)"

lemma classify_answer:
  assumes "tr_lastPhyResult res = v" "tr_status res = TsOk \<longleftrightarrow> v = PhyOk" "v = PhyOk \<longrightarrow> tr_response res \<noteq> None"
  shows "classify (answer_of_result res) = presence_of v"
proof -
  have "outcomeFromResult res = (if v = PhyOk then QoOk else outcome_of_phy v)"
    using assms by (simp add: outcomeFromResult_def)
  then show ?thesis
    using readingForResult_value [of res] assms(1)
    by (cases v) (simp_all add: classify_def isValidResponse_def isBusFailure_def answer_of_result_def presence_of_def)
qed

lemma query_plays:
  assumes "client_ready ops c" "pipeline_query ops a cmd prio c = (result, c')"
    and "play (unat (pc_maximumRetries c)) (pc_timeoutMs c) (pending (client_phy c)) = (v, n, rest)"
  shows "classify result = presence_of v \<and> client_ready ops c' \<and> pending (client_phy c') = rest \<and>
    transmittedFrameCount (client_phy c') = transmittedFrameCount (client_phy c) + of_nat n \<and>
    pc_maximumRetries c' = pc_maximumRetries c \<and> pc_timeoutMs c' = pc_timeoutMs c"
proof -
  let ?r = "query_request a cmd prio c" and ?w = "pl_bus (pc_pipeline c)"
  have ready: "ops_phy ops = sim_phy" "pl_idle (pc_pipeline c)" "sim_free (bus_phy ?w)" "request_valid ?r"
    "rq_expectsResponse ?r" "rq_timeoutMs ?r = pc_timeoutMs c" "rq_maxRetries ?r = pc_maximumRetries c"
    using assms(1) by (simp_all add: client_ready_def client_phy_def request_valid_def query_request_def)
  obtain res w' where ex: "execute ops ?r ?w = (res, w')" by (metis prod.exhaust)
  then have loop: "execute_loop ops ?r 0 DaliTransactionResult_init ?w = (res, w')"
    by (simp add: execute_valid [OF ready(4)])
  have "play (unat (pc_maximumRetries c)) (rq_timeoutMs ?r) (pending (bus_phy ?w)) = (v, n, rest)"
    using assms(3) ready(6) by (simp add: client_phy_def)
  from loop_plays [OF ready(1,5,3) _ _ loop this] ready(7)
  have p: "pending (bus_phy w') = rest" "sim_free (bus_phy w')"
    "transmittedFrameCount (bus_phy w') = transmittedFrameCount (bus_phy ?w) + of_nat n"
    "classify (answer_of_result res) = presence_of v"
    using classify_answer by simp_all
  from pipeline_query_idle [OF ready(2) ex] assms(2) obtain pl' where
    "result = answer_of_result res" "c' = c\<lparr>pc_pipeline := pl', pc_nextSequence := pc_nextSequence c + 1\<rparr>"
    "pl_idle pl'" "pl_bus pl' = w'" by auto
  then show ?thesis using p assms(1) by (simp add: client_ready_def client_phy_def)
qed

lemma asked_plays:
  assumes "client_ready ops c"
    and "hear_all n (unat (pc_maximumRetries c)) (pc_timeoutMs c) (pending (client_phy c)) = (answers, frames, rest)"
  shows "map classify (fst (asked (pipeline_client ops) c n)) = answers \<and>
    (let c' = snd (asked (pipeline_client ops) c n) in
     client_ready ops c' \<and> pending (client_phy c') = rest \<and>
     transmittedFrameCount (client_phy c') = transmittedFrameCount (client_phy c) + of_nat frames \<and>
     pc_maximumRetries c' = pc_maximumRetries c \<and> pc_timeoutMs c' = pc_timeoutMs c)"
  using assms(2)
proof (induction n arbitrary: answers frames rest)
  case 0
  then show ?case using assms(1) by simp
next
  case (Suc n)
  let ?c = "snd (asked (pipeline_client ops) c n)"
  obtain as fs mid where h: "hear_all n (unat (pc_maximumRetries c)) (pc_timeoutMs c) (pending (client_phy c)) = (as, fs, mid)"
    by (metis prod.exhaust)
  obtain v k end' where p: "play (unat (pc_maximumRetries c)) (pc_timeoutMs c) mid = (v, k, end')"
    by (metis prod.exhaust)
  obtain result c2 where q: "pipeline_query ops (ShortAddress (word_of_nat n)) QueryControlGearPresent CpHigh ?c = (result, c2)"
    by (metis prod.exhaust)
  note IH = Suc.IH [OF h, unfolded Let_def]
  have "play (unat (pc_maximumRetries ?c)) (pc_timeoutMs ?c) (pending (client_phy ?c)) = (v, k, end')"
    using IH p by simp
  from query_plays [OF _ q this] IH have
    "classify result = presence_of v \<and> client_ready ops c2 \<and> pending (client_phy c2) = end' \<and>
     transmittedFrameCount (client_phy c2) = transmittedFrameCount (client_phy ?c) + of_nat k \<and>
     pc_maximumRetries c2 = pc_maximumRetries c \<and> pc_timeoutMs c2 = pc_timeoutMs c" by simp
  then show ?case using IH Suc.prems h p q
    by (auto simp: pipeline_client_def case_prod_beta)
qed

section \<open>Properties\<close>

text \<open>
  C16: a scan over the whole stack is a reading of the bus. On a free simulated bus, with the
  pipeline to itself, one presence scan gives address \<open>i\<close> the \<open>i\<close>-th of the answers the script
  yields when each query takes the next response and is repeated, up to the retry limit, while
  it times out, is busy or collides; the lives of all addresses and the reported changes follow
  from these answers, exactly the frames so counted are sent, and the rest of the script and
  the readiness of the stack are left for the next scan.
\<close>

theorem scan_reads_the_bus:
  assumes "client_ready ops (dm_client m)" "reg_inv (dm_registry m)" "length reported = 64"
    and "scanPresence (pipeline_client ops) nowMs reported m = (batch, reported', m')"
    and "hear_all 64 (unat (pc_maximumRetries (dm_client m))) (pc_timeoutMs (dm_client m))
      (pending (client_phy (dm_client m))) = (answers, frames, rest)"
  shows "(\<forall>i < 64. light_view m' reported' i = fst (light_step (answers ! i) (light_view m reported i))) \<and>
    batch_list batch =
      concat (map (\<lambda>i. change_at nowMs i (snd (light_step (answers ! i) (light_view m reported i)))) [0..<64]) \<and>
    transmittedFrameCount (client_phy (dm_client m')) =
      transmittedFrameCount (client_phy (dm_client m)) + of_nat frames \<and>
    pending (client_phy (dm_client m')) = rest \<and> client_ready ops (dm_client m')"
proof -
  note a = asked_plays [OF assms(1,5), unfolded Let_def]
  note s = scan_slots [OF assms(2) _ assms(4), unfolded kRegistryCapacity_def, OF assms(3)]
  have life: "life_of (pipeline_client ops) reported m i = light_step (answers ! i) (light_view m reported i)"
    if "i < 64" for i
    using a that by (auto simp: life_of_def kRegistryCapacity_def)
  then have lives: "map (\<lambda>i. change_at nowMs i (snd (life_of (pipeline_client ops) reported m i))) [0..<64] =
      map (\<lambda>i. change_at nowMs i (snd (light_step (answers ! i) (light_view m reported i)))) [0..<64]"
    by (intro map_cong) (auto simp del: upt_Suc)
  show ?thesis using s(1-4) s(5) [unfolded lives] a life by simp
qed

text \<open>
  Four answers in the script, the second a collision: with one retry the collision is repeated
  and the third answer is address 1's, so that three lights are found.
\<close>

definition fresh_client ::
  "SimulatedResponse list \<Rightarrow> (SimulatedDaliPhy, u32 list, u32) PipelineQueryClient" where
  "fresh_client rs = \<lparr>pc_pipeline = pipeline_init (scripted_bus rs), pc_timeoutMs = 20,
     pc_maximumRetries = 1, pc_nextSequence = 1\<rparr>"

lemma scripted_bus_pending:
  assumes "length rs \<le> 32"
  shows "pending (bus_phy (scripted_bus rs)) = rs \<and> sim_free (bus_phy (scripted_bus rs))"
proof -
  let ?start = "snd (sim_init SimulatedDaliPhy_init)"
  have "pending (fold (\<lambda>r p. snd (enqueueResponse r p)) rs ?start) = rs \<and>
      sim_free (fold (\<lambda>r p. snd (enqueueResponse r p)) rs ?start)"
    using assms
  proof (induction rs rule: rev_induct)
    case Nil
    show ?case by (simp add: sim_free_def keeps)
      (simp add: pending_def sim_operational_def sim_init_def SimulatedDaliPhy_init_def Let_def)
  next
    case (snoc r rs)
    let ?p = "fold (\<lambda>r p. snd (enqueueResponse r p)) rs ?start"
    have IH: "pending ?p = rs" "sim_free ?p" using snoc by simp_all
    have "sp_health (snd (enqueueResponse r ?p)) = sp_health ?p \<and> sp_busBusy (snd (enqueueResponse r ?p)) = sp_busBusy ?p \<and>
        sp_collision (snd (enqueueResponse r ?p)) = sp_collision ?p"
      by (simp add: enqueueResponse_def Let_def)
    then show ?case using IH snoc.prems enqueueResponse_pending(1) [of ?p r]
      by (simp add: sim_free_def sim_operational_def keeps kResponseCapacity_def)
  qed
  then show ?thesis by (simp add: scripted_bus_def)
qed

lemma fresh_client_ready: "length rs \<le> 32 \<Longrightarrow> client_ready log_ops (fresh_client rs)"
  using scripted_bus_pending [of rs]
  by (simp add: client_ready_def fresh_client_def client_phy_def log_ops_def app_ops_def kAbsoluteMaxRetries_def
      pipeline_init_def [symmetric]) (simp add: pipeline_init_def)

lemma script_read:
  "hear_all 64 1 20 [answer 255, refuse PhyCollision, answer 255, answer 255] =
     (replicate 3 Heard @ replicate 61 Silent, 126, [])"
  by code_simp

lemma script_changes:
  "concat (map (\<lambda>i. change_at 1000 i (snd (light_step ((replicate 3 Heard @ replicate 61 Silent) ! i) (None, False)))) [0..<64]) =
     map (\<lambda>i. \<lparr>dg_type = DcDeviceDiscovered, dg_address = ShortAddress i, dg_uptimeMs = 1000\<rparr>) [0, 1, 2]"
  by code_simp

lemma scan_reads_the_bus_witness:
  "\<exists>batch reported m. scanPresence (pipeline_client log_ops) 1000 (replicate 64 False)
     \<lparr>dm_client = fresh_client [answer 255, refuse PhyCollision, answer 255, answer 255],
      dm_registry = DaliDeviceRegistry_init\<rparr> = (batch, reported, m) \<and>
   map dg_address (batch_list batch) = [ShortAddress 0, ShortAddress 1, ShortAddress 2] \<and>
   transmittedFrameCount (client_phy (dm_client m)) = 126"
proof -
  let ?rs = "[answer 255, refuse PhyCollision, answer 255, answer 255]"
  let ?m = "\<lparr>dm_client = fresh_client ?rs, dm_registry = DaliDeviceRegistry_init\<rparr>"
  obtain batch r m where scan: "scanPresence (pipeline_client log_ops) 1000 (replicate 64 False) ?m = (batch, r, m)"
    by (metis prod.exhaust)
  have ready: "client_ready log_ops (dm_client ?m)" using fresh_client_ready [of ?rs] by simp
  have read: "hear_all 64 (unat (pc_maximumRetries (dm_client ?m))) (pc_timeoutMs (dm_client ?m))
      (pending (client_phy (dm_client ?m))) = (replicate 3 Heard @ replicate 61 Silent, 126, [])"
    using script_read scripted_bus_pending [of ?rs]
    by (simp add: fresh_client_def client_phy_def pipeline_init_def del: hear_all.simps)
  have none: "map (\<lambda>i. change_at 1000 i (snd (light_step (as ! i) (light_view ?m (replicate 64 False) i)))) [0..<64] =
      map (\<lambda>i. change_at 1000 i (snd (light_step (as ! i) (None, False)))) [0..<64]" for as
    by (intro map_cong) (auto simp: light_view_def DaliDeviceRegistry_init_def kRegistryCapacity_def simp del: upt_Suc)
  have "transmittedFrameCount (client_phy (dm_client ?m)) = 0"
    by (simp add: fresh_client_def client_phy_def pipeline_init_def scripted_bus_def enqueueResponse_def
        sim_init_def SimulatedDaliPhy_init_def Let_def)
  with scan_reads_the_bus [OF ready _ _ scan read] scan show ?thesis
    unfolding none script_changes by (simp add: keeps)
qed

end
