(* ===== verification/Time_Interleaving.thy ===== *)
theory Time_Interleaving
  imports Time_Service
begin

text \<open>
  The time source is the one object several tasks use at once: \<open>esp_time_source.cpp\<close> guards its
  three members with a critical section. Here its operations run one memory access at a time,
  interleaved with those of any number of other tasks; the theory shows that they behave as the
  atomic operations of \<open>Time_Service\<close>.
\<close>

section \<open>Operations in steps\<close>

text \<open>
  Where a task is in its call, with the arguments and the locals it holds. \<open>Reader\<close> stands for
  \<open>unixTimeSeconds\<close> up to the end of its critical section, after which it holds a copy of all
  members (\<open>Copied\<close>) and reads the timer; \<open>Prober\<close> for \<open>unixTimeValid\<close>. The number in a reader is
  a ghost: how many states the source had been in when the call began.
\<close>

datatype task =
    Idle
  | SyncEnter u64 u64 | SyncUnix u64 u64 | SyncUptime u64 u64 | SyncFlag u64 u64 | SyncExit u64 u64
  | ReadEnter nat | ReadUnix nat | ReadUptime nat u64 | ReadFlag nat u64 u64 | ReadExit nat u64 u64 bool
  | Copied nat u64 u64 bool
  | ProbeEnter nat | ProbeFlag nat | ProbeExit nat bool | Probed nat bool

text \<open>
  One access of task \<open>i\<close>: \<open>None\<close> when it waits, at the lock or for its caller. The lock is the
  task that holds it, if any.
\<close>

fun access ::
  "nat \<Rightarrow> task \<Rightarrow> EspTimeSource \<Rightarrow> nat option \<Rightarrow> (task \<times> EspTimeSource \<times> nat option) option"
where
  "access i (SyncEnter u up) src lock = (if lock = None then Some (SyncUnix u up, src, Some i) else None)"
| "access i (SyncUnix u up) src lock = Some (SyncUptime u up, src\<lparr>tm_unixAtSyncSeconds := u\<rparr>, lock)"
| "access i (SyncUptime u up) src lock = Some (SyncFlag u up, src\<lparr>tm_uptimeAtSyncMs := up\<rparr>, lock)"
| "access i (SyncFlag u up) src lock = Some (SyncExit u up, src\<lparr>tm_synchronised := True\<rparr>, lock)"
| "access i (SyncExit u up) src lock = Some (Idle, src, None)"
| "access i (ReadEnter n) src lock = (if lock = None then Some (ReadUnix n, src, Some i) else None)"
| "access i (ReadUnix n) src lock = Some (ReadUptime n (tm_unixAtSyncSeconds src), src, lock)"
| "access i (ReadUptime n u) src lock = Some (ReadFlag n u (tm_uptimeAtSyncMs src), src, lock)"
| "access i (ReadFlag n u up) src lock = Some (ReadExit n u up (tm_synchronised src), src, lock)"
| "access i (ReadExit n u up v) src lock = Some (Copied n u up v, src, None)"
| "access i (ProbeEnter n) src lock = (if lock = None then Some (ProbeFlag n, src, Some i) else None)"
| "access i (ProbeFlag n) src lock = Some (ProbeExit n (tm_synchronised src), src, lock)"
| "access i (ProbeExit n v) src lock = Some (Probed n v, src, None)"
| "access i _ src lock = None"

text \<open>What \<open>unixTimeSeconds\<close> returns from its copies, with the timer as it reads it then.\<close>

definition seconds_from :: "64 word \<Rightarrow> u64 \<Rightarrow> u64 \<Rightarrow> bool \<Rightarrow> u64" where
  "seconds_from now u up v =
     (if \<not> v then 0
      else let currentUptime = uptimeMs now
           in if currentUptime < up then u else u + (currentUptime - up) div 1000)"

section \<open>Interleavings\<close>

text \<open>
  A configuration: the members, the lock, the tasks, and as a ghost the states the source has
  been in between critical sections, newest first.
\<close>

inductive interleaved ::
  "EspTimeSource \<Rightarrow> nat option \<Rightarrow> (nat \<Rightarrow> task) \<Rightarrow> EspTimeSource list \<Rightarrow> bool"
where
  start: "interleaved EspTimeSource_init None (\<lambda>_. Idle) [EspTimeSource_init]"
| call_sync: "interleaved src lock tasks h \<Longrightarrow> tasks i = Idle \<Longrightarrow>
    interleaved src lock (tasks(i := SyncEnter u up)) h"
| call_read: "interleaved src lock tasks h \<Longrightarrow> tasks i = Idle \<Longrightarrow>
    interleaved src lock (tasks(i := ReadEnter (length h))) h"
| call_probe: "interleaved src lock tasks h \<Longrightarrow> tasks i = Idle \<Longrightarrow>
    interleaved src lock (tasks(i := ProbeEnter (length h))) h"
| return: "interleaved src lock tasks h \<Longrightarrow> (\<exists>n u up v. tasks i = Copied n u up v) \<or> (\<exists>n v. tasks i = Probed n v) \<Longrightarrow>
    interleaved src lock (tasks(i := Idle)) h"
| run: "interleaved src lock tasks h \<Longrightarrow> access i (tasks i) src lock = Some (t, src', lock') \<Longrightarrow>
    interleaved src' lock' (tasks(i := t))
      (case tasks i of SyncExit u up \<Rightarrow> src' # h | _ \<Rightarrow> h)"

section \<open>The invariant\<close>

text \<open>Inside the critical section, relative to the state \<open>s\<close> the source was in before it.\<close>

fun section_ok :: "EspTimeSource \<Rightarrow> EspTimeSource \<Rightarrow> task \<Rightarrow> bool" where
  "section_ok s src (SyncUnix u up) \<longleftrightarrow> src = s"
| "section_ok s src (SyncUptime u up) \<longleftrightarrow> src = s\<lparr>tm_unixAtSyncSeconds := u\<rparr>"
| "section_ok s src (SyncFlag u up) \<longleftrightarrow> src = s\<lparr>tm_unixAtSyncSeconds := u, tm_uptimeAtSyncMs := up\<rparr>"
| "section_ok s src (SyncExit u up) \<longleftrightarrow> src = synchroniseUnixTime u up s"
| "section_ok s src (ReadUnix n) \<longleftrightarrow> src = s"
| "section_ok s src (ReadUptime n u) \<longleftrightarrow> src = s \<and> u = tm_unixAtSyncSeconds s"
| "section_ok s src (ReadFlag n u up) \<longleftrightarrow> src = s \<and> u = tm_unixAtSyncSeconds s \<and> up = tm_uptimeAtSyncMs s"
| "section_ok s src (ReadExit n u up v) \<longleftrightarrow>
     src = s \<and> u = tm_unixAtSyncSeconds s \<and> up = tm_uptimeAtSyncMs s \<and> v = tm_synchronised s"
| "section_ok s src (ProbeFlag n) \<longleftrightarrow> src = s"
| "section_ok s src (ProbeExit n v) \<longleftrightarrow> src = s \<and> v = tm_synchronised s"
| "section_ok s src _ \<longleftrightarrow> False"

fun in_section :: "task \<Rightarrow> bool" where
  "in_section (SyncUnix u up) = True" | "in_section (SyncUptime u up) = True"
| "in_section (SyncFlag u up) = True" | "in_section (SyncExit u up) = True"
| "in_section (ReadUnix n) = True" | "in_section (ReadUptime n u) = True"
| "in_section (ReadFlag n u up) = True" | "in_section (ReadExit n u up v) = True"
| "in_section (ProbeFlag n) = True" | "in_section (ProbeExit n v) = True"
| "in_section _ = False"

text \<open>Some state the source has been in since a call that began after \<open>n\<close> of them.\<close>

definition since :: "nat \<Rightarrow> EspTimeSource list \<Rightarrow> EspTimeSource set" where
  "since n h = set (take (Suc (length h) - n) h)"

definition begun :: "nat \<Rightarrow> EspTimeSource list \<Rightarrow> bool" where
  "begun n h \<longleftrightarrow> 0 < n \<and> n \<le> length h"

lemma since_grows: "begun n h \<Longrightarrow> since n h \<subseteq> since n (x # h) \<and> begun n (x # h)"
  by (auto simp: since_def begun_def Suc_diff_le)

lemma since_newest: "begun n h \<Longrightarrow> hd h \<in> since n h"
  by (cases h) (auto simp: since_def begun_def Suc_diff_le)

fun task_ok :: "EspTimeSource list \<Rightarrow> task \<Rightarrow> bool" where
  "task_ok h (ReadEnter n) = begun n h" | "task_ok h (ReadUnix n) = begun n h"
| "task_ok h (ReadUptime n u) = begun n h" | "task_ok h (ReadFlag n u up) = begun n h"
| "task_ok h (ReadExit n u up v) = begun n h"
| "task_ok h (Copied n u up v) \<longleftrightarrow> begun n h \<and> (\<exists>s \<in> since n h.
     u = tm_unixAtSyncSeconds s \<and> up = tm_uptimeAtSyncMs s \<and> v = tm_synchronised s)"
| "task_ok h (ProbeEnter n) = begun n h" | "task_ok h (ProbeFlag n) = begun n h"
| "task_ok h (ProbeExit n v) = begun n h"
| "task_ok h (Probed n v) \<longleftrightarrow> begun n h \<and> (\<exists>s \<in> since n h. v = tm_synchronised s)"
| "task_ok h _ = True"

lemma task_ok_grows: "task_ok h t \<Longrightarrow> task_ok (x # h) t"
proof (cases t)
  case (Copied n u up v)
  then show "task_ok h t \<Longrightarrow> task_ok (x # h) t" using since_grows [of n h x] by (simp, blast)
next
  case (Probed n v)
  then show "task_ok h t \<Longrightarrow> task_ok (x # h) t" using since_grows [of n h x] by (simp, blast)
qed (use since_grows in auto)

text \<open>The states are those of successive synchronisations.\<close>

fun synchronisations :: "EspTimeSource list \<Rightarrow> bool" where
  "synchronisations [] = False"
| "synchronisations [s] \<longleftrightarrow> s = EspTimeSource_init"
| "synchronisations (s' # s # h) \<longleftrightarrow> (\<exists>u up. s' = synchroniseUnixTime u up s) \<and> synchronisations (s # h)"

definition source_inv ::
  "EspTimeSource \<Rightarrow> nat option \<Rightarrow> (nat \<Rightarrow> task) \<Rightarrow> EspTimeSource list \<Rightarrow> bool"
where
  "source_inv src lock tasks h \<longleftrightarrow> synchronisations h \<and>
     (\<forall>i. in_section (tasks i) \<longrightarrow> lock = Some i) \<and> (\<forall>i. task_ok h (tasks i)) \<and>
     (case lock of None \<Rightarrow> src = hd h | Some j \<Rightarrow> section_ok (hd h) src (tasks j))"

lemma section_ok_in: "section_ok s src t \<Longrightarrow> in_section t"
  by (cases t) simp_all

text \<open>One access keeps the invariant: the holder of the lock moves on, or a task takes it.\<close>

lemma access_enters:
  assumes "source_inv src None tasks h" "access i (tasks i) src None = Some (t, src', lock')"
  shows "source_inv src' lock' (tasks(i := t)) h"
proof -
  have out: "\<not> in_section (tasks j)" for j using assms(1) by (auto simp: source_inv_def)
  have "task_ok h (tasks i)" using assms(1) by (simp add: source_inv_def)
  then show ?thesis using assms out out [of i]
    by (cases "tasks i") (auto simp: source_inv_def)
qed

lemma access_holder:
  assumes "source_inv src (Some i) tasks h" "access i (tasks i) src (Some i) = Some (t, src', lock')"
  shows "source_inv src' lock' (tasks(i := t)) (case tasks i of SyncExit u up \<Rightarrow> src' # h | _ \<Rightarrow> h)"
proof -
  have i: "section_ok (hd h) src (tasks i)" "task_ok h (tasks i)" "h \<noteq> []"
    and others: "\<And>j. j \<noteq> i \<Longrightarrow> \<not> in_section (tasks j)" "\<And>j. task_ok h (tasks j)" "synchronisations h"
    using assms(1) by (auto simp: source_inv_def)
  obtain s h' where h: "h = s # h'" using i(3) by (cases h) auto
  show ?thesis
  proof (cases "tasks i")
    case (SyncExit u up)
    have "task_ok (src # h) (tasks j)" for j using others(2) task_ok_grows by blast
    then show ?thesis using SyncExit assms(2) i others by (auto simp: source_inv_def h)
  next
    case (ReadExit n u up v)
    then show ?thesis using assms(2) i others since_newest [of n h] by (auto simp: source_inv_def)
  next
    case (ProbeExit n v)
    then show ?thesis using assms(2) i others since_newest [of n h] by (auto simp: source_inv_def)
  qed (use assms(2) i others in \<open>auto simp: source_inv_def synchroniseUnixTime_def\<close>)
qed

lemma access_holds: "access i t src lock = Some r \<Longrightarrow> in_section t \<or> lock = None"
  by (cases t) (auto split: if_splits)

lemma interleaved_inv: "interleaved src lock tasks h \<Longrightarrow> source_inv src lock tasks h"
proof (induction rule: interleaved.induct)
  case start
  show ?case by (simp add: source_inv_def)
next
  case (call_sync src lock tasks h i u up)
  then show ?case by (auto simp: source_inv_def split: option.splits)
next
  case (call_read src lock tasks h i)
  moreover have "h \<noteq> []" using call_read.IH by (auto simp: source_inv_def)
  ultimately show ?case by (auto simp: source_inv_def begun_def Suc_le_eq split: option.splits)
next
  case (call_probe src lock tasks h i)
  moreover have "h \<noteq> []" using call_probe.IH by (auto simp: source_inv_def)
  ultimately show ?case by (auto simp: source_inv_def begun_def Suc_le_eq split: option.splits)
next
  case (return src lock tasks h i)
  then show ?case by (auto simp: source_inv_def split: option.splits)
next
  case (run src lock tasks h i t src' lock')
  show ?case
  proof (cases "in_section (tasks i)")
    case True
    then have "lock = Some i" using run.IH by (simp add: source_inv_def)
    with run.IH run.hyps(2) show ?thesis using access_holder [of src i tasks h t src' lock'] by blast
  next
    case False
    then have l: "lock = None" using access_holds [OF run.hyps(2)] by simp
    have "(case tasks i of SyncExit u up \<Rightarrow> src' # h | _ \<Rightarrow> h) = h" using False by (cases "tasks i") simp_all
    then show ?thesis using access_enters [of src tasks h i t src' lock'] run.IH run.hyps(2) l by metis
  qed
qed

section \<open>Schedules\<close>

text \<open>The accesses in a given order of the tasks; a task that waits lets the others go on.\<close>

fun run_schedule ::
  "nat list \<Rightarrow> EspTimeSource \<times> nat option \<times> (nat \<Rightarrow> task) \<times> EspTimeSource list \<Rightarrow>
   EspTimeSource \<times> nat option \<times> (nat \<Rightarrow> task) \<times> EspTimeSource list"
where
  "run_schedule [] c = c"
| "run_schedule (i # is) (src, lock, tasks, h) =
     (case access i (tasks i) src lock of
        None \<Rightarrow> run_schedule is (src, lock, tasks, h)
      | Some (t, src', lock') \<Rightarrow> run_schedule is (src', lock', tasks(i := t),
          (case tasks i of SyncExit u up \<Rightarrow> src' # h | _ \<Rightarrow> h)))"

lemma run_schedule_interleaved:
  assumes "interleaved src lock tasks h"
  shows "case run_schedule is (src, lock, tasks, h) of (src', lock', tasks', h') \<Rightarrow> interleaved src' lock' tasks' h'"
  using assms
proof (induction "is" arbitrary: src lock tasks h)
  case (Cons i "is")
  show ?case
  proof (cases "access i (tasks i) src lock")
    case None
    then show ?thesis using Cons by simp
  next
    case (Some r)
    obtain t src' lock' where r: "r = (t, src', lock')" by (metis prod.exhaust)
    from Cons.IH [OF interleaved.run [OF Cons.prems Some [unfolded r]]] show ?thesis
      unfolding run_schedule.simps Some r option.case prod.case .
  qed
qed simp

section \<open>Properties\<close>

text \<open>
  C36: the time source is linearizable. However the accesses of any number of tasks interleave,
  what \<open>unixTimeSeconds\<close> returns, and what \<open>unixTimeValid\<close> returns, is the answer of the atomic
  operation on one whole state the source was in during the call, never a mixture of two
  synchronisations; the states are those of successive atomic synchronisations; at most one
  task is inside the critical section; and some task can always go on unless all are between
  calls.
\<close>

theorem time_source_linearizes:
  assumes "interleaved src lock tasks h"
  shows "(tasks i = Copied n u up v \<longrightarrow> (\<exists>s \<in> since n h. \<forall>now. seconds_from now u up v = unixTimeSeconds now s)) \<and>
    (tasks i = Probed n v \<longrightarrow> (\<exists>s \<in> since n h. v = unixTimeValid s)) \<and>
    synchronisations h \<and> (lock = None \<longrightarrow> src = hd h) \<and>
    (in_section (tasks i) \<and> in_section (tasks j) \<longrightarrow> i = j) \<and>
    ((\<forall>k. access k (tasks k) src lock = None) \<longrightarrow>
       (\<forall>k. tasks k = Idle \<or> (\<exists>n u up v. tasks k = Copied n u up v) \<or> (\<exists>n v. tasks k = Probed n v)))"
proof -
  have inv: "source_inv src lock tasks h" using interleaved_inv [OF assms] .
  have ok: "task_ok h (tasks i)" using inv by (simp add: source_inv_def)
  have atomic: "\<forall>now. seconds_from now (tm_unixAtSyncSeconds s) (tm_uptimeAtSyncMs s) (tm_synchronised s) = unixTimeSeconds now s" for s
    by (simp add: seconds_from_def unixTimeSeconds_def Let_def)
  have copied: "tasks i = Copied n u up v \<longrightarrow> (\<exists>s \<in> since n h. \<forall>now. seconds_from now u up v = unixTimeSeconds now s)"
  proof (rule impI)
    assume "tasks i = Copied n u up v"
    with ok obtain s where "s \<in> since n h" "u = tm_unixAtSyncSeconds s" "up = tm_uptimeAtSyncMs s"
      "v = tm_synchronised s" by auto
    with atomic [of s] show "\<exists>s \<in> since n h. \<forall>now. seconds_from now u up v = unixTimeSeconds now s"
      by (intro bexI [of _ s]) simp_all
  qed
  have probed: "tasks i = Probed n v \<longrightarrow> (\<exists>s \<in> since n h. v = unixTimeValid s)"
    using ok by (auto simp: unixTimeValid_def)
  have goes: "access k t src lock \<noteq> None" if "in_section t" for k t using that by (cases t) simp_all
  have stuck: "tasks k = Idle \<or> (\<exists>n u up v. tasks k = Copied n u up v) \<or> (\<exists>n v. tasks k = Probed n v)"
    if "\<forall>k. access k (tasks k) src lock = None" for k
  proof -
    have "lock = None"
    proof (cases lock)
      case (Some j)
      then have "in_section (tasks j)" using inv section_ok_in by (auto simp: source_inv_def)
      with goes that show ?thesis by blast
    qed
    then show ?thesis using spec [OF that, of k] by (cases "tasks k") auto
  qed
  show ?thesis using copied probed stuck inv by (auto simp: source_inv_def)
qed

text \<open>Task 1 begins a read while task 0 is in the middle of a synchronisation.\<close>

definition preempted :: "EspTimeSource \<times> nat option \<times> (nat \<Rightarrow> task) \<times> EspTimeSource list" where
  "preempted = run_schedule [0, 0, 1, 0, 1, 0, 0, 1, 1, 1, 1, 1] (EspTimeSource_init, None,
     (\<lambda>_. Idle)(0 := SyncEnter 1700000000 4000, 1 := ReadEnter 1), [EspTimeSource_init])"

lemma preempted_reads: "fst (snd (snd preempted)) 1 = Copied 1 1700000000 4000 True"
  by (simp add: preempted_def EspTimeSource_init_def)

lemma time_source_linearizes_witness:
  "\<exists>s \<in> since 1 (snd (snd (snd preempted))). unixTimeSeconds 9000000 s = 1700000005"
proof -
  obtain src lock tasks h where c: "preempted = (src, lock, tasks, h)" by (metis prod.exhaust)
  have "interleaved EspTimeSource_init None ((\<lambda>_. Idle)(0 := SyncEnter 1700000000 4000)) [EspTimeSource_init]"
    by (rule interleaved.call_sync [OF interleaved.start]) simp
  from interleaved.call_read [OF this, of 1]
  have "interleaved EspTimeSource_init None ((\<lambda>_. Idle)(0 := SyncEnter 1700000000 4000, 1 := ReadEnter 1))
      [EspTimeSource_init]" by simp
  from run_schedule_interleaved [OF this, of "[0, 0, 1, 0, 1, 0, 0, 1, 1, 1, 1, 1]"]
  have "interleaved src lock tasks h" unfolding preempted_def [symmetric] c by simp
  from time_source_linearizes [OF this, of 1 1 1700000000 4000 True] preempted_reads
  have "\<exists>s \<in> since 1 h. \<forall>now. seconds_from now 1700000000 4000 True = unixTimeSeconds now s"
    by (simp only: c fst_conv snd_conv)
  moreover have "seconds_from 9000000 1700000000 4000 True = 1700000005" by code_simp
  ultimately show ?thesis by (metis c snd_conv)
qed

end
