(* ===== verification/Spec2Isabelle.thy ===== *)
theory Spec2Isabelle
  imports Dali_Control Dali_Scheduler Device_Manager Health_Engine Event_Manager C6_Interface
    Event_Storage Trend_Engine Baseline_Engine System_Monitor Time_Service Diagnostics App_Main
    Demo_Run Device_Life Nvs_Store Bus_Scan Time_Interleaving
begin

text \<open>
  A model of the Savantix DALI edge controller: the firmware that polls up to 64 DALI lights over
  a two-wire bus, keeps a health score, baselines, trends and events for each of them, and
  reports events over a serial link to a C6 co-processor.

  \<^bold>\<open>The parts and how they interact.\<close> From the bus upwards:

  \<^item> \<open>Dali_Prelude\<close>: machine integers, arrays as lists of constant length, ring buffers, and the
    collections \<open>keeps\<close> and \<open>behaves\<close> the component proofs draw on. \<open>Binary32\<close>: C++ \<open>float\<close> as
    IEEE 754 data with correctly rounded operations, over the rationals. \<open>Float_Mean\<close>: the
    running-mean step of two components stays between the old mean and the new sample, rounding
    included. \<open>Crc16\<close>: the checksum two components compute, a bijection at every step.
  \<^item> \<open>Core_Types\<close> is \<open>components/dali_core/.../types.h\<close>: addresses, enumerations, readings, light
    records. \<open>Dali_Phy\<close> is the abstract physical layer \<open>i_dali_phy.h\<close>; \<open>Simulated_Phy\<close> is
    \<open>simulated_dali_phy.h/.cpp\<close>, a ring of 32 scripted responses with fault switches.
  \<^item> \<open>Dali_Frame\<close> (\<open>dali_commands.h\<close>, \<open>dali_frame.h\<close>), \<open>Command_Queue\<close> (\<open>dali_command_queue.h\<close>),
    \<open>Dali_Transaction\<close> (\<open>dali_transaction.h/.cpp\<close>: \<open>execute\<close> with retries and pauses),
    \<open>Quality_Tracker\<close> and \<open>Response_Parser\<close> are the protocol's pieces; \<open>Protocol_Pipeline\<close>
    (\<open>dali_protocol_pipeline.h\<close>, \<open>pipeline_query_client.h/.cpp\<close>) queues a request, executes the
    head of the queue and records the outcome. \<open>App_Adapters\<close> are the delay and jitter adapters
    of \<open>app_main.cpp\<close> that the transaction service gets by reference.
  \<^item> On top of the pipeline: \<open>Dali_Control\<close> sends commands; \<open>Device_Manager\<close> discovers devices and
    their capabilities through a query client, \<open>Device_Life\<close> is the type of its state over any
    interleaving of the two, and \<open>Bus_Scan\<close> composes a scan with everything below it; \<open>Dali_Scheduler\<close> decides what to poll next.
  \<^item> Beside it, without I/O of their own: \<open>Health_Engine\<close>, \<open>Trend_Engine\<close>, \<open>Baseline_Engine\<close>,
    \<open>Diagnostics\<close>, \<open>Event_Manager\<close>, \<open>Event_Storage\<close> (\<open>local_storage.h/.cpp\<close>), \<open>Nvs_Store\<close> (\<open>nvs_metadata_store.h/.cpp\<close>), \<open>System_Monitor\<close>,
    \<open>Time_Service\<close> and \<open>App_Config\<close> (\<open>app_config.h/.cpp\<close>, \<open>foundation_runtime.h/.cpp\<close>).
  \<^item> \<open>C6_Interface\<close> (\<open>c6_interface.h/.cpp\<close>): frame codec, transport, session. \<open>Demo_Controller\<close>
    composes device manager, event manager, health engines and the session into the demo's step
    and the loop of its task, which \<open>Demo_Run\<close> follows second by second; \<open>App_Main\<close> is the boot sequence \<open>app_main\<close> up to that task.

  \<^bold>\<open>How the code is translated.\<close> A class is a record of its members, an operation a function from
  the arguments and the old state to the result and the new state, in the order and with the
  guards of the source; a \<open>const\<close> operation returns no state, a reference parameter that is
  written is returned. Enumerations that a cast can leave are wrapped bytes. Unsigned integers
  are words and wrap as in C++. \<open>std::array\<close> is a list of the constant length; the source's
  range checks are kept, and the well-formedness invariants carry the lengths. A range-\<open>for\<close> that
  returns from its body is a search for the first index, an accumulating loop is a \<open>fold\<close>, the
  shifting loops of the queue and the two loops of the scheduler are recursions over the index.
  All loops of the program are bounded by a constant, a retry limit or a list, so every
  definition is a total function and no fuel is used anywhere. Virtual methods are a record of
  functions; references to shared objects are a state threaded through. A function-local
  \<open>static\<close> is a parameter that is also returned. The time source alone is shared by tasks:
  \<open>Time_Interleaving\<close> runs its critical sections one memory access at a time.

  \<^bold>\<open>Interfaces.\<close> Each is a locale with its client lemmas, interpreted on the model:
  \<open>priority_queue\<close> (\<open>Command_Queue\<close>, on the array queue); \<open>dali_phy\<close> (\<open>Dali_Phy\<close>, on the
  simulated PHY); \<open>jitter_source\<close>, \<open>jittered_service\<close> and \<open>transaction_env\<close>
  (\<open>Dali_Transaction\<close>, on the adapters of the application); \<open>dali_query_client\<close>
  (\<open>Protocol_Pipeline\<close>, on the pipeline's client and on the demo's client; the device manager's
  lemmas about clients that keep the contract are proved in it); \<open>event_store\<close>
  (\<open>Event_Manager\<close>, on the slots); \<open>c6_transport\<close> (\<open>C6_Interface\<close>, on the mock transport);
  \<open>time_source\<close> (\<open>Time_Service\<close>, on the ESP source).

  \<^bold>\<open>What the lemmas show.\<close>

  \<^item> Protocol: the array queue refines stable insertion in a list and serves by priority, then by
    age; \<open>execute\<close> makes exactly the exchanges and pauses of a retry policy stated as the
    inductive relation \<open>tx_run\<close>, whose complete runs are unique, with consistent results and
    bounded pauses; a query through an idle pipeline is that query, and through a pipeline with
    waiting requests it may not be; every quality counter is exact, cause by cause; all frame builders are read back by an independent reader of the
    address scheme; control calls arrive end to end on a free simulated bus
    with nothing waiting, except that arc level 255 is refused.
  \<^item> Scheduler and devices: \<open>next\<close> returns the first admissible due poll in round-robin order,
    starves no light, and \<open>complete\<close> re-arms exactly one due time; a scan advances an abstract
    life of each address (\<open>light_step\<close>) and reports exactly its changes; hysteresis of three
    silent scans; silence on bus loss; capability detection gives up after two silent rounds. From
    scan to wire: over an idle pipeline on the simulated bus, a scan reads the bus script address
    by address, retries included, sends that many frames and reports the changes it implies.
  \<^item> Per-light analysis, in binary32: fault persistence equals a declarative debouncing of the
    sample history; the score stays in 0 to 100 and moves the right way; rolling statistics lie
    between the extremes of the samples; a trend counts the thirty-day window, its averages are
    the binary32 means of their windows and its rate is that between the oldest and the newest
    known sample; baselines learn from qualifying observations only; a diagnosis is critical exactly for its four causes, and
    a hotter gear never gets a milder one.
  \<^item> Events: the slots refine a partial map of active events; reminders end; raising reports
    ascents of severity; the history ring recovers exactly the undamaged last 128 records.
  \<^item> Link: the codec is a bijection between well-formed frames and accepted byte sequences, any
    corrupted byte is noticed, a published frame stays pending until exactly its own number is
    acknowledged.
  \<^item> System: monitor, time source, configuration; a saved metadata value survives later saves and
    losses of power; under any interleaving of accesses a reader of
    the time source sees one completed synchronisation and the tasks never deadlock;
    the boot sequence reaches the demo exactly for valid demo configurations; the demo reports
    each condition at most once over any run, and settles on seven conditions.

  \<^bold>\<open>Bounds and hypotheses.\<close> Capacities are the source's: 64 requests, 64 devices, 32 scripted
  responses, 128 active events, 128 history records, 1024 trend samples, 240 payload bytes.
  Floating-point results assume round-to-nearest without fused operations; the running means
  assume finite samples of magnitude at most \<open>2 ^ 90\<close> and fewer than \<open>2 ^ 32\<close> of them, so that no
  intermediate overflows and the counters do not wrap. The time source assumes that its 64-bit
  clock does not reach its end, the scheduler's re-arming that it is not within a day of it.

  \<^bold>\<open>Parameters.\<close> The SDK functions \<open>vTaskDelay\<close>, \<open>pdMS_TO_TICKS\<close> and \<open>esp_timer_get_time\<close> (its
  value is an argument of the time source), the \<open>CONFIG_SAVANTIX_*\<close> macros of the generated
  \<open>sdkconfig.h\<close> (the record \<open>Kconfig\<close>), the NVS functions of the SDK (the record \<open>nvs_api\<close> with
  its documented behaviour \<open>nvs_contract\<close>: only a commit makes a value durable), and the object representation of a stored record (the
  function \<open>bytes\<close>, of which only is used that it does not depend on the checksum member).

  \<^bold>\<open>Not modelled.\<close> Log output, FreeRTOS task creation and ticks; the inside of
  \<open>portENTER_CRITICAL\<close>, of which mutual exclusion is used; the host tests, the build description and the
  documents, which are read only for where they disagree with the code.
\<close>

end
